(* ===== verification/Prelude.thy ===== *)
theory Prelude
  imports Main "HOL-Library.Word" "HOL-Library.Multiset"
begin

text \<open>
  The parts of the Go language and of its standard library that the mail server uses and
  that every component theory shares: byte strings and the functions of package
  \<open>strings\<close>, decimal printing and parsing of integers, wall-clock time and durations,
  and 64-bit integers, with the generic lemmas about them.

  Strings are byte lists. Go's case mapping and white-space tests are those of Unicode on
  UTF-8; here every rune whose image lies in ASCII is mapped as Go maps it (the dotless i
  and the long s of \<open>ToUpper\<close>, the dotted capital I and the Kelvin sign of
  \<open>ToLower\<close>), and bytes of other non-ASCII runes are left as they are: no comparison
  with an ASCII literal sees the difference.
\<close>

named_theorems go_string_simps \<open>evaluation of the string functions\<close>

section \<open>Bytes and characters\<close>

text \<open>A byte of the ASCII range, and the two directions of ASCII case mapping (bit 5).\<close>

definition is_ascii :: "char \<Rightarrow> bool" where
  "is_ascii c \<longleftrightarrow> \<not> digit7 c"

definition is_lower :: "char \<Rightarrow> bool" where
  "is_lower c \<longleftrightarrow> 97 \<le> (of_char c :: nat) \<and> (of_char c :: nat) \<le> 122"

definition is_upper :: "char \<Rightarrow> bool" where
  "is_upper c \<longleftrightarrow> 65 \<le> (of_char c :: nat) \<and> (of_char c :: nat) \<le> 90"

definition is_digit :: "char \<Rightarrow> bool" where
  "is_digit c \<longleftrightarrow> 48 \<le> (of_char c :: nat) \<and> (of_char c :: nat) \<le> 57"

definition is_alnum :: "char \<Rightarrow> bool" where
  "is_alnum c \<longleftrightarrow> is_lower c \<or> is_upper c \<or> is_digit c"

definition upc :: "char \<Rightarrow> char" where
  "upc c = (if is_lower c
     then Char (digit0 c) (digit1 c) (digit2 c) (digit3 c) (digit4 c) False (digit6 c) (digit7 c)
     else c)"

definition loc :: "char \<Rightarrow> char" where
  "loc c = (if is_upper c
     then Char (digit0 c) (digit1 c) (digit2 c) (digit3 c) (digit4 c) True (digit6 c) (digit7 c)
     else c)"

abbreviation CR :: char where "CR \<equiv> CHR 0x0D"
abbreviation LF :: char where "LF \<equiv> CHR 0x0A"
abbreviation CRLF :: string where "CRLF \<equiv> [CR, LF]"

section \<open>Package strings\<close>

subsection \<open>Prefixes, suffixes and substrings\<close>

definition HasPrefix :: "string \<Rightarrow> string \<Rightarrow> bool" where
  "HasPrefix s p \<longleftrightarrow> take (length p) s = p"

definition HasSuffix :: "string \<Rightarrow> string \<Rightarrow> bool" where
  "HasSuffix s p \<longleftrightarrow> length p \<le> length s \<and> drop (length s - length p) s = p"

definition TrimPrefix :: "string \<Rightarrow> string \<Rightarrow> string" where
  "TrimPrefix s p = (if HasPrefix s p then drop (length p) s else s)"

definition TrimSuffix :: "string \<Rightarrow> string \<Rightarrow> string" where
  "TrimSuffix s p = (if HasSuffix s p then take (length s - length p) s else s)"

fun Contains :: "string \<Rightarrow> string \<Rightarrow> bool" where
  "Contains [] p = (p = [])"
| "Contains (c # s) p = (HasPrefix (c # s) p \<or> Contains s p)"

definition ContainsAny :: "string \<Rightarrow> string \<Rightarrow> bool" where
  "ContainsAny s cs \<longleftrightarrow> list_ex (\<lambda>c. c \<in> set cs) s"

text \<open>\<open>strings.Trim\<close> with an ASCII cutset.\<close>

definition Trim :: "string \<Rightarrow> string \<Rightarrow> string" where
  "Trim s cs = rev (dropWhile (\<lambda>c. c \<in> set cs) (rev (dropWhile (\<lambda>c. c \<in> set cs) s)))"

subsection \<open>Positions, splitting and joining\<close>

text \<open>Go returns -1 where these return None.\<close>

fun IndexByte :: "string \<Rightarrow> char \<Rightarrow> nat option" where
  "IndexByte [] c = None"
| "IndexByte (x # s) c = (if x = c then Some 0 else map_option Suc (IndexByte s c))"

definition LastIndexByte :: "string \<Rightarrow> char \<Rightarrow> nat option" where
  "LastIndexByte s c = map_option (\<lambda>i. length s - Suc i) (IndexByte (rev s) c)"

text \<open>\<open>strings.Split\<close>, \<open>strings.SplitN\<close> and \<open>strings.Cut\<close> with a one-byte separator.\<close>

fun Split :: "string \<Rightarrow> char \<Rightarrow> string list" where
  "Split [] c = [[]]"
| "Split (x # s) c =
     (if x = c then [] # Split s c
      else (case Split s c of [] \<Rightarrow> [[x]] | w # ws \<Rightarrow> (x # w) # ws))"

fun Cut :: "string \<Rightarrow> char \<Rightarrow> string \<times> string" where
  "Cut [] c = ([], [])"
| "Cut (x # s) c = (if x = c then ([], s) else (let (a, b) = Cut s c in (x # a, b)))"

fun SplitN :: "string \<Rightarrow> char \<Rightarrow> nat \<Rightarrow> string list" where
  "SplitN s c 0 = []"
| "SplitN s c (Suc 0) = [s]"
| "SplitN s c (Suc (Suc n)) =
     (if c \<in> set s then fst (Cut s c) # SplitN (snd (Cut s c)) c (Suc n) else [s])"

fun Join :: "string list \<Rightarrow> string \<Rightarrow> string" where
  "Join [] sep = []"
| "Join [w] sep = w"
| "Join (w # v # ws) sep = w @ sep @ Join (v # ws) sep"

subsection \<open>Case mapping\<close>

text \<open>
  Strings are bytes, and the mappings are those of Go on ASCII and on the runes beyond it whose
  image is an ASCII letter (dotless and dotted i, long s, the Kelvin sign): these are all that
  matter where a result is compared with ASCII text, as commands, tags, mechanisms and headers
  are. Other letters, and bytes that are not UTF-8, are left as they are, where Go maps them to
  their counterpart or to U+FFFD; so two domain names that differ only in the case of such
  letters count as different here.
\<close>

fun ToUpper :: "string \<Rightarrow> string" where
  "ToUpper [] = []"
| "ToUpper [c] = [upc c]"
| "ToUpper (c # d # s) =
     (if c = CHR 0xC4 \<and> d = CHR 0xB1 then CHR ''I'' # ToUpper s
      else if c = CHR 0xC5 \<and> d = CHR 0xBF then CHR ''S'' # ToUpper s
      else upc c # ToUpper (d # s))"

fun ToLower :: "string \<Rightarrow> string" where
  "ToLower [] = []"
| "ToLower (c # s) =
     (if c = CHR 0xC4 \<and> HasPrefix s [CHR 0xB0] then CHR ''i'' # ToLower (drop 1 s)
      else if c = CHR 0xE2 \<and> HasPrefix s [CHR 0x84, CHR 0xAA] then CHR ''k'' # ToLower (drop 2 s)
      else loc c # ToLower s)"

text \<open>The canonical form under Go's simple case folding.\<close>

fun fold_case :: "string \<Rightarrow> string" where
  "fold_case [] = []"
| "fold_case (c # s) =
     (if c = CHR 0xC5 \<and> HasPrefix s [CHR 0xBF] then CHR ''s'' # fold_case (drop 1 s)
      else if c = CHR 0xE2 \<and> HasPrefix s [CHR 0x84, CHR 0xAA] then CHR ''k'' # fold_case (drop 2 s)
      else loc c # fold_case s)"

definition EqualFold :: "string \<Rightarrow> string \<Rightarrow> bool" where
  "EqualFold s t \<longleftrightarrow> fold_case s = fold_case t"

subsection \<open>White space\<close>

definition ascii_space :: "char \<Rightarrow> bool" where
  "ascii_space c \<longleftrightarrow> c \<in> {CHR '' '', CHR 0x09, CHR 0x0A, CHR 0x0B, CHR 0x0C, CHR 0x0D}"

text \<open>The UTF-8 encodings of the white-space runes beyond ASCII (\<open>unicode.IsSpace\<close>).\<close>

definition unicode_spaces :: "string list" where
  "unicode_spaces =
     [[CHR 0xC2, CHR 0x85], [CHR 0xC2, CHR 0xA0], [CHR 0xE1, CHR 0x9A, CHR 0x80],
      [CHR 0xE2, CHR 0x80, CHR 0x80], [CHR 0xE2, CHR 0x80, CHR 0x81],
      [CHR 0xE2, CHR 0x80, CHR 0x82], [CHR 0xE2, CHR 0x80, CHR 0x83],
      [CHR 0xE2, CHR 0x80, CHR 0x84], [CHR 0xE2, CHR 0x80, CHR 0x85],
      [CHR 0xE2, CHR 0x80, CHR 0x86], [CHR 0xE2, CHR 0x80, CHR 0x87],
      [CHR 0xE2, CHR 0x80, CHR 0x88], [CHR 0xE2, CHR 0x80, CHR 0x89],
      [CHR 0xE2, CHR 0x80, CHR 0x8A], [CHR 0xE2, CHR 0x80, CHR 0xA8],
      [CHR 0xE2, CHR 0x80, CHR 0xA9], [CHR 0xE2, CHR 0x80, CHR 0xAF],
      [CHR 0xE2, CHR 0x81, CHR 0x9F], [CHR 0xE3, CHR 0x80, CHR 0x80]]"

text \<open>The bytes of the white-space rune at the front, and at the end, of a string (0: none).\<close>

definition lead_space :: "string \<Rightarrow> nat" where
  "lead_space s = (case s of [] \<Rightarrow> 0 | c # _ \<Rightarrow>
     if ascii_space c then 1
     else if is_ascii c then 0
     else (case List.find (\<lambda>u. HasPrefix s u) unicode_spaces of None \<Rightarrow> 0 | Some u \<Rightarrow> length u))"

definition trail_space :: "string \<Rightarrow> nat" where
  "trail_space s = (case rev s of [] \<Rightarrow> 0 | c # _ \<Rightarrow>
     if ascii_space c then 1
     else if is_ascii c then 0
     else (case List.find (\<lambda>u. HasSuffix s u) unicode_spaces of None \<Rightarrow> 0 | Some u \<Rightarrow> length u))"

function trim_left :: "string \<Rightarrow> string" where
  "trim_left s = (if lead_space s = 0 then s else trim_left (drop (lead_space s) s))"
  by pat_completeness auto
termination
proof (relation "measure length")
  fix s :: string
  assume "lead_space s \<noteq> 0"
  then have "0 < lead_space s" "s \<noteq> []" by (auto simp: lead_space_def)
  then show "(drop (lead_space s) s, s) \<in> measure length" by simp
qed simp

function trim_right :: "string \<Rightarrow> string" where
  "trim_right s =
     (if trail_space s = 0 then s else trim_right (take (length s - trail_space s) s))"
  by pat_completeness auto
termination
proof (relation "measure length")
  fix s :: string
  assume "trail_space s \<noteq> 0"
  then have "0 < trail_space s" "s \<noteq> []" by (auto simp: trail_space_def)
  then show "(take (length s - trail_space s) s, s) \<in> measure length" by simp
qed simp

definition TrimSpace :: "string \<Rightarrow> string" where
  "TrimSpace s = trim_right (trim_left s)"

text \<open>\<open>strings.Fields\<close>: the maximal runs without white space; the word read so far is an argument.\<close>

function fields_from :: "string \<Rightarrow> string \<Rightarrow> string list" where
  "fields_from w s =
     (if s = [] then (if w = [] then [] else [w])
      else if lead_space s = 0 then fields_from (w @ [hd s]) (tl s)
      else (if w = [] then [] else [w]) @ fields_from [] (drop (lead_space s) s))"
  by pat_completeness auto
termination
  by (relation "measure (\<lambda>(w, s). length s)") auto

definition Fields :: "string \<Rightarrow> string list" where
  "Fields s = fields_from [] s"

declare trim_left.simps [simp del] trim_right.simps [simp del] fields_from.simps [simp del]

section \<open>Decimal numbers\<close>

definition digit_char :: "nat \<Rightarrow> char" where
  "digit_char d = (''0123456789'' ! (d mod 10))"

fun show_nat :: "nat \<Rightarrow> string" where
  "show_nat n = (if n < 10 then [digit_char n] else show_nat (n div 10) @ [digit_char n])"

declare show_nat.simps [simp del]

text \<open>\<open>strconv.Itoa\<close> and the verb \<open>%d\<close> of package fmt.\<close>

definition Itoa :: "int \<Rightarrow> string" where
  "Itoa i = (if i < 0 then CHR ''-'' # show_nat (nat (- i)) else show_nat (nat i))"

definition digit_val :: "char \<Rightarrow> nat" where
  "digit_val c = of_char c - 48"

fun digits_val :: "nat \<Rightarrow> string \<Rightarrow> nat" where
  "digits_val acc [] = acc"
| "digits_val acc (c # s) = digits_val (10 * acc + digit_val c) s"

text \<open>\<open>strconv.ParseUint(s, 10, 64)\<close> on a non-empty string of digits; None is the range error.\<close>

definition ParseUint64 :: "string \<Rightarrow> nat option" where
  "ParseUint64 s = (if s \<noteq> [] \<and> list_all is_digit s \<and> digits_val 0 s < 2 ^ 64
     then Some (digits_val 0 s) else None)"

section \<open>Time\<close>

text \<open>
  A \<open>time.Time\<close> is its distance in nanoseconds from Go's zero time, so \<open>IsZero\<close> is
  being 0; a \<open>time.Duration\<close> is a number of nanoseconds. \<open>Sub\<close> saturates at the
  range of int64, as in Go.
\<close>

type_synonym time = int
type_synonym duration = int

abbreviation second :: duration where "second \<equiv> 1000000000"
abbreviation minute :: duration where "minute \<equiv> 60 * second"
abbreviation hour :: duration where "hour \<equiv> 60 * minute"

definition IsZero :: "time \<Rightarrow> bool" where
  "IsZero t \<longleftrightarrow> t = 0"

definition time_Sub :: "time \<Rightarrow> time \<Rightarrow> duration" where
  "time_Sub t u = max (- (2 ^ 63)) (min (2 ^ 63 - 1) (t - u))"

section \<open>Generic lemmas\<close>

lemma HasPrefix_append [simp]: "HasPrefix (p @ s) p"
  by (simp add: HasPrefix_def)

lemma HasPrefixE: "HasPrefix s p \<Longrightarrow> \<exists>t. s = p @ t"
  unfolding HasPrefix_def by (metis append_take_drop_id)

lemma HasSuffixE: "HasSuffix s p \<Longrightarrow> \<exists>t. s = t @ p"
  unfolding HasSuffix_def by (metis append_take_drop_id)

lemma TrimPrefix_append [simp]: "TrimPrefix (p @ s) p = s"
  by (simp add: TrimPrefix_def)

lemma Split_not_Nil [simp]: "Split s c \<noteq> []"
  by (induction s) (auto split: list.splits)

lemma Split_elem: "w \<in> set (Split s c) \<Longrightarrow> c \<notin> set w"
  by (induction s arbitrary: w) (auto split: if_splits list.splits)

lemma Join_Split: "Join (Split s c) [c] = s"
proof (induction s)
  case (Cons x s)
  obtain w ws where sp: "Split s c = w # ws" by (cases "Split s c") auto
  then show ?case using Cons by (cases ws) auto
qed simp

lemma set_Join: "set (Join ws sep) \<subseteq> (\<Union>w \<in> set ws. set w) \<union> set sep"
  by (induction ws sep rule: Join.induct) auto

lemma Split_covers: "c \<in> set s \<Longrightarrow> c \<noteq> d \<Longrightarrow> \<exists>w \<in> set (Split s d). c \<in> set w"
  using set_Join [of "Split s d" "[d]"] by (auto simp: Join_Split)

lemma Split_free [simp]: "c \<notin> set s \<Longrightarrow> Split s c = [s]"
  by (induction s) auto

lemma Split_append: "c \<notin> set a \<Longrightarrow> Split (a @ c # b) c = a # Split b c"
  by (induction a) auto

lemma Split_pair_iff: "Split s c = [a, b] \<longleftrightarrow> s = a @ c # b \<and> c \<notin> set a \<and> c \<notin> set b"
  using Join_Split [of s c] Split_elem [of _ s c] by (auto simp: Split_append)

lemma Cut_append: "c \<notin> set a \<Longrightarrow> Cut (a @ c # b) c = (a, b)"
  by (induction a) auto

lemma fst_Cut_free: "c \<notin> set (fst (Cut s c))"
  by (induction s) (auto simp: case_prod_beta)

lemma Cut_free [simp]: "c \<notin> set s \<Longrightarrow> Cut s c = (s, [])"
  by (induction s) auto

lemma IndexByte_None: "IndexByte s c = None \<longleftrightarrow> c \<notin> set s"
  by (induction s) auto

lemma IndexByte_Some:
  "IndexByte s c = Some i \<Longrightarrow> i < length s \<and> s ! i = c \<and> c \<notin> set (take i s)"
proof (induction s arbitrary: i)
  case (Cons x s)
  then show ?case by (cases "x = c") (auto simp: nth_Cons split: nat.splits)
qed simp

lemma IndexByte_append: "c \<notin> set a \<Longrightarrow> IndexByte (a @ c # b) c = Some (length a)"
  by (induction a) auto

lemma LastIndexByte_append:
  "c \<notin> set b \<Longrightarrow> LastIndexByte (a @ c # b) c = Some (length a)"
  by (simp add: LastIndexByte_def IndexByte_append)

lemma LastIndexByte_None: "LastIndexByte s c = None \<longleftrightarrow> c \<notin> set s"
  by (simp add: LastIndexByte_def IndexByte_None)

lemma EqualFold_refl [simp]: "EqualFold s s"
  by (simp add: EqualFold_def)

lemma EqualFold_sym: "EqualFold s t \<longleftrightarrow> EqualFold t s"
  by (auto simp: EqualFold_def)

lemma EqualFold_trans: "EqualFold s t \<Longrightarrow> EqualFold t u \<Longrightarrow> EqualFold s u"
  by (simp add: EqualFold_def)

lemma Contains_iff: "Contains s p \<longleftrightarrow> (\<exists>a b. s = a @ p @ b)"
proof (induction s)
  case Nil
  then show ?case by auto
next
  case (Cons c s)
  show ?case
  proof
    assume "Contains (c # s) p"
    then consider "HasPrefix (c # s) p" | "Contains s p" by auto
    then show "\<exists>a b. c # s = a @ p @ b"
    proof cases
      case 1
      then obtain t where "c # s = p @ t" using HasPrefixE by blast
      then show ?thesis by (metis append_Nil)
    next
      case 2
      then obtain a b where "s = a @ p @ b" using Cons by blast
      then show ?thesis by (metis append_Cons)
    qed
  next
    assume "\<exists>a b. c # s = a @ p @ b"
    then obtain a b where ab: "c # s = a @ p @ b" by blast
    show "Contains (c # s) p"
    proof (cases a)
      case Nil
      then show ?thesis using ab by (metis Contains.simps(2) HasPrefix_append append_Nil)
    next
      case (Cons x a')
      then have "s = a' @ p @ b" using ab by simp
      then show ?thesis using \<open>Contains s p = _\<close> by auto
    qed
  qed
qed

lemma is_digit_digit_char [simp]: "is_digit (digit_char d)"
proof -
  have "d mod 10 \<in> {0,1,2,3,4,5,6,7,8,9}" by (simp, presburger)
  then show ?thesis by (auto simp: digit_char_def is_digit_def)
qed

lemma digit_val_digit_char: "digit_val (digit_char d) = d mod 10"
proof -
  have "d mod 10 \<in> {0,1,2,3,4,5,6,7,8,9}" by (simp, presburger)
  then show ?thesis by (auto simp: digit_char_def digit_val_def)
qed

lemma digits_val_append: "digits_val acc (s @ t) = digits_val (digits_val acc s) t"
  by (induction s arbitrary: acc) auto

lemma show_nat_digits: "list_all is_digit (show_nat n) \<and> show_nat n \<noteq> []"
proof (induction n rule: show_nat.induct)
  case (1 n)
  then show ?case by (cases "n < 10") (auto simp: show_nat.simps [of n])
qed

lemma digits_val_show_nat: "digits_val 0 (show_nat n) = n"
proof (induction n rule: show_nat.induct)
  case (1 n)
  then show ?case
    by (cases "n < 10")
      (auto simp: show_nat.simps [of n] digits_val_append digit_val_digit_char)
qed

lemma ParseUint64_show_nat: "n < 2 ^ 64 \<Longrightarrow> ParseUint64 (show_nat n) = Some n"
  using show_nat_digits [of n] by (simp add: ParseUint64_def digits_val_show_nat)

lemma show_nat_inj: "show_nat m = show_nat n \<Longrightarrow> m = n"
  by (metis digits_val_show_nat)

lemma show_nat_ascii: "c \<in> set (show_nat n) \<Longrightarrow> is_digit c"
  using show_nat_digits [of n] by (auto simp: list_all_iff)

lemma Itoa_no_space: "CHR '' '' \<notin> set (Itoa i)"
  using show_nat_ascii [of "CHR '' ''"] by (auto simp: Itoa_def is_digit_def)

text \<open>A line that starts with a number and a space determines the number.\<close>

lemma prefix_before_space:
  assumes "CHR '' '' \<notin> set a" "CHR '' '' \<notin> set b" "a @ CHR '' '' # x = b @ CHR '' '' # y"
  shows "a = b"
  using assms by (metis Cut_append fst_conv)

lemma Itoa_inj_pos: "0 \<le> i \<Longrightarrow> Itoa i = show_nat n \<Longrightarrow> i = int n"
  by (auto simp: Itoa_def dest: show_nat_inj)

lemma Itoa_250: "show_nat 250 = ''250''"
  by code_simp

lemma reply_code_250:
  assumes "Itoa code @ '' '' @ m = ''250 '' @ t"
  shows "code = 250"
proof -
  have "Itoa code @ CHR '' '' # m = ''250'' @ CHR '' '' # t" using assms by simp
  then have i: "Itoa code = ''250''" by (rule prefix_before_space [rotated 2]) (simp_all add: Itoa_no_space)
  then have "0 \<le> code" by (auto simp: Itoa_def split: if_splits)
  then show ?thesis using Itoa_inj_pos [of code 250] Itoa_250 i by simp
qed

text \<open>The first word of a text that starts with ASCII characters other than white space.\<close>

lemma fields_word:
  "list_all (\<lambda>c. is_ascii c \<and> \<not> ascii_space c) v \<Longrightarrow> w @ v \<noteq> [] \<Longrightarrow> fields_from w (v @ CHR '' '' # s) = (w @ v) # fields_from [] s"
proof (induction v arbitrary: w)
  case Nil
  have "lead_space (CHR '' '' # s) = 1" by (simp add: lead_space_def ascii_space_def)
  then show ?case using Nil by (subst fields_from.simps) simp
next
  case (Cons c v)
  then have "lead_space ((c # v) @ CHR '' '' # s) = 0" by (simp add: lead_space_def)
  then show ?case using Cons by (subst fields_from.simps) simp
qed

end
