(* ===== verification/RetryHeap.thy ===== *)
theory RetryHeap
  imports Prelude
begin

text \<open>
  Messages (\<open>pkg/message/message.go\<close>) and the retry heap of \<open>internal/queue/queue.go\<close>:
  the methods of \<open>retryHeap\<close> and the algorithms of \<open>container/heap\<close> that drive them, on
  the list of items. The heap is shown to be a priority queue: it keeps its items, its order
  and the position recorded in each item.
\<close>

section \<open>Messages\<close>

record Message =
  ID :: string
  From :: string
  To :: "string list"
  Data :: string
  CreatedAt :: time
  RetryCount :: int
  NextAttemptAt :: time

text \<open>\<open>NewMessage\<close>; the text of the time that makes the identifier is an argument.\<close>

definition NewMessage :: "time \<Rightarrow> string \<Rightarrow> string \<Rightarrow> string list \<Rightarrow> string \<Rightarrow> Message" where
  "NewMessage now stamp from to dat =
     \<lparr>ID = stamp, From = from, To = to, Data = dat, CreatedAt = now, RetryCount = 0, NextAttemptAt = now\<rparr>"

section \<open>The methods of retryHeap\<close>

record retryItem =
  msg :: Message
  priority :: time
  index :: int

type_synonym retryHeap = "retryItem list"

definition rh_Len :: "retryHeap \<Rightarrow> nat" where
  "rh_Len rh = length rh"

definition rh_Less :: "retryHeap \<Rightarrow> nat \<Rightarrow> nat \<Rightarrow> bool" where
  "rh_Less rh i j \<longleftrightarrow> priority (rh ! i) < priority (rh ! j)"

definition rh_Swap :: "retryHeap \<Rightarrow> nat \<Rightarrow> nat \<Rightarrow> retryHeap" where
  "rh_Swap rh i j = rh[i := (rh ! j)\<lparr>index := int i\<rparr>, j := (rh ! i)\<lparr>index := int j\<rparr>]"

definition rh_Push :: "retryHeap \<Rightarrow> retryItem \<Rightarrow> retryHeap" where
  "rh_Push rh x = rh @ [x\<lparr>index := int (length rh)\<rparr>]"

definition rh_Pop :: "retryHeap \<Rightarrow> retryItem \<times> retryHeap" where
  "rh_Pop rh = ((last rh)\<lparr>index := - 1\<rparr>, butlast rh)"

definition rh_peek :: "retryHeap \<Rightarrow> retryItem option" where
  "rh_peek rh = (case rh of [] \<Rightarrow> None | x # _ \<Rightarrow> Some x)"

section \<open>container/heap\<close>

definition parent :: "nat \<Rightarrow> nat" where
  "parent j = (j - 1) div 2"

lemma parent_less: "0 < j \<Longrightarrow> parent j < j"
  by (auto simp: parent_def)

lemma parent_le: "parent j \<le> j"
  by (auto simp: parent_def)

lemma parent_child: "0 < k \<Longrightarrow> parent k = i \<longleftrightarrow> k = 2 * i + 1 \<or> k = 2 * i + 2"
  unfolding parent_def by linarith

function heap_up :: "retryHeap \<Rightarrow> nat \<Rightarrow> retryHeap" where
  "heap_up h j =
     (if parent j = j \<or> \<not> rh_Less h j (parent j) then h
      else heap_up (rh_Swap h (parent j) j) (parent j))"
  by pat_completeness auto
termination
  using parent_le le_neq_trans by (relation "measure (\<lambda>(h, j). j)") auto

text \<open>The smaller child of \<open>i\<close> among the first \<open>n\<close> items.\<close>

definition small_child :: "retryHeap \<Rightarrow> nat \<Rightarrow> nat \<Rightarrow> nat" where
  "small_child h i n =
     (if 2 * i + 2 < n \<and> rh_Less h (2 * i + 2) (2 * i + 1) then 2 * i + 2 else 2 * i + 1)"

function heap_down :: "retryHeap \<Rightarrow> nat \<Rightarrow> nat \<Rightarrow> retryHeap" where
  "heap_down h i n =
     (if n \<le> 2 * i + 1 \<or> \<not> rh_Less h (small_child h i n) i then h
      else heap_down (rh_Swap h i (small_child h i n)) (small_child h i n) n)"
  by pat_completeness auto
termination
  by (relation "measure (\<lambda>(h, i, n). n - i)") (auto simp: small_child_def)

definition heap_Init :: "retryHeap \<Rightarrow> retryHeap" where
  "heap_Init h = fold (\<lambda>i h. heap_down h i (rh_Len h)) (rev [0..<rh_Len h div 2]) h"

definition heap_Push :: "retryHeap \<Rightarrow> retryItem \<Rightarrow> retryHeap" where
  "heap_Push h x = (let h' = rh_Push h x in heap_up h' (rh_Len h' - 1))"

definition heap_Pop :: "retryHeap \<Rightarrow> retryItem \<times> retryHeap" where
  "heap_Pop h = (let n = rh_Len h - 1 in rh_Pop (heap_down (rh_Swap h 0 n) 0 n))"

declare heap_up.simps [simp del] heap_down.simps [simp del]

section \<open>Items are kept\<close>

text \<open>An item without its position.\<close>

definition core :: "retryItem \<Rightarrow> Message \<times> time" where
  "core x = (msg x, priority x)"

definition heap_items :: "retryHeap \<Rightarrow> (Message \<times> time) multiset" where
  "heap_items h = mset (map core h)"

lemma core_index [simp]: "core (x\<lparr>index := k\<rparr>) = core x"
  by (simp add: core_def)

lemma priority_core: "priority x = snd (core x)"
  by (simp add: core_def)

lemma length_rh_Swap [simp]: "length (rh_Swap h i j) = length h"
  by (simp add: rh_Swap_def)

lemma map_core_Swap:
  "i < length h \<Longrightarrow> j < length h \<Longrightarrow>
     map core (rh_Swap h i j) = (map core h)[i := map core h ! j, j := map core h ! i]"
  by (simp add: rh_Swap_def map_update)

lemma heap_items_Swap:
  "i < length h \<Longrightarrow> j < length h \<Longrightarrow> heap_items (rh_Swap h i j) = heap_items h"
  using mset_swap [of j "map core h" i] unfolding heap_items_def
  by (simp only: map_core_Swap length_map)

lemma priority_Swap:
  "i < length h \<Longrightarrow> j < length h \<Longrightarrow> k < length h \<Longrightarrow>
     priority (rh_Swap h i j ! k) =
       (if k = j then priority (h ! i) else if k = i then priority (h ! j) else priority (h ! k))"
  by (auto simp: rh_Swap_def nth_list_update)

lemma heap_up_items:
  "j < length h \<Longrightarrow> heap_items (heap_up h j) = heap_items h \<and> length (heap_up h j) = length h"
proof (induction h j rule: heap_up.induct)
  case (1 h j)
  have "parent j < length h" using parent_le [of j] "1.prems" by (rule le_less_trans)
  then show ?case using "1.IH" "1.prems"
    by (cases "parent j = j \<or> \<not> rh_Less h j (parent j)")
      (auto simp: heap_items_Swap heap_up.simps [of h j])
qed

lemma small_child_less: "2 * i + 1 < n \<Longrightarrow> i < small_child h i n \<and> small_child h i n < n"
  by (auto simp: small_child_def)

lemma heap_down_items:
  "n \<le> length h \<Longrightarrow> heap_items (heap_down h i n) = heap_items h \<and> length (heap_down h i n) = length h"
proof (induction h i n rule: heap_down.induct)
  case (1 h i n)
  show ?case
  proof (cases "n \<le> 2 * i + 1 \<or> \<not> rh_Less h (small_child h i n) i")
    case False
    then have "i < length h" "small_child h i n < length h"
      using "1.prems" small_child_less [of i n h] by auto
    then show ?thesis using False "1.IH" "1.prems"
      by (subst (1 2) heap_down.simps) (simp add: heap_items_Swap)
  qed (simp add: heap_down.simps [of h i n])
qed

section \<open>Order\<close>

definition heap_ok :: "retryHeap \<Rightarrow> bool" where
  "heap_ok h \<longleftrightarrow> (\<forall>k. 0 < k \<and> k < length h \<longrightarrow> priority (h ! parent k) \<le> priority (h ! k))"

text \<open>The heap is in order but for the item at \<open>j\<close>, which may be too small for its place.\<close>

definition up_inv :: "retryHeap \<Rightarrow> nat \<Rightarrow> bool" where
  "up_inv h j \<longleftrightarrow> j < length h \<and>
     (\<forall>k. 0 < k \<and> k < length h \<and> k \<noteq> j \<longrightarrow> priority (h ! parent k) \<le> priority (h ! k)) \<and>
     (\<forall>k. 0 < k \<and> k < length h \<and> parent k = j \<and> 0 < j \<longrightarrow> priority (h ! parent j) \<le> priority (h ! k))"

text \<open>The first \<open>n\<close> items are in order but for the item at \<open>i\<close>, which may be too big.\<close>

definition down_inv :: "retryHeap \<Rightarrow> nat \<Rightarrow> nat \<Rightarrow> bool" where
  "down_inv h i n \<longleftrightarrow> n \<le> length h \<and>
     (\<forall>k. 0 < k \<and> k < n \<and> parent k \<noteq> i \<longrightarrow> priority (h ! parent k) \<le> priority (h ! k)) \<and>
     (\<forall>k. 0 < k \<and> k < n \<and> parent k = i \<and> 0 < i \<longrightarrow> priority (h ! parent i) \<le> priority (h ! k))"

lemma up_inv_swap:
  assumes inv: "up_inv h j" and ne: "parent j \<noteq> j" and less: "rh_Less h j (parent j)"
  shows "up_inv (rh_Swap h (parent j) j) (parent j)"
proof -
  let ?i = "parent j" and ?g = "rh_Swap h (parent j) j"
  have lt: "?i < j" "j < length h" "0 < j"
    using ne inv parent_le [of j] by (auto simp: up_inv_def)
  then have p: "\<And>k. k < length h \<Longrightarrow> priority (?g ! k) =
      (if k = j then priority (h ! ?i) else if k = ?i then priority (h ! j) else priority (h ! k))"
    by (intro priority_Swap) auto
  have jl: "priority (h ! j) < priority (h ! ?i)" using less by (simp add: rh_Less_def)
  have ord: "priority (?g ! parent k) \<le> priority (?g ! k)" if k: "0 < k" "k < length h" "k \<noteq> ?i" for k
  proof (cases "k = j")
    case True
    then show ?thesis using p [of k] p [of ?i] lt jl by auto
  next
    case False
    have pk: "parent k < length h" using parent_less [OF k(1)] k by linarith
    have hk: "priority (h ! parent k) \<le> priority (h ! k)" using inv k False by (auto simp: up_inv_def)
    have hj: "parent k = j \<Longrightarrow> priority (h ! ?i) \<le> priority (h ! k)"
      using inv k lt by (auto simp: up_inv_def)
    show ?thesis using p [OF k(2)] p [OF pk] hk hj jl False k(3) by auto
  qed
  have gr: "priority (?g ! parent ?i) \<le> priority (?g ! k)"
    if k: "0 < k" "k < length h" "parent k = ?i" "0 < ?i" for k
  proof -
    have "parent ?i < ?i" using k(4) by (rule parent_less)
    then have gp: "parent ?i < length h" "parent ?i \<noteq> ?i" "parent ?i \<noteq> j" using lt by auto
    have up: "priority (h ! parent ?i) \<le> priority (h ! ?i)"
      using inv lt k by (auto simp: up_inv_def)
    show ?thesis
    proof (cases "k = j")
      case True
      then show ?thesis using p [OF k(2)] p [OF gp(1)] gp up by auto
    next
      case False
      then have "priority (h ! ?i) \<le> priority (h ! k)" using inv k by (auto simp: up_inv_def)
      moreover have "k \<noteq> ?i" using k parent_less [OF k(1)] by auto
      ultimately show ?thesis using p [OF k(2)] p [OF gp(1)] gp up False by auto
    qed
  qed
  show ?thesis unfolding up_inv_def using ord gr lt by auto
qed

lemma up_inv_stop: "up_inv h j \<Longrightarrow> parent j = j \<or> \<not> rh_Less h j (parent j) \<Longrightarrow> heap_ok h"
  using parent_less [of j] unfolding up_inv_def heap_ok_def rh_Less_def
  by (metis less_irrefl linorder_not_less)

lemma heap_ok_up: "up_inv h j \<Longrightarrow> heap_ok (heap_up h j)"
proof (induction h j rule: heap_up.induct)
  case (1 h j)
  show ?case
  proof (cases "parent j = j \<or> \<not> rh_Less h j (parent j)")
    case True
    then show ?thesis using up_inv_stop "1.prems" by (simp add: heap_up.simps [of h j])
  next
    case False
    then show ?thesis using "1.IH" up_inv_swap "1.prems" by (simp add: heap_up.simps [of h j])
  qed
qed

lemma small_child_min:
  assumes "0 < k" "k < n" "parent k = i"
  shows "priority (h ! small_child h i n) \<le> priority (h ! k)"
proof -
  have "k = 2 * i + 1 \<or> k = 2 * i + 2" using assms parent_child by blast
  then show ?thesis using assms by (auto simp: small_child_def rh_Less_def)
qed

lemma down_inv_swap:
  assumes inv: "down_inv h i n" and lt: "2 * i + 1 < n"
    and less: "rh_Less h (small_child h i n) i"
  shows "down_inv (rh_Swap h i (small_child h i n)) (small_child h i n) n"
proof -
  let ?c = "small_child h i n" and ?g = "rh_Swap h i (small_child h i n)"
  have c: "i < ?c" "?c < n" "n \<le> length h" "parent ?c = i"
    using small_child_less [OF lt, of h] inv
    by (auto simp: down_inv_def small_child_def parent_def)
  then have p: "\<And>k. k < length h \<Longrightarrow> priority (?g ! k) =
      (if k = ?c then priority (h ! i) else if k = i then priority (h ! ?c) else priority (h ! k))"
    by (intro priority_Swap) auto
  have cl: "priority (h ! ?c) < priority (h ! i)" using less by (simp add: rh_Less_def)
  have ord: "priority (?g ! parent k) \<le> priority (?g ! k)"
    if k: "0 < k" "k < n" "parent k \<noteq> ?c" for k
  proof (cases "parent k = i")
    case True
    then have "priority (h ! ?c) \<le> priority (h ! k)" using small_child_min k by blast
    moreover have "k \<noteq> i" using True parent_less [OF k(1)] by auto
    ultimately show ?thesis using p [of k] p [of i] True c k cl by auto
  next
    case False
    have pk: "parent k < length h" "k < length h" using parent_less [OF k(1)] k c by auto
    have "k \<noteq> ?c" using False c by auto
    moreover have "priority (h ! parent k) \<le> priority (h ! k)" using inv k False by (auto simp: down_inv_def)
    moreover have "k = i \<Longrightarrow> priority (h ! parent i) \<le> priority (h ! ?c)"
      using inv k c by (auto simp: down_inv_def)
    ultimately show ?thesis using p [OF pk(1)] p [OF pk(2)] False k(3) by auto
  qed
  have gr: "priority (?g ! parent ?c) \<le> priority (?g ! k)" if k: "0 < k" "k < n" "parent k = ?c" for k
  proof -
    have "priority (h ! ?c) \<le> priority (h ! k)" using inv k c by (auto simp: down_inv_def)
    moreover have "k \<noteq> ?c" "k \<noteq> i" using parent_less [OF k(1)] k c by auto
    ultimately show ?thesis using p [of k] p [of i] k c by auto
  qed
  show ?thesis unfolding down_inv_def using ord gr c by auto
qed

lemma down_inv_stop:
  assumes "down_inv h i n" "n \<le> 2 * i + 1 \<or> \<not> rh_Less h (small_child h i n) i" "0 < k" "k < n"
  shows "priority (h ! parent k) \<le> priority (h ! k)"
proof (cases "parent k = i")
  case True
  then have "priority (h ! small_child h i n) \<le> priority (h ! k)" "2 * i + 1 < n"
    using small_child_min assms(3,4) parent_child [OF assms(3)] assms(4) by auto
  then show ?thesis using assms(2) True by (auto simp: rh_Less_def)
next
  case False
  then show ?thesis using assms by (auto simp: down_inv_def)
qed

text \<open>Sifting down restores the order of the first \<open>n\<close> items and leaves the others alone.\<close>

lemma heap_down_ok:
  "down_inv h i n \<Longrightarrow>
     (\<forall>k. 0 < k \<and> k < n \<longrightarrow> priority (heap_down h i n ! parent k) \<le> priority (heap_down h i n ! k)) \<and>
     (\<forall>k. n \<le> k \<longrightarrow> heap_down h i n ! k = h ! k)"
proof (induction h i n rule: heap_down.induct)
  case (1 h i n)
  show ?case
  proof (cases "n \<le> 2 * i + 1 \<or> \<not> rh_Less h (small_child h i n) i")
    case True
    then show ?thesis using down_inv_stop [OF "1.prems" True] by (simp add: heap_down.simps [of h i n])
  next
    case False
    let ?c = "small_child h i n"
    have c: "i < n" "?c < n" using False small_child_less [of i n h] by auto
    have "heap_down h i n = heap_down (rh_Swap h i ?c) ?c n"
      using False by (simp add: heap_down.simps [of h i n])
    moreover have "rh_Swap h i ?c ! k = h ! k" if "n \<le> k" for k
      using that c by (simp add: rh_Swap_def)
    ultimately show ?thesis using "1.IH" [OF False down_inv_swap] "1.prems" False by auto
  qed
qed

section \<open>Recorded positions\<close>

definition index_ok :: "retryHeap \<Rightarrow> bool" where
  "index_ok h \<longleftrightarrow> (\<forall>k < length h. index (h ! k) = int k)"

lemma index_ok_Swap: "index_ok h \<Longrightarrow> i < length h \<Longrightarrow> j < length h \<Longrightarrow> index_ok (rh_Swap h i j)"
  by (auto simp: index_ok_def rh_Swap_def nth_list_update)

lemma index_ok_up: "j < length h \<Longrightarrow> index_ok h \<Longrightarrow> index_ok (heap_up h j)"
proof (induction h j rule: heap_up.induct)
  case (1 h j)
  have "parent j < length h" using parent_le [of j] "1.prems"(1) by (rule le_less_trans)
  then show ?case using "1.IH" "1.prems"
    by (cases "parent j = j \<or> \<not> rh_Less h j (parent j)")
      (auto simp: index_ok_Swap heap_up.simps [of h j])
qed

lemma index_ok_down: "n \<le> length h \<Longrightarrow> index_ok h \<Longrightarrow> index_ok (heap_down h i n)"
proof (induction h i n rule: heap_down.induct)
  case (1 h i n)
  show ?case
  proof (cases "n \<le> 2 * i + 1 \<or> \<not> rh_Less h (small_child h i n) i")
    case False
    then have "index_ok (rh_Swap h i (small_child h i n))"
      using "1.prems" small_child_less [of i n h] by (intro index_ok_Swap) auto
    then show ?thesis using False "1.IH" "1.prems" by (subst heap_down.simps) simp
  qed (use "1.prems" in \<open>simp add: heap_down.simps [of h i n]\<close>)
qed

section \<open>Push and Pop\<close>

text \<open>The invariant of the retry heap: in order, and every item knows its position.\<close>

definition heap_inv :: "retryHeap \<Rightarrow> bool" where
  "heap_inv h \<longleftrightarrow> heap_ok h \<and> index_ok h"

lemma heap_inv_Nil [simp]: "heap_inv []"
  by (simp add: heap_inv_def heap_ok_def index_ok_def)

lemma heap_Init_Nil [simp]: "heap_Init [] = []"
  by (simp add: heap_Init_def rh_Len_def)

lemma heap_Push_items: "heap_items (heap_Push h x) = add_mset (core x) (heap_items h)"
  using heap_up_items [of "length h" "rh_Push h x"]
  by (simp add: heap_Push_def rh_Len_def rh_Push_def heap_items_def)

lemma length_heap_Push [simp]: "length (heap_Push h x) = Suc (length h)"
  using heap_up_items [of "length h" "rh_Push h x"]
  by (simp add: heap_Push_def rh_Len_def rh_Push_def)

lemma heap_Push_inv: "heap_inv h \<Longrightarrow> heap_inv (heap_Push h x)"
proof -
  assume inv: "heap_inv h"
  let ?h = "rh_Push h x"
  have "up_inv ?h (length h)" unfolding up_inv_def
  proof (intro conjI allI impI)
    fix k assume k: "0 < k \<and> k < length ?h \<and> k \<noteq> length h"
    then have "k < length h" "parent k < length h" using parent_less [of k] by (auto simp: rh_Push_def)
    then show "priority (?h ! parent k) \<le> priority (?h ! k)"
      using inv k by (auto simp: rh_Push_def nth_append heap_inv_def heap_ok_def)
  next
    fix k assume "0 < k \<and> k < length ?h \<and> parent k = length h \<and> 0 < length h"
    then show "priority (?h ! parent (length h)) \<le> priority (?h ! k)"
      using parent_less [of k] by (auto simp: rh_Push_def)
  qed (simp add: rh_Push_def)
  moreover have "index_ok ?h" using inv
    by (auto simp: heap_inv_def index_ok_def rh_Push_def nth_append less_Suc_eq)
  ultimately show ?thesis
    using heap_ok_up index_ok_up [of "length h" ?h]
    by (simp add: heap_inv_def heap_Push_def rh_Len_def rh_Push_def)
qed

lemma heap_top_min: "heap_ok h \<Longrightarrow> k < length h \<Longrightarrow> priority (h ! 0) \<le> priority (h ! k)"
proof (induction k rule: less_induct)
  case (less k)
  show ?case
  proof (cases "k = 0")
    case False
    then have "parent k < k" using parent_less by simp
    then have "priority (h ! 0) \<le> priority (h ! parent k)" using less by simp
    also have "\<dots> \<le> priority (h ! k)" using less.prems False by (simp add: heap_ok_def)
    finally show ?thesis .
  qed simp
qed

text \<open>The list that \<open>heap.Pop\<close> hands to \<open>retryHeap.Pop\<close>.\<close>

definition pop_list :: "retryHeap \<Rightarrow> retryHeap" where
  "pop_list h = heap_down (rh_Swap h 0 (length h - 1)) 0 (length h - 1)"

lemma heap_Pop_alt: "heap_Pop h = ((last (pop_list h))\<lparr>index := - 1\<rparr>, butlast (pop_list h))"
  by (simp add: heap_Pop_def pop_list_def rh_Len_def rh_Pop_def Let_def)

lemma pop_list_facts:
  assumes inv: "heap_inv h" and n: "length h = Suc n"
  shows "length (pop_list h) = Suc n" and "heap_items (pop_list h) = heap_items h"
    and "index_ok (pop_list h)" and "core (pop_list h ! n) = core (h ! 0)"
    and "\<And>k. 0 < k \<Longrightarrow> k < n \<Longrightarrow> priority (pop_list h ! parent k) \<le> priority (pop_list h ! k)"
proof -
  let ?s = "rh_Swap h 0 n"
  have pl: "pop_list h = heap_down ?s 0 n" by (simp add: pop_list_def n)
  have len: "n \<le> length ?s" using n by simp
  show "length (pop_list h) = Suc n" "heap_items (pop_list h) = heap_items h"
    using heap_down_items [OF len, of 0] n by (auto simp: pl heap_items_Swap)
  show "index_ok (pop_list h)" unfolding pl
    using inv n by (intro index_ok_down index_ok_Swap) (auto simp: heap_inv_def)
  have di: "down_inv ?s 0 n" unfolding down_inv_def
  proof (intro conjI allI impI)
    fix k assume k: "0 < k \<and> k < n \<and> parent k \<noteq> 0"
    then have "parent k < n" using parent_less [of k] by linarith
    then show "priority (?s ! parent k) \<le> priority (?s ! k)"
      using k n inv by (simp add: priority_Swap heap_inv_def heap_ok_def)
  qed (use len in auto)
  from heap_down_ok [OF di]
  show "\<And>k. 0 < k \<Longrightarrow> k < n \<Longrightarrow> priority (pop_list h ! parent k) \<le> priority (pop_list h ! k)"
    by (simp add: pl)
  have "pop_list h ! n = ?s ! n" using heap_down_ok [OF di] by (simp add: pl)
  then show "core (pop_list h ! n) = core (h ! 0)" using n by (simp add: rh_Swap_def)
qed

lemma heap_Pop_spec:
  assumes inv: "heap_inv h" and n: "length h = Suc n"
  shows "core (fst (heap_Pop h)) = core (h ! 0)" and "heap_inv (snd (heap_Pop h))"
    and "heap_items h = add_mset (core (h ! 0)) (heap_items (snd (heap_Pop h)))"
    and "length (snd (heap_Pop h)) = n"
proof -
  note f = pop_list_facts [OF inv n]
  have pne: "pop_list h \<noteq> []" using f(1) by auto
  then have last: "last (pop_list h) = pop_list h ! n" using f(1) by (simp add: last_conv_nth)
  show "core (fst (heap_Pop h)) = core (h ! 0)" by (simp add: heap_Pop_alt last f(4))
  show "length (snd (heap_Pop h)) = n" by (simp add: heap_Pop_alt f(1))
  have "map core (pop_list h) = map core (butlast (pop_list h)) @ [core (last (pop_list h))]"
    using pne by (metis append_butlast_last_id list.simps(8,9) map_append)
  then have "heap_items (pop_list h) = add_mset (core (last (pop_list h))) (heap_items (butlast (pop_list h)))"
    unfolding heap_items_def by (simp del: mset_map)
  then show "heap_items h = add_mset (core (h ! 0)) (heap_items (snd (heap_Pop h)))"
    by (simp add: heap_Pop_alt last f(2,4))
  have "priority (butlast (pop_list h) ! parent k) \<le> priority (butlast (pop_list h) ! k)"
    if "0 < k" "k < n" for k
    using f(1) f(5) [OF that] that parent_less [OF that(1)] by (simp add: nth_butlast)
  then show "heap_inv (snd (heap_Pop h))"
    using f(1,3) by (auto simp: heap_inv_def heap_ok_def index_ok_def heap_Pop_alt nth_butlast)
qed

section \<open>The interface of a store of timed items\<close>

text \<open>
  What the queue relies on: the items are a multiset of keys with a due time, \<open>peek\<close> and
  \<open>pop\<close> show an item that is due first, and both changes keep the invariant.
\<close>

locale timed_store =
  fixes push :: "'q \<Rightarrow> 'a \<Rightarrow> 'q" and pop :: "'q \<Rightarrow> 'a \<times> 'q" and peek :: "'q \<Rightarrow> 'a option"
    and contents :: "'q \<Rightarrow> 'k multiset" and key :: "'a \<Rightarrow> 'k" and due :: "'k \<Rightarrow> int"
    and invar :: "'q \<Rightarrow> bool"
  assumes contents_push: "contents (push q x) = add_mset (key x) (contents q)"
    and contents_pop: "invar q \<Longrightarrow> peek q \<noteq> None \<Longrightarrow>
      contents q = add_mset (key (fst (pop q))) (contents (snd (pop q)))"
    and pop_peek: "invar q \<Longrightarrow> peek q = Some x \<Longrightarrow> key (fst (pop q)) = key x"
    and peek_min: "invar q \<Longrightarrow> peek q = Some x \<Longrightarrow> k \<in># contents q \<Longrightarrow> due (key x) \<le> due k"
    and peek_None: "peek q = None \<longleftrightarrow> contents q = {#}"
    and invar_push: "invar q \<Longrightarrow> invar (push q x)"
    and invar_pop: "invar q \<Longrightarrow> peek q \<noteq> None \<Longrightarrow> invar (snd (pop q))"
begin

lemma nothing_due:
  "invar q \<Longrightarrow> peek q = Some x \<Longrightarrow> now < due (key x) \<Longrightarrow> k \<in># contents q \<Longrightarrow> now < due k"
  using peek_min by fastforce

lemma pop_min:
  assumes "invar q" "peek q = Some x" "k \<in># contents (snd (pop q))"
  shows "due (key (fst (pop q))) \<le> due k"
proof -
  have "k \<in># contents q" using contents_pop [of q] assms by auto
  then show ?thesis using peek_min pop_peek assms by metis
qed

lemma push_back:
  "invar q \<Longrightarrow> peek q \<noteq> None \<Longrightarrow> contents (push (snd (pop q)) (fst (pop q))) = contents q"
  using contents_pop [of q] by (simp add: contents_push)

lemma size_pop: "invar q \<Longrightarrow> peek q \<noteq> None \<Longrightarrow> size (contents q) = Suc (size (contents (snd (pop q))))"
  using contents_pop [of q] by (metis size_add_mset)

end

lemma rh_peek_eq: "rh_peek h = (if h = [] then None else Some (h ! 0))"
  by (cases h) (auto simp: rh_peek_def)

lemma heap_items_empty [simp]: "heap_items h = {#} \<longleftrightarrow> h = []"
  by (simp add: heap_items_def)

lemma heap_items_nth: "k \<in># heap_items h \<Longrightarrow> \<exists>i < length h. core (h ! i) = k"
  by (auto simp: heap_items_def in_set_conv_nth)

interpretation retry: timed_store heap_Push heap_Pop rh_peek heap_items core snd heap_inv
proof (unfold_locales, goal_cases)
  case (1 q x)
  then show ?case by (rule heap_Push_items)
next
  case (2 q)
  then obtain n where "length q = Suc n" by (cases q) (auto simp: rh_peek_def)
  then show ?case using heap_Pop_spec [OF 2(1)] by metis
next
  case (3 q x)
  then obtain n where "length q = Suc n" by (cases q) (auto simp: rh_peek_def)
  then show ?case using heap_Pop_spec(1) [OF 3(1)] 3 by (simp add: rh_peek_eq split: if_splits)
next
  case (4 q x k)
  then show ?case using heap_items_nth [OF 4(3)] heap_top_min [of q]
    by (auto simp: rh_peek_eq heap_inv_def priority_core split: if_splits)
next
  case (5 q)
  then show ?case by (simp add: rh_peek_eq)
next
  case (6 q x)
  then show ?case by (rule heap_Push_inv)
next
  case (7 q)
  then obtain n where "length q = Suc n" by (cases q) (auto simp: rh_peek_def)
  then show ?case using heap_Pop_spec(2) [OF 7(1)] by metis
qed

end
