(* ===== verification/GoErrors.thy ===== *)
theory GoErrors
  imports Prelude
begin

text \<open>
  Go error values as the server builds and inspects them: the SMTP errors of
  \<open>pkg/smtp/error.go\<close>, the controlled-stop errors of \<open>internal/errors/errors.go\<close>, the
  context, queue, DNS and network errors of the libraries, and wrapping with the verb \<open>%w\<close>.
  Then \<open>errors.Is\<close> and \<open>errors.As\<close> over the chain of wrapped errors.
\<close>

section \<open>Error values\<close>

datatype go_error =
    SmtpError (se_code: int) (se_enh: string) (se_msg: string)
  | TextError string
  | Canceled
  | DeadlineExceeded
  | ErrQueueClosed
  | DNSError (dns_text: string) (IsNotFound: bool) (IsTimeout: bool) (IsTemporary: bool)
  | OpError string go_error bool
  | ControlledStopError go_error
  | Wrapped string go_error string

text \<open>
  \<open>Wrapped pre e post\<close> is \<open>fmt.Errorf\<close> of \<open>pre\<close>, \<open>%w\<close> and \<open>post\<close>;
  \<open>OpError pre e t\<close> is a \<open>net.OpError\<close> with the operation and addresses \<open>pre\<close>, the
  error \<open>e\<close> it wraps and the answer \<open>t\<close> of its method \<open>Timeout\<close>.
\<close>

text \<open>\<open>NewError\<close> and \<open>(*smtpError).Error\<close> of \<open>pkg/smtp/error.go\<close>.\<close>

definition NewError :: "int \<Rightarrow> string \<Rightarrow> string \<Rightarrow> go_error" where
  "NewError code enhCode msg = SmtpError code enhCode msg"

definition smtpError_Error :: "int \<Rightarrow> string \<Rightarrow> string \<Rightarrow> string" where
  "smtpError_Error code enhCode msg =
     (if enhCode \<noteq> [] then Itoa code @ '' '' @ enhCode @ '' '' @ msg
      else Itoa code @ '' '' @ msg)"

text \<open>The method \<open>Error\<close> of every error value.\<close>

fun err_Error :: "go_error \<Rightarrow> string" where
  "err_Error (SmtpError code enh msg) = smtpError_Error code enh msg"
| "err_Error (TextError t) = t"
| "err_Error Canceled = ''context canceled''"
| "err_Error DeadlineExceeded = ''context deadline exceeded''"
| "err_Error ErrQueueClosed = ''queue is closed''"
| "err_Error (DNSError t _ _ _) = t"
| "err_Error (OpError pre e _) = pre @ '': '' @ err_Error e"
| "err_Error (ControlledStopError e) = err_Error e"
| "err_Error (Wrapped pre e post) = pre @ err_Error e @ post"

text \<open>\<open>Code\<close>, \<open>Message\<close> and \<open>EnhCode\<close> of the interface \<open>smtp.Error\<close>.\<close>

definition smtp_Code :: "go_error \<Rightarrow> int" where
  "smtp_Code e = se_code e"

definition smtp_Message :: "go_error \<Rightarrow> string" where
  "smtp_Message e = err_Error e"

definition smtp_EnhCode :: "go_error \<Rightarrow> string" where
  "smtp_EnhCode e = se_enh e"

section \<open>Chains of wrapped errors\<close>

text \<open>The method \<open>Unwrap\<close>, and the chain \<open>errors.Is\<close> and \<open>errors.As\<close> walk.\<close>

fun Unwrap :: "go_error \<Rightarrow> go_error option" where
  "Unwrap (OpError _ e _) = Some e"
| "Unwrap (ControlledStopError e) = Some e"
| "Unwrap (Wrapped _ e _) = Some e"
| "Unwrap _ = None"

fun err_chain :: "go_error \<Rightarrow> go_error list" where
  "err_chain (OpError pre e t) = OpError pre e t # err_chain e"
| "err_chain (ControlledStopError e) = ControlledStopError e # err_chain e"
| "err_chain (Wrapped pre e post) = Wrapped pre e post # err_chain e"
| "err_chain e = [e]"

definition errors_Is :: "go_error \<Rightarrow> go_error \<Rightarrow> bool" where
  "errors_Is e target \<longleftrightarrow> target \<in> set (err_chain e)"

definition errors_As :: "(go_error \<Rightarrow> bool) \<Rightarrow> go_error \<Rightarrow> go_error option" where
  "errors_As is_type e = List.find is_type (err_chain e)"

text \<open>The type tests are the discriminators of the datatype, \<open>is_SmtpError\<close> and so on.\<close>

section \<open>Package internal/errors\<close>

text \<open>A Go error that may be nil is an option.\<close>

definition IsControlledStop :: "go_error option \<Rightarrow> bool" where
  "IsControlledStop err = (case err of None \<Rightarrow> False | Some e \<Rightarrow>
     if errors_As is_ControlledStopError e \<noteq> None then True
     else errors_Is e Canceled \<or> errors_Is e DeadlineExceeded)"

definition NewControlledStop :: "go_error option \<Rightarrow> go_error option" where
  "NewControlledStop err = map_option ControlledStopError err"

text \<open>
  \<open>IsQueueClosed\<close> recurses into the error under the first \<open>ControlledStopError\<close> of the
  chain; the recursion is over the structure of the error.
\<close>

fun IsQueueClosed_err :: "go_error \<Rightarrow> bool" where
  "IsQueueClosed_err (ControlledStopError e) = IsQueueClosed_err e"
| "IsQueueClosed_err (OpError pre e t) =
     (if errors_As is_ControlledStopError e \<noteq> None then IsQueueClosed_err e else errors_Is e Canceled)"
| "IsQueueClosed_err (Wrapped pre e post) =
     (if errors_As is_ControlledStopError e \<noteq> None then IsQueueClosed_err e else errors_Is e Canceled)"
| "IsQueueClosed_err e = errors_Is e Canceled"

definition IsQueueClosed :: "go_error option \<Rightarrow> bool" where
  "IsQueueClosed err = (case err of None \<Rightarrow> False | Some e \<Rightarrow> IsQueueClosed_err e)"

lemma err_chain_self [simp]: "e \<in> set (err_chain e)"
  by (cases e) auto

lemma errors_Is_refl [simp]: "errors_Is e e"
  by (simp add: errors_Is_def)

lemma errors_Is_Wrapped [simp]:
  "errors_Is (Wrapped pre e post) t \<longleftrightarrow> t = Wrapped pre e post \<or> errors_Is e t"
  by (auto simp: errors_Is_def)

lemma errors_As_direct: "P e \<Longrightarrow> errors_As P e = Some e"
  by (cases e) (auto simp: errors_As_def)

lemma errors_As_Wrapped [simp]:
  "\<not> P (Wrapped pre e post) \<Longrightarrow> errors_As P (Wrapped pre e post) = errors_As P e"
  by (simp add: errors_As_def)

lemma errors_As_Some: "errors_As P e = Some e' \<Longrightarrow> P e' \<and> e' \<in> set (err_chain e)"
  unfolding errors_As_def by (metis find_Some_iff nth_mem)

text \<open>
  The Go code of \<open>IsQueueClosed\<close> agrees with the structural recursion above: with a
  controlled stop on the chain it recurses under it, without one it looks for
  \<open>context.Canceled\<close>.
\<close>

lemma IsQueueClosed_err_eq:
  "IsQueueClosed_err e =
     (case errors_As is_ControlledStopError e of
        Some (ControlledStopError e') \<Rightarrow> IsQueueClosed_err e'
      | _ \<Rightarrow> errors_Is e Canceled)"
proof (induction e)
  case (OpError pre e t)
  then show ?case
    by (auto simp: errors_As_def errors_Is_def
        split: option.splits go_error.splits)
next
  case (Wrapped pre e post)
  then show ?case
    by (auto simp: errors_As_def errors_Is_def
        split: option.splits go_error.splits)
qed (auto simp: errors_As_def)

text \<open>An SMTP error's text starts with its code and a blank.\<close>

lemma smtp_Message_code_prefix:
  "is_SmtpError e \<Longrightarrow> HasPrefix (smtp_Message e) (Itoa (smtp_Code e) @ '' '')"
proof -
  assume "is_SmtpError e"
  then obtain c h m where e: "e = SmtpError c h m"
    by (cases e) auto
  have "\<exists>t. smtpError_Error c h m = (Itoa c @ '' '') @ t"
    by (auto simp: smtpError_Error_def)
  then obtain t where "smtp_Message e = (Itoa (smtp_Code e) @ '' '') @ t"
    by (auto simp: e smtp_Message_def smtp_Code_def)
  then show ?thesis by (simp only: HasPrefix_append)
qed

end
