(* ===== verification/MailQueue.thy ===== *)
theory MailQueue
  imports RetryHeap GoErrors
begin

text \<open>
  The message queue of \<open>internal/queue/queue.go\<close>: a bounded channel of ready messages and
  a heap of messages waiting for their next attempt. A \<open>select\<close> with several ready cases
  takes any of them, so the operations that block return the list of their possible
  outcomes; the empty list means that the call blocks in this state. The two gauges of
  package metrics that the queue maintains are part of the state.
\<close>

section \<open>State\<close>

record Queue =
  readyChan :: "Message list"
  readyCap :: nat
  readyClosed :: bool
  retryItems :: retryHeap
  retrySignal :: bool
  stopped :: bool
  closed :: bool
  QueueSizeReady :: int
  QueueSizeRetry :: int

text \<open>
  \<open>retrySignal\<close> is the channel of capacity one: whether it holds a signal. \<open>stopped\<close> says
  that \<open>stopChan\<close> is closed, \<open>readyClosed\<close> that \<open>readyChan\<close> is.
\<close>

definition NewQueue :: "int \<Rightarrow> Queue" where
  "NewQueue bufferSize =
     \<lparr>readyChan = [], readyCap = nat (if bufferSize \<le> 0 then 100 else bufferSize), readyClosed = False,
      retryItems = heap_Init [], retrySignal = False, stopped = False, closed = False,
      QueueSizeReady = 0, QueueSizeRetry = 0\<rparr>"

datatype send_result = SendOk | SendErr go_error | SendPanic
datatype deq_result = DeqMsg Message | DeqErr go_error

section \<open>Enqueue\<close>

text \<open>
  Under the mutex, then, with the mutex released, the \<open>select\<close>. Other goroutines may run in
  between. A send on a closed channel is always ready and panics.
\<close>

definition Enqueue_check :: "time \<Rightarrow> Message \<Rightarrow> Queue \<Rightarrow> go_error + Message" where
  "Enqueue_check now m q =
     (if closed q then Inl ErrQueueClosed
      else Inr (if IsZero (NextAttemptAt m) then m\<lparr>NextAttemptAt := now\<rparr> else m))"

definition Enqueue_select :: "go_error option \<Rightarrow> Message \<Rightarrow> Queue \<Rightarrow> (send_result \<times> Queue) list" where
  "Enqueue_select ctxErr m q =
     (if readyClosed q then [(SendPanic, q)]
      else if length (readyChan q) < readyCap q
      then [(SendOk, q\<lparr>readyChan := readyChan q @ [m], QueueSizeReady := QueueSizeReady q + 1\<rparr>)]
      else []) @
     (case ctxErr of None \<Rightarrow> [] | Some e \<Rightarrow> [(SendErr e, q)]) @
     (if stopped q then [(SendErr ErrQueueClosed, q)] else [])"

definition Enqueue :: "time \<Rightarrow> go_error option \<Rightarrow> Message \<Rightarrow> Queue \<Rightarrow> (send_result \<times> Queue) list" where
  "Enqueue now ctxErr m q =
     (case Enqueue_check now m q of
        Inl e \<Rightarrow> [(SendErr e, q)]
      | Inr m' \<Rightarrow> Enqueue_select ctxErr m' q)"

section \<open>Requeue\<close>

text \<open>
  The mutex is held to the end, over the \<open>select\<close> too. The two readings of the clock are the
  arguments \<open>now\<close> and \<open>now'\<close>.
\<close>

definition Requeue_msg :: "time \<Rightarrow> time \<Rightarrow> Message \<Rightarrow> Message" where
  "Requeue_msg now now' m =
     (if IsZero (NextAttemptAt m) \<or> NextAttemptAt m < now
      then m\<lparr>NextAttemptAt := now' + 5 * second\<rparr> else m)"

definition Requeue_push :: "time \<Rightarrow> time \<Rightarrow> Message \<Rightarrow> Queue \<Rightarrow> go_error + Queue" where
  "Requeue_push now now' m q =
     (if closed q then Inl ErrQueueClosed
      else (let m' = Requeue_msg now now' m in
        Inr (q\<lparr>retryItems := heap_Push (retryItems q) \<lparr>msg = m', priority = NextAttemptAt m', index = 0\<rparr>,
               QueueSizeRetry := QueueSizeRetry q + 1\<rparr>)))"

definition Requeue_select :: "go_error option \<Rightarrow> Queue \<Rightarrow> (send_result \<times> Queue) list" where
  "Requeue_select ctxErr q =
     (if \<not> retrySignal q then [(SendOk, q\<lparr>retrySignal := True\<rparr>)] else []) @
     (case ctxErr of None \<Rightarrow> [] | Some e \<Rightarrow> [(SendErr e, q)]) @
     (if stopped q then [(SendErr ErrQueueClosed, q)] else [])"

definition Requeue ::
  "time \<Rightarrow> time \<Rightarrow> go_error option \<Rightarrow> Message \<Rightarrow> Queue \<Rightarrow> (send_result \<times> Queue) list" where
  "Requeue now now' ctxErr m q =
     (case Requeue_push now now' m q of
        Inl e \<Rightarrow> [(SendErr e, q)]
      | Inr q' \<Rightarrow> Requeue_select ctxErr q')"

section \<open>Dequeue\<close>

definition Dequeue :: "go_error option \<Rightarrow> Queue \<Rightarrow> (deq_result \<times> Queue) list" where
  "Dequeue ctxErr q =
     (case readyChan q of
        m # ms \<Rightarrow> [(DeqMsg m, q\<lparr>readyChan := ms, QueueSizeReady := QueueSizeReady q - 1\<rparr>)]
      | [] \<Rightarrow> if readyClosed q then [(DeqErr ErrQueueClosed, q)] else []) @
     (case ctxErr of None \<Rightarrow> [] | Some e \<Rightarrow> [(DeqErr e, q)]) @
     (if stopped q then [(DeqErr ErrQueueClosed, q)] else [])"

section \<open>The retry scheduler\<close>

definition getNextRetryDelay :: "time \<Rightarrow> Queue \<Rightarrow> duration \<times> Queue" where
  "getNextRetryDelay now q =
     (case retryItems q of
        [] \<Rightarrow> hour
      | nextItem # _ \<Rightarrow> if now < priority nextItem then time_Sub (priority nextItem) now else 0,
      q\<lparr>QueueSizeRetry := int (length (retryItems q))\<rparr>)"

lemma length_pop_list: "length (pop_list h) = length h"
  unfolding pop_list_def using heap_down_items [of "length h - 1" "rh_Swap h 0 (length h - 1)" 0]
  by simp

lemma length_heap_Pop [simp]: "length (snd (heap_Pop h)) = length h - 1"
  by (simp add: heap_Pop_alt length_pop_list)

text \<open>
  The loop of \<open>promoteReadyMessages\<close>. Where both the send and the stop signal are ready, the
  next element of \<open>choices\<close> says whether the stop signal is taken (none left: it is not).
\<close>

function promoteReadyMessages :: "time \<Rightarrow> bool list \<Rightarrow> Queue \<Rightarrow> Queue" where
  "promoteReadyMessages now choices q =
     (case retryItems q of
        [] \<Rightarrow> q
      | first # _ \<Rightarrow>
          if now < priority first then q
          else
            (let (item, h) = heap_Pop (retryItems q);
                 q1 = q\<lparr>retryItems := h, QueueSizeRetry := QueueSizeRetry q - 1\<rparr>;
                 room = length (readyChan q) < readyCap q;
                 takeStop = stopped q \<and> (\<not> room \<or> (choices \<noteq> [] \<and> hd choices))
             in if room \<and> \<not> takeStop
                then promoteReadyMessages now (tl choices) (q1\<lparr>readyChan := readyChan q @ [msg item]\<rparr>)
                else if takeStop then q1\<lparr>retryItems := heap_Push h item\<rparr>
                else q1\<lparr>retryItems := heap_Push h item, retrySignal := True\<rparr>))"
  by pat_completeness auto

termination
proof (relation "measure (\<lambda>(now, choices, q). length (retryItems q))", goal_cases)
  case (2 now choices q first rest x item h q1 room takeStop)
  then have "length h = length (retryItems q) - 1" by (metis length_heap_Pop snd_conv)
  then show ?case using 2 by simp
qed simp

declare promoteReadyMessages.simps [simp del]

section \<open>Close and the lengths\<close>

text \<open>
  \<open>Close\<close> marks the queue closed and closes \<open>stopChan\<close>; once the scheduler has stopped, it
  closes the ready channel and drops the heap.
\<close>

definition Close_begin :: "Queue \<Rightarrow> Queue" where
  "Close_begin q = (if closed q then q else q\<lparr>closed := True, stopped := True\<rparr>)"

definition Close_finish :: "Queue \<Rightarrow> Queue" where
  "Close_finish q = q\<lparr>readyClosed := True, retryItems := []\<rparr>"

definition Close :: "Queue \<Rightarrow> Queue" where
  "Close q = (if closed q then q else Close_finish (Close_begin q))"

definition Len :: "Queue \<Rightarrow> nat" where
  "Len q = length (retryItems q)"

definition ReadyLen :: "Queue \<Rightarrow> nat" where
  "ReadyLen q = length (readyChan q)"

section \<open>Invariant\<close>

definition queue_inv :: "Queue \<Rightarrow> bool" where
  "queue_inv q \<longleftrightarrow> heap_inv (retryItems q) \<and> 0 < readyCap q \<and> length (readyChan q) \<le> readyCap q \<and>
     (closed q \<longleftrightarrow> stopped q) \<and> (readyClosed q \<longrightarrow> closed q)"

text \<open>The messages a queue holds, ready or waiting.\<close>

definition held :: "Queue \<Rightarrow> Message multiset" where
  "held q = mset (readyChan q) + image_mset fst (heap_items (retryItems q))"

lemma held_push:
  "held (q\<lparr>retryItems := heap_Push (retryItems q) x, QueueSizeRetry := n\<rparr>) = add_mset (msg x) (held q)"
  by (simp add: held_def heap_Push_items core_def)

lemma NewQueue_inv: "queue_inv (NewQueue n)"
  by (simp add: queue_inv_def NewQueue_def)

lemma Enqueue_inv: "queue_inv q \<Longrightarrow> (r, q') \<in> set (Enqueue now c m q) \<Longrightarrow> queue_inv q'"
  by (auto simp: queue_inv_def Enqueue_def Enqueue_check_def Enqueue_select_def
      split: if_splits option.splits)

lemma Requeue_inv: "queue_inv q \<Longrightarrow> (r, q') \<in> set (Requeue now now' c m q) \<Longrightarrow> queue_inv q'"
  by (auto simp: queue_inv_def Requeue_def Requeue_push_def Requeue_select_def Let_def
      intro: heap_Push_inv split: if_splits option.splits)

lemma Dequeue_inv: "queue_inv q \<Longrightarrow> (r, q') \<in> set (Dequeue c q) \<Longrightarrow> queue_inv q'"
  by (cases "readyChan q") (auto simp: queue_inv_def Dequeue_def split: if_splits option.splits)

lemma getNextRetryDelay_inv: "queue_inv q \<Longrightarrow> queue_inv (snd (getNextRetryDelay now q))"
  by (auto simp: queue_inv_def getNextRetryDelay_def)

lemma Close_begin_inv: "queue_inv q \<Longrightarrow> queue_inv (Close_begin q)"
  by (simp add: queue_inv_def Close_begin_def)

lemma Close_finish_inv: "queue_inv q \<Longrightarrow> closed q \<Longrightarrow> queue_inv (Close_finish q)"
  by (simp add: queue_inv_def Close_finish_def)

lemma Close_inv: "queue_inv q \<Longrightarrow> queue_inv (Close q)"
  by (simp add: queue_inv_def Close_def Close_begin_def Close_finish_def)

section \<open>What promotion does\<close>

text \<open>The four ways an iteration of the loop goes.\<close>

definition due_now :: "time \<Rightarrow> Queue \<Rightarrow> bool" where
  "due_now now q \<longleftrightarrow> (case retryItems q of [] \<Rightarrow> False | x # _ \<Rightarrow> \<not> now < priority x)"

definition can_send :: "bool list \<Rightarrow> Queue \<Rightarrow> bool" where
  "can_send choices q \<longleftrightarrow> length (readyChan q) < readyCap q \<and>
     \<not> (stopped q \<and> choices \<noteq> [] \<and> hd choices)"

definition sent_one :: "Queue \<Rightarrow> Queue" where
  "sent_one q = q\<lparr>retryItems := snd (heap_Pop (retryItems q)), QueueSizeRetry := QueueSizeRetry q - 1,
     readyChan := readyChan q @ [msg (fst (heap_Pop (retryItems q)))]\<rparr>"

definition put_back :: "Queue \<Rightarrow> Queue" where
  "put_back q = q\<lparr>retryItems := heap_Push (snd (heap_Pop (retryItems q))) (fst (heap_Pop (retryItems q))),
     QueueSizeRetry := QueueSizeRetry q - 1\<rparr>"

lemma promote_step:
  "\<not> due_now now q \<Longrightarrow> promoteReadyMessages now choices q = q"
  "due_now now q \<Longrightarrow> can_send choices q \<Longrightarrow>
     promoteReadyMessages now choices q = promoteReadyMessages now (tl choices) (sent_one q)"
  "due_now now q \<Longrightarrow> \<not> can_send choices q \<Longrightarrow> stopped q \<Longrightarrow>
     promoteReadyMessages now choices q = put_back q"
  "due_now now q \<Longrightarrow> \<not> can_send choices q \<Longrightarrow> \<not> stopped q \<Longrightarrow>
     promoteReadyMessages now choices q = (put_back q)\<lparr>retrySignal := True\<rparr>"
  by (subst promoteReadyMessages.simps,
      auto simp: due_now_def can_send_def sent_one_def put_back_def Let_def case_prod_beta
        split: list.splits)+

lemma due_now_peek: "due_now now q \<Longrightarrow> \<exists>x. rh_peek (retryItems q) = Some x \<and> priority x \<le> now"
  by (auto simp: due_now_def rh_peek_def split: list.splits)

lemma not_due_all:
  assumes "queue_inv q" "\<not> due_now now q" "k \<in># heap_items (retryItems q)"
  shows "now < snd k"
proof -
  have inv: "heap_inv (retryItems q)" using assms(1) by (simp add: queue_inv_def)
  obtain x where x: "rh_peek (retryItems q) = Some x"
    using assms(3) by (cases "retryItems q") (auto simp: rh_peek_def heap_items_def)
  then have "now < snd (core x)"
    using assms(2) by (auto simp: due_now_def rh_peek_def core_def split: list.splits)
  then show ?thesis using retry.nothing_due [OF inv x] assms(3) by blast
qed

lemma sent_one_facts:
  assumes inv: "queue_inv q" and due: "due_now now q" and can: "can_send choices q"
  shows "queue_inv (sent_one q)"
    and "\<exists>k. readyChan (sent_one q) = readyChan q @ [fst k] \<and> snd k \<le> now \<and>
          heap_items (retryItems q) = add_mset k (heap_items (retryItems (sent_one q))) \<and>
          (\<forall>k' \<in># heap_items (retryItems (sent_one q)). snd k \<le> snd k')"
proof -
  have h: "heap_inv (retryItems q)" using inv by (simp add: queue_inv_def)
  obtain x where x: "rh_peek (retryItems q) = Some x" "priority x \<le> now" using due_now_peek [OF due] by blast
  let ?k = "core (fst (heap_Pop (retryItems q)))"
  have "heap_inv (snd (heap_Pop (retryItems q)))" using retry.invar_pop [OF h] x by simp
  then show "queue_inv (sent_one q)" using inv can by (auto simp: queue_inv_def sent_one_def can_send_def)
  have "snd ?k \<le> now" using retry.pop_peek [OF h x(1)] x(2) by (simp add: priority_core)
  moreover have "msg (fst (heap_Pop (retryItems q))) = fst ?k" by (simp add: core_def)
  moreover have "heap_items (retryItems q) = add_mset ?k (heap_items (retryItems (sent_one q)))"
    using retry.contents_pop [OF h] x by (simp add: sent_one_def)
  moreover have "\<forall>k' \<in># heap_items (retryItems (sent_one q)). snd ?k \<le> snd k'"
    using retry.pop_min [OF h x(1)] by (simp add: sent_one_def)
  ultimately show "\<exists>k. readyChan (sent_one q) = readyChan q @ [fst k] \<and> snd k \<le> now \<and>
      heap_items (retryItems q) = add_mset k (heap_items (retryItems (sent_one q))) \<and>
      (\<forall>k' \<in># heap_items (retryItems (sent_one q)). snd k \<le> snd k')"
    by (intro exI [of _ ?k]) (simp add: sent_one_def)
qed

lemma put_back_facts:
  assumes inv: "queue_inv q" and due: "due_now now q"
  shows "queue_inv (put_back q)" and "heap_items (retryItems (put_back q)) = heap_items (retryItems q)"
    and "readyChan (put_back q) = readyChan q"
proof -
  have h: "heap_inv (retryItems q)" using inv by (simp add: queue_inv_def)
  have x: "rh_peek (retryItems q) \<noteq> None" using due_now_peek [OF due] by auto
  show "queue_inv (put_back q)"
    using inv retry.invar_push [OF retry.invar_pop [OF h x]] by (auto simp: queue_inv_def put_back_def)
  show "heap_items (retryItems (put_back q)) = heap_items (retryItems q)"
    using retry.push_back [OF h x] by (simp add: put_back_def)
qed (simp add: put_back_def)

text \<open>
  The promoted items, in order: they were due, they come out in the order of their times, and
  nothing that stays behind should have gone before them.
\<close>

definition promoted :: "time \<Rightarrow> Queue \<Rightarrow> Queue \<Rightarrow> (Message \<times> time) list \<Rightarrow> bool" where
  "promoted now q q' ks \<longleftrightarrow>
     readyChan q' = readyChan q @ map fst ks \<and>
     heap_items (retryItems q) = mset ks + heap_items (retryItems q') \<and>
     sorted (map snd ks) \<and> (\<forall>k \<in> set ks. snd k \<le> now) \<and>
     (\<forall>k \<in> set ks. \<forall>k' \<in># heap_items (retryItems q'). snd k \<le> snd k')"

lemma promoted_Cons:
  assumes "readyChan q1 = readyChan q @ [fst k]" "snd k \<le> now"
    and "heap_items (retryItems q) = add_mset k (heap_items (retryItems q1))"
    and "\<forall>k' \<in># heap_items (retryItems q1). snd k \<le> snd k'" and "promoted now q1 q' ks"
  shows "promoted now q q' (k # ks)"
  using assms by (auto simp: promoted_def)

lemma promote_spec:
  "queue_inv q \<Longrightarrow>
     queue_inv (promoteReadyMessages now choices q) \<and>
     (\<exists>ks. promoted now q (promoteReadyMessages now choices q) ks) \<and>
     (stopped q \<or> length (readyChan (promoteReadyMessages now choices q)) = readyCap q \<or>
       (\<forall>k \<in># heap_items (retryItems (promoteReadyMessages now choices q)). now < snd k))"
proof (induction "length (retryItems q)" arbitrary: q choices rule: less_induct)
  case less
  let ?p = "promoteReadyMessages now choices q"
  have none: "promoted now q q' []"
    if "readyChan q' = readyChan q" "heap_items (retryItems q') = heap_items (retryItems q)" for q'
    using that by (simp add: promoted_def)
  consider (idle) "\<not> due_now now q" | (sends) "due_now now q" "can_send choices q"
    | (keeps) "due_now now q" "\<not> can_send choices q" by blast
  then show ?case
  proof cases
    case idle
    then show ?thesis using less.prems none [of q] not_due_all [OF less.prems idle]
      by (auto simp: promote_step(1) [OF idle])
  next
    case keeps
    note f = put_back_facts [OF less.prems keeps(1)]
    have "stopped q \<or> length (readyChan q) = readyCap q"
      using keeps(2) less.prems by (auto simp: can_send_def queue_inv_def)
    then show ?thesis
      using f none [of "put_back q"] none [of "(put_back q)\<lparr>retrySignal := True\<rparr>"]
      by (cases "stopped q") (auto simp: promote_step(3,4) [OF keeps] queue_inv_def)
  next
    case sends
    note f = sent_one_facts [OF less.prems sends]
    then obtain k where k: "readyChan (sent_one q) = readyChan q @ [fst k]" "snd k \<le> now"
      "heap_items (retryItems q) = add_mset k (heap_items (retryItems (sent_one q)))"
      "\<forall>k' \<in># heap_items (retryItems (sent_one q)). snd k \<le> snd k'" by blast
    have "retryItems q \<noteq> []" using sends(1) by (auto simp: due_now_def)
    then have "length (retryItems (sent_one q)) < length (retryItems q)"
      by (simp add: sent_one_def)
    from less.hyps [OF this f(1), of "tl choices"] obtain ks where
      "promoted now (sent_one q) (promoteReadyMessages now (tl choices) (sent_one q)) ks" by blast
    then have "promoted now q ?p (k # ks)"
      using promoted_Cons [OF k] by (simp add: promote_step(2) [OF sends])
    then show ?thesis
      using less.hyps [OF \<open>length (retryItems (sent_one q)) < length (retryItems q)\<close> f(1), of "tl choices"]
      by (auto simp: promote_step(2) [OF sends] sent_one_def)
  qed
qed

lemma promoted_held: "promoted now q q' ks \<Longrightarrow> held q' = held q"
  by (simp add: promoted_def held_def image_mset_union)

section \<open>Runs of the queue\<close>

text \<open>
  The queue under any interleaving of its operations. A step is one operation, or the part of
  one that the mutex makes atomic, with one of its outcomes; it is labelled with the message
  it added or removed. \<open>Close\<close> is two steps, since the mutex is released while it waits for the
  scheduler: \<open>Closing\<close> sets the flag and closes \<open>stopChan\<close> (a second caller only sees the flag),
  \<open>Closed\<close>, once and after it, closes the ready channel and drops the heap. A promotion is one
  step: the mutex keeps \<open>Requeue\<close>, the delay and \<open>Close\<close> out of it, and an \<open>Enqueue\<close> or \<open>Dequeue\<close>
  that falls between two of its sends is taken before or after it here.
\<close>

datatype q_event = Added Message | Removed Message | Internal | Closing | Closed

inductive q_step :: "Queue \<Rightarrow> q_event \<Rightarrow> Queue \<Rightarrow> bool" where
  enqueue_ok: "Enqueue_check now m q0 = Inr m' \<Longrightarrow> (SendOk, q') \<in> set (Enqueue_select c m' q) \<Longrightarrow>
     q_step q (Added m') q'"
| enqueue_closed: "Enqueue_check now m q = Inl e \<Longrightarrow> q_step q Internal q"
| enqueue_err: "(SendErr e, q') \<in> set (Enqueue_select c m' q) \<Longrightarrow> q_step q Internal q'"
| requeue: "Requeue_push now now' m q = Inr q1 \<Longrightarrow> (r, q') \<in> set (Requeue_select c q1) \<Longrightarrow>
     q_step q (Added (Requeue_msg now now' m)) q'"
| requeue_closed: "Requeue_push now now' m q = Inl e \<Longrightarrow> q_step q Internal q"
| dequeue: "(DeqMsg m, q') \<in> set (Dequeue c q) \<Longrightarrow> q_step q (Removed m) q'"
| dequeue_err: "(DeqErr e, q') \<in> set (Dequeue c q) \<Longrightarrow> q_step q Internal q'"
| delay: "q_step q Internal (snd (getNextRetryDelay now q))"
| signal: "retrySignal q \<Longrightarrow> q_step q Internal (q\<lparr>retrySignal := False\<rparr>)"
| tick: "q_step q Internal (q\<lparr>QueueSizeReady := int (length (readyChan q))\<rparr>)"
| promote: "q_step q Internal (promoteReadyMessages now choices q)"
| close_begin: "q_step q Closing (Close_begin q)"
| close_finish: "closed q \<Longrightarrow> \<not> readyClosed q \<Longrightarrow> q_step q Closed (Close_finish q)"

inductive q_run :: "Queue \<Rightarrow> q_event list \<Rightarrow> Queue \<Rightarrow> bool" where
  run_nil: "q_run q [] q"
| run_snoc: "q_run q es q1 \<Longrightarrow> q_step q1 e q2 \<Longrightarrow> q_run q (es @ [e]) q2"

inductive_cases q_stepE: "q_step q e q'"

fun added :: "q_event list \<Rightarrow> Message list" where
  "added [] = []"
| "added (Added m # es) = m # added es"
| "added (_ # es) = added es"

fun removed :: "q_event list \<Rightarrow> Message list" where
  "removed [] = []"
| "removed (Removed m # es) = m # removed es"
| "removed (_ # es) = removed es"

lemma added_append [simp]: "added (xs @ ys) = added xs @ added ys"
  by (induction xs rule: added.induct) auto

lemma removed_append [simp]: "removed (xs @ ys) = removed xs @ removed ys"
  by (induction xs rule: removed.induct) auto

lemma Enqueue_select_frame:
  "(r, q') \<in> set (Enqueue_select c m q) \<Longrightarrow> queue_inv q \<Longrightarrow> queue_inv q' \<and>
     held q' = (if r = SendOk then add_mset m (held q) else held q)"
  by (auto simp: Enqueue_select_def queue_inv_def held_def split: if_splits option.splits)

lemma Dequeue_frame:
  "(r, q') \<in> set (Dequeue c q) \<Longrightarrow>
     held q = (case r of DeqMsg m \<Rightarrow> add_mset m (held q') | DeqErr _ \<Rightarrow> held q')"
  by (cases "readyChan q") (auto simp: Dequeue_def held_def split: if_splits option.splits)

lemma Requeue_frame:
  "Requeue_push now now' m q = Inr q1 \<Longrightarrow> (r, q') \<in> set (Requeue_select c q1) \<Longrightarrow>
     held q' = add_mset (Requeue_msg now now' m) (held q)"
  by (auto simp: Requeue_push_def Requeue_select_def held_def heap_Push_items core_def Let_def
      split: if_splits option.splits)

lemma promote_held: "queue_inv q \<Longrightarrow> held (promoteReadyMessages now choices q) = held q"
  using promote_spec [where q = q and now = now and choices = choices] promoted_held by blast

lemma promote_inv: "queue_inv q \<Longrightarrow> queue_inv (promoteReadyMessages now choices q)"
  using promote_spec by blast

lemma gauge_inv [simp]:
  "queue_inv (q\<lparr>retrySignal := b\<rparr>) = queue_inv q" "queue_inv (q\<lparr>QueueSizeReady := n\<rparr>) = queue_inv q"
  "held (q\<lparr>retrySignal := b\<rparr>) = held q" "held (q\<lparr>QueueSizeReady := n\<rparr>) = held q"
  by (simp_all add: queue_inv_def held_def)

lemma q_step_inv: "q_step q e q' \<Longrightarrow> queue_inv q \<Longrightarrow> queue_inv q'"
proof (induction rule: q_step.induct)
  case (requeue now now' m q q1 r q' c)
  then have "(r, q') \<in> set (Requeue now now' c m q)" by (simp add: Requeue_def)
  then show ?case using Requeue_inv requeue.prems by blast
qed (simp_all only: gauge_inv, (blast intro: Dequeue_inv Close_begin_inv Close_finish_inv promote_inv getNextRetryDelay_inv
      dest: Enqueue_select_frame)+)

text \<open>A step adds or removes exactly the message it says, unless it drops the heap.\<close>

lemma q_step_held:
  assumes "q_step q e q'" "queue_inv q" "e \<noteq> Closed"
  shows "held q + mset (added [e]) = held q' + mset (removed [e])"
  using assms
proof (induction rule: q_step.induct)
  case (dequeue m q' c q)
  then show ?case using Dequeue_frame [OF dequeue.hyps] by simp
next
  case (dequeue_err e q' c q)
  then show ?case using Dequeue_frame [OF dequeue_err.hyps] by simp
next
  case (requeue now now' m q q1 r q' c)
  then show ?case using Requeue_frame [OF requeue.hyps] by simp
next
  case (delay q now)
  then show ?case by (simp add: held_def getNextRetryDelay_def)
next
  case (enqueue_ok now m q0 m' q' c q)
  then show ?case using Enqueue_select_frame [OF enqueue_ok.hyps(2)] by simp
next
  case (enqueue_err e q' c m' q)
  then show ?case using Enqueue_select_frame [OF enqueue_err.hyps] by simp
next
  case (close_begin q)
  then show ?case by (simp add: held_def Close_begin_def)
qed (simp_all add: promote_held)

lemma q_run_inv: "q_run q es q' \<Longrightarrow> queue_inv q \<Longrightarrow> queue_inv q'"
  by (induction rule: q_run.induct) (auto intro: q_step_inv)

lemma q_run_held:
  "q_run q es q' \<Longrightarrow> queue_inv q \<Longrightarrow> Closed \<notin> set es \<Longrightarrow>
     held q + mset (added es) = held q' + mset (removed es)"
proof (induction rule: q_run.induct)
  case (run_snoc q es q1 e q2)
  then have "held q + mset (added es) = held q1 + mset (removed es)" by simp
  moreover have "held q1 + mset (added [e]) = held q2 + mset (removed [e])"
    using q_step_held [OF run_snoc.hyps(2) q_run_inv [OF run_snoc.hyps(1)]] run_snoc.prems by auto
  ultimately show ?case
    by (simp only: added_append removed_append mset_append) (metis union_assoc union_commute)
qed simp

text \<open>Runs split where their events do.\<close>

lemma q_run_one: "q_run q [e] q2 \<longleftrightarrow> q_step q e q2"
proof
  assume "q_run q [e] q2"
  then obtain q1 where "q_run q [] q1" "q_step q1 e q2" by (cases rule: q_run.cases) auto
  then show "q_step q e q2" by (auto elim: q_run.cases)
qed (use run_snoc [OF run_nil] in fastforce)

lemma q_run_append_iff: "q_run q (es1 @ es2) q2 \<longleftrightarrow> (\<exists>q1. q_run q es1 q1 \<and> q_run q1 es2 q2)"
proof (induction es2 arbitrary: q2 rule: rev_induct)
  case Nil
  show ?case by (metis append_Nil2 q_run.cases run_nil snoc_eq_iff_butlast)
next
  case (snoc e es)
  have last: "q_run q' (xs @ [e]) q2 \<longleftrightarrow> (\<exists>q1. q_run q' xs q1 \<and> q_step q1 e q2)" for q' xs
    by (auto elim: q_run.cases intro: run_snoc)
  show ?case using last [of q "es1 @ es"] snoc.IH last by auto
qed

text \<open>A queue whose \<open>Close\<close> has finished: nothing waits in the heap, and nothing ever will again.\<close>

definition queue_shut :: "Queue \<Rightarrow> bool" where
  "queue_shut q \<longleftrightarrow> closed q \<and> readyClosed q \<and> retryItems q = []"

lemma q_step_shut: "q_step q e q' \<Longrightarrow> queue_shut q \<Longrightarrow> queue_shut q' \<and> e \<noteq> Closed"
proof (induction rule: q_step.induct)
  case (promote q now choices)
  then show ?case by (simp add: queue_shut_def promote_step(1) due_now_def)
qed (auto simp: queue_shut_def Enqueue_select_def Dequeue_def Requeue_push_def getNextRetryDelay_def Close_begin_def
      split: if_splits option.splits list.splits)

lemma q_run_shut: "q_run q es q' \<Longrightarrow> queue_shut q \<Longrightarrow> queue_shut q' \<and> Closed \<notin> set es"
  by (induction rule: q_run.induct) (auto dest: q_step_shut)

lemma q_step_Closed:
  assumes "q_step q Closed q'"
  shows "queue_shut q' \<and> held q = held q' + image_mset fst (heap_items (retryItems q))"
  using assms
proof (cases rule: q_step.cases)
  case close_finish
  then show ?thesis by (simp add: queue_shut_def Close_finish_def held_def heap_items_def)
qed

section \<open>Properties\<close>

definition sample_msg :: "string \<Rightarrow> time \<Rightarrow> Message" where
  "sample_msg i t =
     \<lparr>ID = i, From = ''a@x'', To = [''b@y''], Data = ''hi'', CreatedAt = 1, RetryCount = 0, NextAttemptAt = t\<rparr>"

text \<open>A queue with one message waiting for its retry, and the step that makes it.\<close>

definition sample_retry :: Queue where
  "sample_retry = (NewQueue 1)\<lparr>retryItems := heap_Push [] \<lparr>msg = sample_msg ''1'' 9, priority = 9, index = 0\<rparr>,
     QueueSizeRetry := 1, retrySignal := True\<rparr>"

lemma sample_msg_requeue: "Requeue_msg 1 1 (sample_msg i 9) = sample_msg i 9" "NextAttemptAt (sample_msg i t) = t"
  by (simp_all add: Requeue_msg_def sample_msg_def IsZero_def)

lemma sample_retry_step: "q_step (NewQueue 1) (Added (sample_msg ''1'' 9)) sample_retry"
  by (rule requeue [of 1 1 "sample_msg ''1'' 9" _ _ SendOk _ None, unfolded sample_msg_requeue])
    (auto simp: Requeue_push_def Requeue_select_def NewQueue_def Let_def sample_msg_requeue sample_retry_def)

lemma NewQueue_held: "held (NewQueue n) = {#}"
  by (simp add: held_def NewQueue_def heap_items_def)

text \<open>
  C3: Under any interleaving of the queue's operations on a new queue, closing it included, no
  message is duplicated and none is lost but those that \<open>Close\<close> drops. As long as the heap is not
  dropped, the messages that were added are exactly those still held, ready or waiting for a
  retry, and those that were handed out. \<open>Close\<close> drops the heap at most once, and then exactly
  the messages that wait in it at that moment are missing, then and ever after.
\<close>

theorem queue_conservation:
  assumes "q_run (NewQueue n) es q"
  shows "(Closed \<notin> set es \<longrightarrow> mset (added es) = held q + mset (removed es)) \<and>
    (\<forall>es1 es2. es = es1 @ Closed # es2 \<longrightarrow> Closed \<notin> set es1 \<and> Closed \<notin> set es2 \<and>
       (\<exists>q1. q_run (NewQueue n) es1 q1 \<and>
          mset (added es) = held q + mset (removed es) + image_mset fst (heap_items (retryItems q1))))"
proof (intro conjI allI impI)
  show "mset (added es) = held q + mset (removed es)" if "Closed \<notin> set es"
    using q_run_held [OF assms NewQueue_inv that] by (simp add: NewQueue_held)
next
  fix es1 es2 assume es: "es = es1 @ Closed # es2"
  then have "q_run (NewQueue n) (es1 @ [Closed] @ es2) q" using assms by simp
  then obtain q1 q2 where 1: "q_run (NewQueue n) es1 q1" and s: "q_run q1 [Closed] q2" and 2: "q_run q2 es2 q"
    by (auto simp only: q_run_append_iff)
  have st: "q_step q1 Closed q2" using s by (simp add: q_run_one)
  note shut = q_step_Closed [OF st] and inv1 = q_run_inv [OF 1 NewQueue_inv]
  show c1: "Closed \<notin> set es1"
  proof
    assume "Closed \<in> set es1"
    then obtain xs ys where "q_run (NewQueue n) ((xs @ [Closed]) @ ys) q1" using 1 by (metis append.assoc append_Cons append_Nil split_list)
    then obtain q3 q4 where "q_step q3 Closed q4" "q_run q4 ys q1"
      by (auto simp only: q_run_append_iff q_run_one)
    then show False using q_step_Closed q_run_shut q_step_shut [OF st] by blast
  qed
  show c2: "Closed \<notin> set es2" using q_run_shut [OF 2] shut by blast
  have "mset (added es1) = held q1 + mset (removed es1)"
    using q_run_held [OF 1 NewQueue_inv c1] by (simp add: NewQueue_held)
  moreover have "held q2 + mset (added es2) = held q + mset (removed es2)"
    using q_run_held [OF 2 q_step_inv [OF st inv1] c2] .
  ultimately have "mset (added es) = held q + mset (removed es) + image_mset fst (heap_items (retryItems q1))"
    using shut by (simp add: es)
  then show "\<exists>q1. q_run (NewQueue n) es1 q1 \<and>
      mset (added es) = held q + mset (removed es) + image_mset fst (heap_items (retryItems q1))" using 1 by blast
qed

text \<open>A message that waits for its retry is what closing the queue drops.\<close>

theorem queue_conservation_witness:
  "\<exists>q. q_run (NewQueue 1) [Added (sample_msg ''1'' 9), Closing, Closed] q \<and> held q = {#} \<and>
     mset (added [Added (sample_msg ''1'' 9), Closing, Closed]) = {#sample_msg ''1'' 9#} \<and>
     (\<exists>q1. q_run (NewQueue 1) [Added (sample_msg ''1'' 9), Closing] q1 \<and>
        {#sample_msg ''1'' 9#} = image_mset fst (heap_items (retryItems q1)))"
proof -
  let ?a = "Added (sample_msg ''1'' 9)"
  let ?c = "Close_begin sample_retry"
  have st: "closed ?c" "\<not> readyClosed ?c"
    by (simp_all add: Close_begin_def sample_retry_def NewQueue_def)
  have run: "q_run (NewQueue 1) ((([] @ [?a]) @ [Closing]) @ [Closed]) (Close_finish ?c)"
    by (rule run_snoc [OF run_snoc [OF run_snoc [OF run_nil sample_retry_step] close_begin] close_finish [OF st]])
  have held: "held (Close_finish ?c) = {#}"
    by (simp add: held_def Close_finish_def Close_begin_def sample_retry_def NewQueue_def heap_items_def)
  obtain q1 where "q_run (NewQueue 1) [?a, Closing] q1"
    "mset (added [?a, Closing, Closed]) = held (Close_finish ?c) + mset (removed [?a, Closing, Closed]) +
       image_mset fst (heap_items (retryItems q1))"
    using queue_conservation [of 1 "[?a, Closing] @ Closed # []" "Close_finish ?c"] run
    by (metis append_Cons append_Nil)
  then show ?thesis using run held by (intro exI [of _ "Close_finish ?c"]) auto
qed

text \<open>
  C26: Every state the queue can reach, closed or not, keeps the retry heap in heap order with
  each item's recorded index equal to its position, and never holds more ready messages than
  the channel's capacity.
\<close>

theorem queue_state_invariant:
  assumes "q_run (NewQueue n) es q"
  shows "heap_ok (retryItems q) \<and> index_ok (retryItems q) \<and> length (readyChan q) \<le> readyCap q"
  using q_run_inv [OF assms NewQueue_inv] by (simp add: queue_inv_def heap_inv_def)

theorem queue_state_invariant_witness:
  "\<exists>q. q_run (NewQueue 1) [Added (sample_msg ''1'' 9)] q \<and> length (retryItems q) = 1 \<and>
     heap_ok (retryItems q) \<and> index_ok (retryItems q)"
proof -
  have run: "q_run (NewQueue 1) [Added (sample_msg ''1'' 9)] sample_retry"
    using run_snoc [OF run_nil sample_retry_step] by simp
  then show ?thesis using queue_state_invariant [OF run] by (auto simp: sample_retry_def)
qed

text \<open>
  Promotion moves due messages from the heap to the ready channel and nothing else: the
  promoted messages are appended in the order of their times, all of them were due, the rest
  stays in the heap, and it stops early only when the channel is full or the queue stops;
  otherwise nothing due is left behind.
\<close>

theorem promotion_correct:
  assumes "queue_inv q" and "q' = promoteReadyMessages now choices q"
  shows "\<exists>ks. readyChan q' = readyChan q @ map fst ks \<and>
           heap_items (retryItems q) = mset ks + heap_items (retryItems q') \<and>
           sorted (map snd ks) \<and> (\<forall>k \<in> set ks. snd k \<le> now) \<and>
           (\<forall>k \<in> set ks. \<forall>k' \<in># heap_items (retryItems q'). snd k \<le> snd k') \<and>
           (stopped q \<or> length (readyChan q') = readyCap q \<or>
             (\<forall>k' \<in># heap_items (retryItems q'). now < snd k'))"
  using promote_spec [OF assms(1), where now = now and choices = choices]
  unfolding assms(2) promoted_def by blast

definition sample_two :: Queue where
  "sample_two = (NewQueue 2)\<lparr>retryItems :=
     heap_Push (heap_Push [] \<lparr>msg = sample_msg ''1'' 9, priority = 9, index = 0\<rparr>)
       \<lparr>msg = sample_msg ''2'' 4, priority = 4, index = 0\<rparr>\<rparr>"

theorem promotion_correct_witness:
  "queue_inv sample_two \<and>
   (\<exists>ks. readyChan (promoteReadyMessages 5 [] sample_two) = map fst ks \<and> sorted (map snd ks) \<and>
     (\<forall>k \<in> set ks. snd k \<le> (5 :: time)))"
proof -
  have "heap_inv (retryItems sample_two)"
    by (simp add: sample_two_def heap_Push_inv)
  then have inv: "queue_inv sample_two" by (simp add: queue_inv_def sample_two_def NewQueue_def)
  have "readyChan sample_two = []" by (simp add: sample_two_def NewQueue_def)
  then show ?thesis using inv promotion_correct [OF inv refl, of 5 "[]"] by (metis append_Nil)
qed

text \<open>
  A Requeue whose context is already cancelled may return the context's error although the
  message has been put into the heap: an error from Requeue does not mean that the message was
  not queued.
\<close>

theorem requeue_error_still_queued:
  assumes "Requeue_push now now' m q = Inr q1"
  shows "(SendErr e, q1) \<in> set (Requeue now now' (Some e) m q) \<and>
         held q1 = add_mset (Requeue_msg now now' m) (held q)"
proof -
  have sel: "(SendErr e, q1) \<in> set (Requeue_select (Some e) q1)" by (simp add: Requeue_select_def)
  then show ?thesis using Requeue_frame [OF assms sel] assms by (simp add: Requeue_def)
qed

theorem requeue_error_still_queued_witness:
  "\<exists>q1. (SendErr Canceled, q1) \<in> set (Requeue 1 1 (Some Canceled) (sample_msg ''1'' 9) (NewQueue 1)) \<and>
     sample_msg ''1'' 9 \<in># held q1"
proof -
  obtain q1 where q1: "Requeue_push 1 1 (sample_msg ''1'' 9) (NewQueue 1) = Inr q1"
    by (simp add: Requeue_push_def NewQueue_def Let_def)
  have "Requeue_msg 1 1 (sample_msg ''1'' 9) = sample_msg ''1'' 9"
    by (simp add: Requeue_msg_def sample_msg_def IsZero_def)
  then show ?thesis using requeue_error_still_queued [OF q1, of Canceled] by auto
qed

text \<open>
  An Enqueue that passed its check of the closed flag can panic: when Close completes
  before its select runs, sending on the closed ready channel is one of the ready cases.
\<close>

theorem enqueue_close_race:
  assumes "Enqueue_check now m q = Inr m'"
  shows "(SendPanic, Close q) \<in> set (Enqueue_select c m' (Close q))"
  using assms
  by (auto simp: Enqueue_check_def Close_def Close_begin_def Close_finish_def Enqueue_select_def
      split: if_splits)

theorem enqueue_close_race_witness:
  "(SendPanic, Close (NewQueue 1)) \<in>
     set (Enqueue_select None (sample_msg ''1'' 9) (Close (NewQueue 1)))"
proof (rule enqueue_close_race [of 1 "sample_msg ''1'' 9"])
  show "Enqueue_check 1 (sample_msg ''1'' 9) (NewQueue 1) = Inr (sample_msg ''1'' 9)"
    by (simp add: Enqueue_check_def NewQueue_def sample_msg_def IsZero_def)
qed

text \<open>
  The gauge of ready messages drifts: promotion does not count a message that Dequeue
  subtracts later, so after one retry the gauge is negative while the channel is empty.
\<close>

theorem ready_gauge_drift:
  "\<exists>es q. q_run (NewQueue 1) es q \<and> readyChan q = [] \<and> QueueSizeReady q = - 1"
proof -
  let ?m = "sample_msg ''1'' 9" and ?q0 = "NewQueue 1"
  let ?h = "heap_Push [] \<lparr>msg = ?m, priority = 9, index = 0\<rparr>"
  let ?q1 = "?q0\<lparr>retryItems := ?h, QueueSizeRetry := 1, retrySignal := True\<rparr>"
  let ?q2 = "?q1\<lparr>retryItems := [], QueueSizeRetry := 0, readyChan := [?m]\<rparr>"
  let ?q3 = "?q2\<lparr>readyChan := [], QueueSizeReady := - 1\<rparr>"
  have s1: "q_step ?q0 (Added ?m) ?q1" using sample_retry_step by (simp add: sample_retry_def)
  have h: "?h = [\<lparr>msg = ?m, priority = 9, index = 0\<rparr>]"
    by (simp add: heap_Push_def rh_Push_def rh_Len_def heap_up.simps parent_def)
  have pop: "heap_Pop ?h = (\<lparr>msg = ?m, priority = 9, index = - 1\<rparr>, [])"
    by (simp add: h heap_Pop_def rh_Len_def rh_Pop_def rh_Swap_def heap_down.simps)
  have "due_now 9 ?q1" "can_send [] ?q1" by (simp_all add: due_now_def h can_send_def NewQueue_def)
  moreover have "sent_one ?q1 = ?q2" by (simp add: sent_one_def pop NewQueue_def)
  ultimately have "promoteReadyMessages 9 [] ?q1 = ?q2"
    by (simp add: promote_step due_now_def)
  then have s2: "q_step ?q1 Internal ?q2" using promote [of ?q1 9 "[]"] by simp
  have s3: "q_step ?q2 (Removed ?m) ?q3"
    by (rule dequeue [of ?m ?q3 None]) (simp add: Dequeue_def NewQueue_def)
  have "q_run ?q0 ((([] @ [Added ?m]) @ [Internal]) @ [Removed ?m]) ?q3"
    by (rule run_snoc [OF run_snoc [OF run_snoc [OF run_nil s1] s2] s3])
  then show ?thesis by (intro exI conjI) (assumption, simp_all)
qed

end
