(* ===== verification/QueueConc.thy ===== *)
theory QueueConc
  imports MailQueue
begin

text \<open>
  The goroutines around the queue of \<open>internal/queue/queue.go\<close>: the retry scheduler
  (\<open>scheduleRetryMessages\<close>) and callers of \<open>Requeue\<close>, with the mutex they share. The
  scheduler needs the mutex for \<open>getNextRetryDelay\<close> and for \<open>promoteReadyMessages\<close>;
  \<open>Requeue\<close> keeps it while it waits to send on \<open>retrySignal\<close>, which holds one signal.
  The contexts of the callers are taken not to be cancelled: the worker's context ends only
  when the processor stops.
\<close>

section \<open>The goroutines\<close>

datatype sched_pc = SDelay | SSelect | SPromote | SStopped
datatype requeue_pc = RLock Message | RSelect | RDone

record goroutines =
  qs :: Queue
  mutex :: "nat option"
  sched :: sched_pc
  rqs :: "requeue_pc list"

definition conc_init :: "int \<Rightarrow> goroutines" where
  "conc_init n = \<lparr>qs = NewQueue n, mutex = None, sched = SDelay, rqs = []\<rparr>"

text \<open>
  Critical sections that cannot block are one step. A caller that arrives is at its
  \<open>Lock\<close>; with the mutex it pushes its message and goes on to its \<open>select\<close>.
\<close>

inductive c_step :: "goroutines \<Rightarrow> goroutines \<Rightarrow> bool" where
  delay: "sched s = SDelay \<Longrightarrow> mutex s = None \<Longrightarrow>
     c_step s (s\<lparr>qs := snd (getNextRetryDelay now (qs s)), sched := SSelect\<rparr>)"
| timer: "sched s = SSelect \<Longrightarrow> c_step s (s\<lparr>sched := SPromote\<rparr>)"
| tick: "sched s = SSelect \<Longrightarrow>
     c_step s (s\<lparr>qs := (qs s)\<lparr>QueueSizeReady := int (length (readyChan (qs s)))\<rparr>, sched := SDelay\<rparr>)"
| signal: "sched s = SSelect \<Longrightarrow> retrySignal (qs s) \<Longrightarrow>
     c_step s (s\<lparr>qs := (qs s)\<lparr>retrySignal := False\<rparr>, sched := SDelay\<rparr>)"
| stop: "sched s = SSelect \<Longrightarrow> stopped (qs s) \<Longrightarrow> c_step s (s\<lparr>sched := SStopped\<rparr>)"
| promote: "sched s = SPromote \<Longrightarrow> mutex s = None \<Longrightarrow>
     c_step s (s\<lparr>qs := promoteReadyMessages now choices (qs s), sched := SDelay\<rparr>)"
| arrive: "c_step s (s\<lparr>rqs := rqs s @ [RLock m]\<rparr>)"
| refused: "i < length (rqs s) \<Longrightarrow> rqs s ! i = RLock m \<Longrightarrow> mutex s = None \<Longrightarrow>
     Requeue_push now now' m (qs s) = Inl e \<Longrightarrow> c_step s (s\<lparr>rqs := (rqs s)[i := RDone]\<rparr>)"
| lock: "i < length (rqs s) \<Longrightarrow> rqs s ! i = RLock m \<Longrightarrow> mutex s = None \<Longrightarrow>
     Requeue_push now now' m (qs s) = Inr q' \<Longrightarrow>
     c_step s (s\<lparr>qs := q', mutex := Some i, rqs := (rqs s)[i := RSelect]\<rparr>)"
| select: "i < length (rqs s) \<Longrightarrow> rqs s ! i = RSelect \<Longrightarrow> mutex s = Some i \<Longrightarrow>
     (r, q') \<in> set (Requeue_select None (qs s)) \<Longrightarrow>
     c_step s (s\<lparr>qs := q', mutex := None, rqs := (rqs s)[i := RDone]\<rparr>)"
| enqueue: "(r, q') \<in> set (Enqueue_select None m (qs s)) \<Longrightarrow> c_step s (s\<lparr>qs := q'\<rparr>)"
| dequeue: "(r, q') \<in> set (Dequeue None (qs s)) \<Longrightarrow> c_step s (s\<lparr>qs := q'\<rparr>)"
| close: "mutex s = None \<Longrightarrow> c_step s (s\<lparr>qs := Close_begin (qs s)\<rparr>)"
| close_done: "sched s = SStopped \<Longrightarrow> mutex s = None \<Longrightarrow> closed (qs s) \<Longrightarrow>
     c_step s (s\<lparr>qs := Close_finish (qs s)\<rparr>)"

inductive c_reach :: "goroutines \<Rightarrow> goroutines \<Rightarrow> bool" where
  refl: "c_reach s s"
| trans: "c_reach s t \<Longrightarrow> c_step t u \<Longrightarrow> c_reach s u"

section \<open>Mutual exclusion\<close>

text \<open>The caller in its \<open>select\<close> is the holder of the mutex, so there is at most one.\<close>

definition mutex_inv :: "goroutines \<Rightarrow> bool" where
  "mutex_inv s \<longleftrightarrow> (\<forall>i < length (rqs s). rqs s ! i = RSelect \<longleftrightarrow> mutex s = Some i) \<and>
     (\<forall>i. mutex s = Some i \<longrightarrow> i < length (rqs s))"

lemma c_step_mutex_inv: "c_step s t \<Longrightarrow> mutex_inv s \<Longrightarrow> mutex_inv t"
proof (induction rule: c_step.induct)
  case (arrive s m)
  then show ?case by (auto simp: mutex_inv_def nth_append less_Suc_eq)
qed (auto simp: mutex_inv_def nth_list_update)

lemma c_step_queue_inv: "c_step s t \<Longrightarrow> queue_inv (qs s) \<Longrightarrow> queue_inv (qs t)"
proof (induction rule: c_step.induct)
  case (lock i s m now now' q')
  then show ?case by (auto simp: Requeue_push_def queue_inv_def Let_def heap_Push_inv split: if_splits)
next
  case (select i s r q')
  then show ?case by (auto simp: Requeue_select_def split: if_splits)
next
  case (enqueue r q' m s)
  then show ?case using Enqueue_select_frame by auto
next
  case (dequeue r q' s)
  then show ?case using Dequeue_inv by auto
next
  case (close s)
  then show ?case by (auto simp: queue_inv_def Close_begin_def)
next
  case (close_done s)
  then show ?case by (auto simp: queue_inv_def Close_finish_def)
qed (simp_all add: getNextRetryDelay_inv promote_inv)

lemma c_reach_inv:
  "c_reach s t \<Longrightarrow> mutex_inv s \<Longrightarrow> queue_inv (qs s) \<Longrightarrow> mutex_inv t \<and> queue_inv (qs t)"
  by (induction rule: c_reach.induct) (auto intro: c_step_mutex_inv c_step_queue_inv)

lemma conc_init_inv: "mutex_inv (conc_init n) \<and> queue_inv (qs (conc_init n))"
  by (simp add: mutex_inv_def conc_init_def NewQueue_inv)

section \<open>A state nobody can leave\<close>

text \<open>
  The scheduler waits for the mutex to promote, the holder of the mutex waits to send its
  signal, and the channel holds a signal that only the scheduler would take.
\<close>

definition stuck :: "goroutines \<Rightarrow> bool" where
  "stuck s \<longleftrightarrow> sched s = SPromote \<and> retrySignal (qs s) \<and> \<not> stopped (qs s) \<and>
     (\<exists>i. mutex s = Some i \<and> i < length (rqs s) \<and> rqs s ! i = RSelect)"

lemma stuck_step: "c_step s t \<Longrightarrow> stuck s \<Longrightarrow> stuck t"
proof (induction rule: c_step.induct)
  case (arrive s m)
  then show ?case by (auto simp: stuck_def nth_append)
next
  case (select i s r q')
  then show ?case by (auto simp: stuck_def Requeue_select_def)
next
  case (enqueue r q' m s)
  then show ?case by (auto simp: stuck_def Enqueue_select_def split: if_splits)
next
  case (dequeue r q' s)
  then show ?case
    by (cases "readyChan (qs s)") (auto simp: stuck_def Dequeue_def split: if_splits)
qed (auto simp: stuck_def)

lemma stuck_reach: "c_reach s t \<Longrightarrow> stuck s \<Longrightarrow> stuck t"
  by (induction rule: c_reach.induct) (auto intro: stuck_step)

section \<open>Properties\<close>

text \<open>
  In every state the queue's goroutines reach, at most one caller of Requeue is past its
  Lock, it is the holder of the mutex, and the queue's own invariant holds.
\<close>

theorem requeue_mutual_exclusion:
  assumes "c_reach (conc_init n) s"
    and "i < length (rqs s)" "rqs s ! i = RSelect" "j < length (rqs s)" "rqs s ! j = RSelect"
  shows "i = j \<and> mutex s = Some i \<and> queue_inv (qs s)"
  using c_reach_inv [OF assms(1)] conc_init_inv assms(2-5) by (auto simp: mutex_inv_def)

text \<open>The run that ends in the stuck state: two Requeue calls around an expired timer.\<close>

definition run1 :: "goroutines" where
  "run1 = (conc_init 1)\<lparr>qs := snd (getNextRetryDelay 1 (NewQueue 1)), sched := SSelect,
     rqs := [RLock (sample_msg ''1'' 9), RLock (sample_msg ''2'' 9)]\<rparr>"

lemma run1_reach: "c_reach (conc_init 1) run1"
proof -
  have "c_step (conc_init 1) ((conc_init 1)\<lparr>qs := snd (getNextRetryDelay 1 (qs (conc_init 1))), sched := SSelect\<rparr>)"
    by (rule delay) (simp_all add: conc_init_def)
  from c_reach.trans [OF c_reach.trans [OF c_reach.trans [OF c_reach.refl this] arrive] arrive]
  show ?thesis unfolding run1_def by (simp add: conc_init_def)
qed

lemma lock_push:
  assumes "i < length (rqs s)" "rqs s ! i = RLock m" "mutex s = None" "\<not> closed (qs s)"
  shows "\<exists>q'. c_step s (s\<lparr>qs := q', mutex := Some i, rqs := (rqs s)[i := RSelect]\<rparr>) \<and>
    retrySignal q' = retrySignal (qs s) \<and> stopped q' = stopped (qs s) \<and> closed q' = closed (qs s)"
proof -
  obtain q' where q': "Requeue_push 1 1 m (qs s) = Inr q'" using assms(4) by (simp add: Requeue_push_def Let_def)
  then have "c_step s (s\<lparr>qs := q', mutex := Some i, rqs := (rqs s)[i := RSelect]\<rparr>)"
    using assms by (intro lock) auto
  then show ?thesis using q' by (auto simp: Requeue_push_def Let_def split: if_splits)
qed

lemma run1_stuck: "\<exists>s. c_reach run1 s \<and> stuck s"
proof -
  have r0: "0 < length (rqs run1)" "rqs run1 ! 0 = RLock (sample_msg ''1'' 9)" "mutex run1 = None"
    "\<not> closed (qs run1)" "\<not> retrySignal (qs run1)" "\<not> stopped (qs run1)" "sched run1 = SSelect"
    "length (rqs run1) = 2" "rqs run1 ! 1 = RLock (sample_msg ''2'' 9)"
    by (simp_all add: run1_def conc_init_def getNextRetryDelay_def NewQueue_def)
  obtain q1 where s1: "c_step run1 (run1\<lparr>qs := q1, mutex := Some 0, rqs := (rqs run1)[0 := RSelect]\<rparr>)"
    and q1: "\<not> retrySignal q1" "\<not> stopped q1" "\<not> closed q1"
    using lock_push [OF r0(1-4)] r0 by auto
  let ?s1 = "run1\<lparr>qs := q1, mutex := Some 0, rqs := (rqs run1)[0 := RSelect]\<rparr>"
  let ?s2 = "?s1\<lparr>qs := q1\<lparr>retrySignal := True\<rparr>, mutex := None, rqs := (rqs run1)[0 := RDone]\<rparr>"
  have s2: "c_step ?s1 ?s2"
    using select [of 0 ?s1 SendOk "q1\<lparr>retrySignal := True\<rparr>"] r0 q1 by (simp add: Requeue_select_def)
  let ?s3 = "?s2\<lparr>sched := SPromote\<rparr>"
  have s3: "c_step ?s2 ?s3" by (rule timer) (simp add: r0)
  obtain q4 where s4: "c_step ?s3 (?s3\<lparr>qs := q4, mutex := Some 1, rqs := (rqs ?s3)[1 := RSelect]\<rparr>)"
    and q4: "retrySignal q4" "\<not> stopped q4"
    using lock_push [of 1 ?s3 "sample_msg ''2'' 9"] r0 q1 by auto
  have "stuck (?s3\<lparr>qs := q4, mutex := Some 1, rqs := (rqs ?s3)[1 := RSelect]\<rparr>)"
    using q4 r0 by (simp add: stuck_def)
  then show ?thesis
    using c_reach.trans [OF c_reach.trans [OF c_reach.trans [OF c_reach.trans [OF c_reach.refl s1] s2] s3] s4]
    by blast
qed

lemma c_reach_append: "c_reach t u \<Longrightarrow> c_reach s t \<Longrightarrow> c_reach s u"
  by (induction rule: c_reach.induct) (auto intro: c_reach.trans)

text \<open>
  C40: The queue can deadlock: from its initial state a state is reachable from which, whatever
  the goroutines do, the mutex is held for ever, the scheduler stays blocked before its
  promotion, and so neither Requeue, Enqueue nor Close can pass their Lock again.
\<close>

theorem requeue_deadlock:
  "\<exists>s. c_reach (conc_init 1) s \<and>
     {t. c_reach s t} \<subseteq> {t. mutex t \<noteq> None \<and> sched t = SPromote \<and> \<not> stopped (qs t)}"
proof -
  obtain s where s: "c_reach run1 s" "stuck s" using run1_stuck by blast
  have "{t. c_reach s t} \<subseteq> {t. mutex t \<noteq> None \<and> sched t = SPromote \<and> \<not> stopped (qs t)}"
  proof
    fix t assume "t \<in> {t. c_reach s t}"
    then have "stuck t" using stuck_reach s(2) by blast
    then show "t \<in> {t. mutex t \<noteq> None \<and> sched t = SPromote \<and> \<not> stopped (qs t)}"
      by (auto simp: stuck_def)
  qed
  then show ?thesis using c_reach_append [OF s(1) run1_reach] by blast
qed

theorem requeue_mutual_exclusion_witness:
  "\<exists>s. c_reach (conc_init 1) s \<and> mutex s = Some 0 \<and> queue_inv (qs s)"
proof -
  have "0 < length (rqs run1)" "rqs run1 ! 0 = RLock (sample_msg ''1'' 9)" "mutex run1 = None"
    "\<not> closed (qs run1)"
    by (simp_all add: run1_def conc_init_def getNextRetryDelay_def NewQueue_def)
  from lock_push [OF this] obtain q' where
    st: "c_step run1 (run1\<lparr>qs := q', mutex := Some 0, rqs := (rqs run1)[0 := RSelect]\<rparr>)" by blast
  let ?s = "run1\<lparr>qs := q', mutex := Some 0, rqs := (rqs run1)[0 := RSelect]\<rparr>"
  have r: "c_reach (conc_init 1) ?s" using c_reach.trans [OF run1_reach st] .
  have l: "0 < length (rqs ?s)" "rqs ?s ! 0 = RSelect" by (simp_all add: run1_def)
  show ?thesis using requeue_mutual_exclusion [OF r l l] r by blast
qed

end
