(* ===== verification/QueueSpec.thy ===== *)
theory QueueSpec
  imports MailQueue
begin

text \<open>
  What the queue promises, without its heap, channels and signals: a list of ready messages with
  a capacity, and a bag of messages that wait until a time. The operations of
  \<open>internal/queue/queue.go\<close> implement it.
\<close>

section \<open>The specification\<close>

record dqueue =
  dq_ready :: "Message list"
  dq_waiting :: "(Message \<times> time) multiset"
  dq_cap :: nat
  dq_open :: bool

definition dq_new :: "nat \<Rightarrow> dqueue" where
  "dq_new n = \<lparr>dq_ready = [], dq_waiting = {#}, dq_cap = n, dq_open = True\<rparr>"

text \<open>
  A release moves waiting messages that are due at \<open>now\<close>, earliest first, behind the ready ones,
  until none is due, the capacity is reached or the queue is being closed.
\<close>

definition dq_release :: "time \<Rightarrow> (Message \<times> time) list \<Rightarrow> dqueue \<Rightarrow> dqueue \<Rightarrow> bool" where
  "dq_release now ks d d' \<longleftrightarrow>
     dq_waiting d = mset ks + dq_waiting d' \<and> dq_ready d' = dq_ready d @ map fst ks \<and>
     dq_cap d' = dq_cap d \<and> dq_open d' = dq_open d \<and> length (dq_ready d') \<le> dq_cap d \<and>
     sorted (map snd ks) \<and> (\<forall>k \<in> set ks. snd k \<le> now) \<and> (\<forall>k \<in> set ks. \<forall>k' \<in># dq_waiting d'. snd k \<le> snd k') \<and>
     (\<not> dq_open d \<or> length (dq_ready d') = dq_cap d \<or> (\<forall>k' \<in># dq_waiting d'. now < snd k'))"

inductive dq_step :: "dqueue \<Rightarrow> q_event \<Rightarrow> dqueue \<Rightarrow> bool" where
  put: "length (dq_ready d) < dq_cap d \<Longrightarrow> dq_step d (Added m) (d\<lparr>dq_ready := dq_ready d @ [m]\<rparr>)"
| wait: "dq_open d \<Longrightarrow> dq_step d (Added m) (d\<lparr>dq_waiting := add_mset (m, NextAttemptAt m) (dq_waiting d)\<rparr>)"
| get: "dq_ready d = m # ms \<Longrightarrow> dq_step d (Removed m) (d\<lparr>dq_ready := ms\<rparr>)"
| idle: "dq_step d Internal d"
| release: "dq_release now ks d d' \<Longrightarrow> dq_step d Internal d'"
| shut: "dq_step d Closing (d\<lparr>dq_open := False\<rparr>)"
| drop_all: "\<not> dq_open d \<Longrightarrow> dq_step d Closed (d\<lparr>dq_waiting := {#}\<rparr>)"

inductive dq_run :: "dqueue \<Rightarrow> q_event list \<Rightarrow> dqueue \<Rightarrow> bool" where
  dq_nil: "dq_run d [] d"
| dq_snoc: "dq_run d es d1 \<Longrightarrow> dq_step d1 e d2 \<Longrightarrow> dq_run d (es @ [e]) d2"

section \<open>The implementation\<close>

definition abs_queue :: "Queue \<Rightarrow> dqueue" where
  "abs_queue q = \<lparr>dq_ready = readyChan q, dq_waiting = heap_items (retryItems q), dq_cap = readyCap q, dq_open = (\<not> closed q)\<rparr>"

lemma promote_frame:
  "readyCap (promoteReadyMessages now choices q) = readyCap q \<and> closed (promoteReadyMessages now choices q) = closed q"
proof (induction "length (retryItems q)" arbitrary: q choices rule: less_induct)
  case less
  consider (idle) "\<not> due_now now q" | (sends) "due_now now q" "can_send choices q"
    | (keeps) "due_now now q" "\<not> can_send choices q" by blast
  then show ?case
  proof cases
    case sends
    then have "retryItems q \<noteq> []" by (auto simp: due_now_def)
    then have "length (retryItems (sent_one q)) < length (retryItems q)" by (simp add: sent_one_def)
    from less.hyps [OF this, of "tl choices"] show ?thesis by (simp add: promote_step(2) [OF sends]) (simp add: sent_one_def)
  next
    case keeps
    then show ?thesis by (cases "stopped q") (simp_all add: promote_step(3,4) [OF keeps], simp_all add: put_back_def)
  qed (simp add: promote_step(1))
qed

lemma abs_promote:
  assumes "queue_inv q"
  shows "\<exists>ks. dq_release now ks (abs_queue q) (abs_queue (promoteReadyMessages now choices q))"
proof -
  let ?p = "promoteReadyMessages now choices q"
  note spec = promote_spec [OF assms, where now = now and choices = choices]
  then obtain ks where ks: "promoted now q ?p ks" by blast
  have "length (readyChan ?p) \<le> readyCap ?p" "stopped q = closed q" using spec assms by (auto simp: queue_inv_def)
  then show ?thesis using ks spec promote_frame [of now choices q]
    by (intro exI [of _ ks]) (simp add: dq_release_def abs_queue_def promoted_def)
qed

lemma q_step_refines: "q_step q e q' \<Longrightarrow> queue_inv q \<Longrightarrow> dq_step (abs_queue q) e (abs_queue q')"
proof (induction rule: q_step.induct)
  case (enqueue_ok now m q0 m' q' c q)
  then have "length (readyChan q) < readyCap q" "abs_queue q' = (abs_queue q)\<lparr>dq_ready := dq_ready (abs_queue q) @ [m']\<rparr>"
    by (auto simp: Enqueue_select_def abs_queue_def split: if_splits option.splits)
  then show ?case using dq_step.put [of "abs_queue q" m'] by (simp add: abs_queue_def)
next
  case (enqueue_err e q' c m' q)
  then show ?case by (auto simp: Enqueue_select_def intro: dq_step.idle split: if_splits option.splits)
next
  case (requeue now now' m q q1 r q' c)
  let ?m = "Requeue_msg now now' m"
  have "dq_open (abs_queue q)" "abs_queue q' = (abs_queue q)\<lparr>dq_waiting := add_mset (?m, NextAttemptAt ?m) (dq_waiting (abs_queue q))\<rparr>"
    using requeue.hyps
    by (auto simp: Requeue_push_def Requeue_select_def abs_queue_def heap_Push_items core_def Let_def split: if_splits option.splits)
  then show ?case using dq_step.wait [of "abs_queue q" ?m] by simp
next
  case (dequeue m q' c q)
  then obtain ms where "readyChan q = m # ms" "abs_queue q' = (abs_queue q)\<lparr>dq_ready := ms\<rparr>"
    by (cases "readyChan q") (auto simp: Dequeue_def abs_queue_def split: if_splits option.splits)
  then show ?case using dq_step.get [of "abs_queue q" m ms] by (simp add: abs_queue_def)
next
  case (dequeue_err e q' c q)
  then show ?case by (cases "readyChan q") (auto simp: Dequeue_def intro: dq_step.idle split: if_splits option.splits)
next
  case (promote q now choices)
  then show ?case using abs_promote dq_step.release by blast
next
  case (close_begin q)
  have "abs_queue (Close_begin q) = (abs_queue q)\<lparr>dq_open := False\<rparr>" by (simp add: abs_queue_def Close_begin_def)
  then show ?case using dq_step.shut [of "abs_queue q"] by simp
next
  case (close_finish q)
  then have "\<not> dq_open (abs_queue q)" "abs_queue (Close_finish q) = (abs_queue q)\<lparr>dq_waiting := {#}\<rparr>"
    by (simp_all add: abs_queue_def Close_finish_def heap_items_def)
  then show ?case using dq_step.drop_all [of "abs_queue q"] by simp
next
  case (delay q now)
  have "abs_queue (snd (getNextRetryDelay now q)) = abs_queue q" by (simp add: abs_queue_def getNextRetryDelay_def)
  then show ?case using dq_step.idle [of "abs_queue q"] by simp
next
  case (signal q)
  have "abs_queue (q\<lparr>retrySignal := False\<rparr>) = abs_queue q" by (simp add: abs_queue_def)
  then show ?case using dq_step.idle [of "abs_queue q"] by simp
next
  case (tick q)
  have "abs_queue (q\<lparr>QueueSizeReady := int (length (readyChan q))\<rparr>) = abs_queue q" by (simp add: abs_queue_def)
  then show ?case using dq_step.idle [of "abs_queue q"] by simp
qed (rule dq_step.idle)+

text \<open>
  C6: The queue implements its specification. Every sequence of operations on a new queue, with
  any interleaving of callers and scheduler, is one that the list of ready messages and the bag
  of waiting ones allow, with the same messages added and handed out: ready messages leave
  first in, first out; a waiting message becomes ready only when it is due, the earliest first,
  and none that is due stays behind while there is room.
\<close>

theorem queue_refines_spec:
  assumes "q_run (NewQueue n) es q"
  shows "dq_run (dq_new (nat (if n \<le> 0 then 100 else n))) es (abs_queue q)"
proof -
  have "dq_run (abs_queue q0) es (abs_queue q)" if "q_run q0 es q" "queue_inv q0" for q0 es q
    using that
  proof (induction rule: q_run.induct)
    case (run_snoc q0 es q1 e q2)
    then show ?case using dq_snoc q_step_refines q_run_inv by blast
  qed (rule dq_nil)
  moreover have "abs_queue (NewQueue n) = dq_new (nat (if n \<le> 0 then 100 else n))"
    by (simp add: abs_queue_def NewQueue_def dq_new_def)
  ultimately show ?thesis using assms NewQueue_inv by metis
qed

theorem queue_refines_spec_witness:
  "dq_run (dq_new 1) [Added (sample_msg ''1'' 9)] (abs_queue sample_retry) \<and>
   dq_waiting (abs_queue sample_retry) = {#(sample_msg ''1'' 9, 9)#}"
proof -
  have "q_run (NewQueue 1) [Added (sample_msg ''1'' 9)] sample_retry"
    using run_snoc [OF run_nil sample_retry_step] by simp
  then show ?thesis using queue_refines_spec [of 1 "[Added (sample_msg ''1'' 9)]" sample_retry]
    by (simp add: abs_queue_def sample_retry_def heap_Push_items core_def)
qed

end
