(* ===== verification/Processor.thy ===== *)
theory Processor
  imports MailQueue
begin

text \<open>
  The queue processor of \<open>internal/processor/processor.go\<close>: the retry policy, what a worker
  does with the outcome of a delivery, and one iteration of the worker's loop over the queue.
  Contexts, clock readings and the deliverer's answer are the inputs of an iteration.
\<close>

section \<open>Retry policy\<close>

definition MaxRetries :: int where "MaxRetries = 5"
definition BaseRetryDelay :: duration where "BaseRetryDelay = 1 * minute"
definition MaxRetryDelay :: duration where "MaxRetryDelay = 30 * minute"

text \<open>Durations are int64: the product wraps around, and a shift by 64 or more gives 0.\<close>

definition calculateRetryDelay :: "int \<Rightarrow> duration" where
  "calculateRetryDelay retryCount =
     (if retryCount \<le> 0 then BaseRetryDelay
      else (let delay = sint ((word_of_int BaseRetryDelay :: 64 word) * push_bit (nat (retryCount - 1)) 1)
            in if delay > MaxRetryDelay then MaxRetryDelay else delay))"

definition isPermFailure :: "string \<Rightarrow> bool" where
  "isPermFailure errMsg = Contains (ToLower errMsg) ''permanent''"

section \<open>The outcome of a delivery\<close>

text \<open>
  What the worker does next: go on with the loop, return, or first look whether the context
  has ended. A message to requeue is returned with the statuses recorded in the metrics.
\<close>

datatype iter_next = Loop | Return | CheckDone

definition retry_msg :: "time \<Rightarrow> Message \<Rightarrow> Message" where
  "retry_msg now m =
     m\<lparr>RetryCount := RetryCount m + 1, NextAttemptAt := now + calculateRetryDelay (RetryCount m + 1)\<rparr>"

definition after_delivery ::
  "bool \<Rightarrow> time \<Rightarrow> go_error option \<Rightarrow> Message \<Rightarrow> Message option \<times> (string \<times> string) list \<times> iter_next" where
  "after_delivery ctxDone now err m =
     (case err of
        None \<Rightarrow> (None, [(''delivered'', From m)], CheckDone)
      | Some e \<Rightarrow>
          if errors_Is e Canceled \<or> errors_Is e DeadlineExceeded then
            (if ctxDone then (Some m, [], Return) else (Some (retry_msg now m), [], Loop))
          else
            (if isPermFailure (err_Error e) then None
             else if RetryCount m \<ge> MaxRetries then None
             else Some (retry_msg now m),
             [(''delivery_failed'', From m)], CheckDone))"

section \<open>An iteration of the worker\<close>

record iter_env =
  ie_done :: bool
  ie_deqErr :: "go_error option"
  ie_doneDeq :: bool
  ie_now :: time
  ie_deliver :: "Message \<Rightarrow> go_error option"
  ie_doneDel :: bool
  ie_after :: time
  ie_rqNow :: time
  ie_rqNow' :: time
  ie_ctxErr :: "go_error option"
  ie_doneEnd :: bool

definition requeue_all :: "iter_env \<Rightarrow> Message \<Rightarrow> Queue \<Rightarrow> Queue list" where
  "requeue_all e m q = map snd (Requeue (ie_rqNow e) (ie_rqNow' e) (ie_ctxErr e) m q)"

definition next_of :: "iter_env \<Rightarrow> iter_next \<Rightarrow> iter_next" where
  "next_of e nx = (case nx of CheckDone \<Rightarrow> if ie_doneEnd e then Return else Loop | _ \<Rightarrow> nx)"

definition process_msg :: "iter_env \<Rightarrow> Message \<Rightarrow> Queue \<Rightarrow> (iter_next \<times> Queue \<times> (string \<times> string) list) list" where
  "process_msg e m q =
     (if ie_now e < NextAttemptAt m then map (\<lambda>q'. (Loop, q', [])) (requeue_all e m q)
      else (case after_delivery (ie_doneDel e) (ie_after e) (ie_deliver e m) m of
              (None, st, nx) \<Rightarrow> [(next_of e nx, q, st)]
            | (Some m', st, nx) \<Rightarrow> map (\<lambda>q'. (next_of e nx, q', st)) (requeue_all e m' q)))"

text \<open>\<open>(*worker).process\<close>: one pass of its loop, with every outcome the queue allows.\<close>

definition worker_process :: "iter_env \<Rightarrow> Queue \<Rightarrow> (iter_next \<times> Queue \<times> (string \<times> string) list) list" where
  "worker_process e q =
     (if ie_done e then [(Return, q, [])]
      else concat (map (\<lambda>(d, q1).
             case d of
               DeqMsg m \<Rightarrow> process_msg e m q1
             | DeqErr err \<Rightarrow>
                 if errors_Is err Canceled \<or> errors_Is err DeadlineExceeded
                 then [(if ie_doneDeq e then Return else Loop, q1, [])]
                 else [(Loop, q1, [])])
           (Dequeue (ie_deqErr e) q)))"

section \<open>Starting and stopping\<close>

record QueueProcessor =
  workers :: "nat list"
  running :: "nat set"
  stopClosed :: bool

text \<open>A negative number of workers makes \<open>make\<close> panic (None).\<close>

definition NewQueueProcessor :: "int \<Rightarrow> QueueProcessor option" where
  "NewQueueProcessor numWorkers =
     (if numWorkers < 0 then None
      else Some \<lparr>workers = [0..<nat numWorkers], running = {}, stopClosed = False\<rparr>)"

definition processor_Start :: "QueueProcessor \<Rightarrow> QueueProcessor" where
  "processor_Start p = p\<lparr>running := running p \<union> set (workers p)\<rparr>"

text \<open>
  \<open>Stop\<close> closes the channel (a second close panics) and waits until every worker is gone; this is
  the state when the wait has ended.
\<close>

definition processor_Stop :: "QueueProcessor \<Rightarrow> QueueProcessor option" where
  "processor_Stop p = (if stopClosed p then None else Some (p\<lparr>stopClosed := True, running := {}\<rparr>))"

section \<open>The queue as the processor needs it\<close>

text \<open>
  The contract of the interface \<open>Queuer\<close>: taking a message removes it, a message put back is
  held again under the same identity, and failed calls change nothing.
\<close>

locale queuer =
  fixes Deq :: "go_error option \<Rightarrow> 'q \<Rightarrow> (deq_result \<times> 'q) list"
    and Req :: "time \<Rightarrow> time \<Rightarrow> go_error option \<Rightarrow> Message \<Rightarrow> 'q \<Rightarrow> (send_result \<times> 'q) list"
    and ids :: "'q \<Rightarrow> string multiset" and live :: "'q \<Rightarrow> bool"
  assumes deq_msg: "live q \<Longrightarrow> (DeqMsg m, q') \<in> set (Deq c q) \<Longrightarrow> ids q = add_mset (ID m) (ids q') \<and> live q'"
    and deq_err: "live q \<Longrightarrow> (DeqErr e, q') \<in> set (Deq c q) \<Longrightarrow> ids q' = ids q \<and> live q'"
    and req: "live q \<Longrightarrow> (r, q') \<in> set (Req t t' c m q) \<Longrightarrow> ids q' = add_mset (ID m) (ids q) \<and> live q'"
begin

lemma take_and_put:
  "live q \<Longrightarrow> (DeqMsg m, q1) \<in> set (Deq c q) \<Longrightarrow> (r, q2) \<in> set (Req t t' c' m' q1) \<Longrightarrow> ID m' = ID m \<Longrightarrow>
     ids q2 = ids q \<and> live q2"
  using deq_msg req by metis

end

lemma Requeue_not_closed:
  assumes "queue_inv q" "\<not> closed q" "(r, q') \<in> set (Requeue t t' c m q)"
  shows "held q' = add_mset (Requeue_msg t t' m) (held q) \<and> queue_inv q' \<and> \<not> closed q'"
proof -
  obtain q1 where q1: "Requeue_push t t' m q = Inr q1" using assms(2) by (simp add: Requeue_push_def Let_def)
  then have sel: "(r, q') \<in> set (Requeue_select c q1)" using assms(3) by (simp add: Requeue_def)
  have "closed q' = closed q1" using sel by (auto simp: Requeue_select_def split: if_splits option.splits)
  moreover have "\<not> closed q1" using q1 assms(2) by (auto simp: Requeue_push_def Let_def)
  ultimately show ?thesis using Requeue_frame [OF q1 sel] Requeue_inv [OF assms(1,3)] by simp
qed

lemma Dequeue_closed: "(r, q') \<in> set (Dequeue c q) \<Longrightarrow> closed q' = closed q"
  by (cases "readyChan q") (auto simp: Dequeue_def split: if_splits option.splits)

lemma ID_Requeue_msg [simp]: "ID (Requeue_msg t t' m) = ID m"
  by (simp add: Requeue_msg_def)

definition held_ids :: "Queue \<Rightarrow> string multiset" where
  "held_ids q = image_mset ID (held q)"

interpretation pq: queuer Dequeue Requeue held_ids "\<lambda>q. queue_inv q \<and> \<not> closed q"
proof (unfold_locales, goal_cases)
  case (1 q m q' c)
  then show ?case using Dequeue_frame [OF 1(2)] Dequeue_inv [of q] Dequeue_closed [OF 1(2)]
    by (auto simp: held_ids_def)
next
  case (2 q e q' c)
  then show ?case using Dequeue_frame [OF 2(2)] Dequeue_inv [of q] Dequeue_closed [OF 2(2)]
    by (auto simp: held_ids_def)
next
  case (3 q r q' t t' c m)
  then show ?case using Requeue_not_closed [of q r q' t t' c m] by (auto simp: held_ids_def)
qed

section \<open>Lemmas\<close>

lemma ID_retry_msg [simp]: "ID (retry_msg now m) = ID m"
  by (simp add: retry_msg_def)

lemma after_delivery_ID: "after_delivery d now err m = (Some m', st, nx) \<Longrightarrow> ID m' = ID m"
  by (auto simp: after_delivery_def split: option.splits if_splits)

text \<open>When the worker gives a message up, without having been told that it was delivered.\<close>

definition given_up :: "go_error option \<Rightarrow> Message \<Rightarrow> bool" where
  "given_up err m = (case err of None \<Rightarrow> False | Some e \<Rightarrow>
     \<not> errors_Is e Canceled \<and> \<not> errors_Is e DeadlineExceeded \<and>
     (isPermFailure (err_Error e) \<or> MaxRetries \<le> RetryCount m))"

lemma after_delivery_None:
  "after_delivery d now err m = (None, st, nx) \<Longrightarrow> err = None \<or> given_up err m"
  by (auto simp: after_delivery_def given_up_def split: option.splits if_splits)

lemma calculateRetryDelay_exact:
  assumes "1 \<le> n" "n \<le> 28"
  shows "calculateRetryDelay n = min (BaseRetryDelay * 2 ^ nat (n - 1)) MaxRetryDelay"
proof -
  have "n \<in> {1,2,3,4,5,6,7,8,9,10,11,12,13,14,15,16,17,18,19,20,21,22,23,24,25,26,27,28}"
    using assms by (simp, presburger)
  then show ?thesis
    by (elim insertE emptyE)
      (simp_all add: calculateRetryDelay_def BaseRetryDelay_def MaxRetryDelay_def Let_def push_bit_eq_mult)
qed


section \<open>Properties\<close>

lemma process_msg_ids:
  assumes live: "queue_inv q \<and> \<not> closed q" and deq: "(DeqMsg m, q1) \<in> set (Dequeue c q)"
    and out: "(nx, q', st) \<in> set (process_msg e m q1)"
  shows "queue_inv q' \<and> \<not> closed q' \<and>
     (held_ids q' = held_ids q \<or>
      NextAttemptAt m \<le> ie_now e \<and> (ie_deliver e m = None \<or> given_up (ie_deliver e m) m) \<and>
      held_ids q = add_mset (ID m) (held_ids q'))"
proof -
  have put: "held_ids q2 = held_ids q \<and> queue_inv q2 \<and> \<not> closed q2"
    if "q2 \<in> set (requeue_all e m' q1)" "ID m' = ID m" for q2 m'
    using that pq.take_and_put [OF live deq] by (force simp: requeue_all_def)
  have kept: "held_ids q = add_mset (ID m) (held_ids q1) \<and> queue_inv q1 \<and> \<not> closed q1"
    using pq.deq_msg [OF live deq] .
  obtain r st' nx' where ad: "after_delivery (ie_doneDel e) (ie_after e) (ie_deliver e m) m = (r, st', nx')"
    by (cases "after_delivery (ie_doneDel e) (ie_after e) (ie_deliver e m) m")
  show ?thesis
  proof (cases "ie_now e < NextAttemptAt m")
    case True
    then show ?thesis using out put [of _ m] by (auto simp: process_msg_def)
  next
    case False
    show ?thesis
    proof (cases r)
      case None
      then show ?thesis using False out ad kept after_delivery_None [of _ _ _ m st' nx']
        by (auto simp: process_msg_def)
    next
      case (Some m')
      then have "q' \<in> set (requeue_all e m' q1)" using False out ad by (auto simp: process_msg_def)
      then show ?thesis using put after_delivery_ID ad Some by blast
    qed
  qed
qed

lemma Dequeue_front: "(DeqMsg m, q1) \<in> set (Dequeue c q) \<Longrightarrow> \<exists>ms. readyChan q = m # ms"
  by (cases "readyChan q") (auto simp: Dequeue_def split: if_splits option.splits)

text \<open>
  A pass of a worker over an open queue loses no message: the messages held afterwards are
  those held before, except that the message at the front of the ready channel is gone when the
  deliverer reported success for it or the worker gave it up (a permanent error, or a failure,
  other than a time-out, of a message that has used its retries).
\<close>

theorem worker_conserves:
  assumes "queue_inv q" "\<not> closed q" "(nx, q', st) \<in> set (worker_process e q)"
  shows "queue_inv q' \<and> \<not> closed q' \<and>
     (held_ids q' = held_ids q \<or>
      (\<exists>m ms. readyChan q = m # ms \<and> NextAttemptAt m \<le> ie_now e \<and>
        (ie_deliver e m = None \<or> given_up (ie_deliver e m) m) \<and>
        held_ids q = add_mset (ID m) (held_ids q')))"
proof (cases "ie_done e")
  case True
  then show ?thesis using assms by (simp add: worker_process_def)
next
  case False
  have live: "queue_inv q \<and> \<not> closed q" using assms by simp
  obtain d q1 where d: "(d, q1) \<in> set (Dequeue (ie_deqErr e) q)"
    and out: "(nx, q', st) \<in> set (case d of DeqMsg m \<Rightarrow> process_msg e m q1
      | DeqErr err \<Rightarrow> if errors_Is err Canceled \<or> errors_Is err DeadlineExceeded
          then [(if ie_doneDeq e then Return else Loop, q1, [])] else [(Loop, q1, [])])"
    using assms(3) False by (auto simp: worker_process_def)
  show ?thesis
  proof (cases d)
    case (DeqMsg m)
    then show ?thesis using out d Dequeue_front process_msg_ids [OF live] by simp blast
  next
    case (DeqErr err)
    then show ?thesis using out d pq.deq_err [OF live] by (auto split: if_splits)
  qed
qed

definition sample_env :: iter_env where
  "sample_env = \<lparr>ie_done = False, ie_deqErr = None, ie_doneDeq = False, ie_now = 10,
     ie_deliver = (\<lambda>m. None), ie_doneDel = False, ie_after = 11, ie_rqNow = 12, ie_rqNow' = 12,
     ie_ctxErr = None, ie_doneEnd = False\<rparr>"

theorem worker_conserves_witness:
  "\<exists>q'. (Loop, q', [(''delivered'', ''a'')]) \<in>
       set (worker_process sample_env ((NewQueue 1)\<lparr>readyChan := [NewMessage 1 ''7'' ''a'' [] []]\<rparr>)) \<and>
     queue_inv q' \<and>
     held_ids ((NewQueue 1)\<lparr>readyChan := [NewMessage 1 ''7'' ''a'' [] []]\<rparr>) = add_mset ''7'' (held_ids q')"
proof -
  let ?m = "NewMessage 1 ''7'' ''a'' [] []"
  let ?q = "(NewQueue 1)\<lparr>readyChan := [?m]\<rparr>"
  let ?q' = "(NewQueue 1)\<lparr>QueueSizeReady := - 1\<rparr>"
  have out: "(Loop, ?q', [(''delivered'', ''a'')]) \<in> set (worker_process sample_env ?q)"
    by (simp add: worker_process_def sample_env_def Dequeue_def NewQueue_def process_msg_def NewMessage_def
        after_delivery_def next_of_def)
  have inv: "queue_inv ?q" "\<not> closed ?q" by (simp_all add: queue_inv_def NewQueue_def)
  have ids: "held_ids ?q = {#''7''#}" "held_ids ?q' = {#}"
    by (simp_all add: held_ids_def held_def NewQueue_def heap_items_def NewMessage_def)
  show ?thesis using worker_conserves [OF inv out] ids out by (intro exI [of _ ?q']) auto
qed

text \<open>The delivery ended by its time limit or with its context.\<close>

definition timed_out :: "go_error \<Rightarrow> bool" where
  "timed_out e \<longleftrightarrow> errors_Is e Canceled \<or> errors_Is e DeadlineExceeded"

lemma retry_delay:
  assumes "0 \<le> n" "n < 28"
  shows "calculateRetryDelay (n + 1) = min (2 ^ nat n * minute) (30 * minute)"
  using assms calculateRetryDelay_exact [of "n + 1"] by (simp add: BaseRetryDelay_def MaxRetryDelay_def)

lemma retry_delay_uncapped:
  assumes "0 \<le> n" "n < 5"
  shows "calculateRetryDelay (n + 1) = 2 ^ nat n * minute"
proof -
  have "(2 :: int) ^ nat n \<le> 2 ^ 4" using assms by (intro power_increasing) auto
  then show ?thesis using assms retry_delay [of n] by simp
qed

text \<open>
  C24: The retry schedule. A failure that is neither permanent nor a time-out puts the message
  back with one retry more, due 1, 2, 4, 8 and 16 minutes later for the first to the fifth
  retry; a message with five retries, or with a permanent failure, is given up. A time-out is
  retried whatever the count, due after 1, 2, 4, 8, 16 minutes and from the sixth retry on after
  the cap of 30 minutes, for the first 28 retries; when the worker's own context has ended, the
  message is put back as it is.
\<close>

theorem retry_schedule:
  assumes "0 \<le> RetryCount m" "timed_out e \<longrightarrow> \<not> d \<longrightarrow> RetryCount m < 28"
  shows "after_delivery d now (Some e) m =
     (if timed_out e
      then if d then (Some m, [], Return)
           else (Some (m\<lparr>RetryCount := RetryCount m + 1,
                         NextAttemptAt := now + min (2 ^ nat (RetryCount m) * minute) (30 * minute)\<rparr>), [], Loop)
      else (if RetryCount m < 5 \<and> \<not> Contains (ToLower (err_Error e)) ''permanent''
            then Some (m\<lparr>RetryCount := RetryCount m + 1, NextAttemptAt := now + 2 ^ nat (RetryCount m) * minute\<rparr>)
            else None, [(''delivery_failed'', From m)], CheckDone))"
proof (cases "timed_out e")
  case True
  then show ?thesis using assms retry_delay [of "RetryCount m"]
    by (auto simp: timed_out_def after_delivery_def retry_msg_def)
next
  case False
  then show ?thesis using assms(1) retry_delay_uncapped [of "RetryCount m"]
    by (auto simp: timed_out_def after_delivery_def retry_msg_def MaxRetries_def isPermFailure_def)
qed

theorem retry_schedule_witness:
  "after_delivery False 0 (Some (TextError ''busy'')) (NewMessage 0 ''7'' ''a'' [] []) =
     (Some ((NewMessage 0 ''7'' ''a'' [] [])\<lparr>RetryCount := 1, NextAttemptAt := minute\<rparr>),
      [(''delivery_failed'', ''a'')], CheckDone) \<and>
   fst (after_delivery False 0 (Some DeadlineExceeded) ((NewMessage 0 ''7'' ''a'' [] [])\<lparr>RetryCount := 5\<rparr>)) =
     Some ((NewMessage 0 ''7'' ''a'' [] [])\<lparr>RetryCount := 6, NextAttemptAt := 30 * minute\<rparr>)"
proof -
  let ?m = "NewMessage 0 ''7'' ''a'' [] []"
  have t: "\<not> timed_out (TextError ''busy'')" "\<not> Contains (ToLower (err_Error (TextError ''busy''))) ''permanent''" "timed_out DeadlineExceeded"
    by code_simp+
  have a: "0 \<le> RetryCount ?m" "0 \<le> RetryCount (?m\<lparr>RetryCount := 5\<rparr>)" "timed_out DeadlineExceeded \<longrightarrow> \<not> False \<longrightarrow> RetryCount (?m\<lparr>RetryCount := 5\<rparr>) < 28"
    by (simp_all add: NewMessage_def)
  show ?thesis
    using retry_schedule [OF a(1), of "TextError ''busy''" False 0] retry_schedule [OF a(2,3), of 0] t
    by (simp add: NewMessage_def)
qed

text \<open>
  The exponential delay stays between the base delay and the cap for the first 28 retries.
  The 29th overflows the 64-bit duration: the delay is negative, and a message that keeps
  timing out (time-outs are retried without bound) is scheduled in the past, so that Requeue
  replaces the back-off by its five seconds.
\<close>

theorem backoff_overflow:
  "calculateRetryDelay ` {1..28} \<subseteq> {BaseRetryDelay..MaxRetryDelay} \<and> calculateRetryDelay 29 < 0 \<and>
   fst (after_delivery False now (Some DeadlineExceeded) (m\<lparr>RetryCount := 28\<rparr>)) =
     Some (m\<lparr>RetryCount := 29, NextAttemptAt := now - 2340616713709551616\<rparr>) \<and>
   NextAttemptAt (Requeue_msg now now' (m\<lparr>RetryCount := 29, NextAttemptAt := now - 2340616713709551616\<rparr>)) =
     now' + 5 * second"
proof -
  have neg: "calculateRetryDelay 29 = - 2340616713709551616"
    by (simp add: calculateRetryDelay_def BaseRetryDelay_def MaxRetryDelay_def Let_def push_bit_eq_mult)
  have "calculateRetryDelay n \<in> {BaseRetryDelay..MaxRetryDelay}" if "n \<in> {1..28}" for n
  proof -
    have "(1 :: int) \<le> 2 ^ nat (n - 1)" by simp
    then have "BaseRetryDelay \<le> BaseRetryDelay * 2 ^ nat (n - 1)" by (simp add: BaseRetryDelay_def)
    then show ?thesis using that calculateRetryDelay_exact [of n]
      by (auto simp: BaseRetryDelay_def MaxRetryDelay_def)
  qed
  moreover have "fst (after_delivery False now (Some DeadlineExceeded) (m\<lparr>RetryCount := 28\<rparr>)) =
      Some (m\<lparr>RetryCount := 29, NextAttemptAt := now - 2340616713709551616\<rparr>)"
    by (simp add: after_delivery_def retry_msg_def errors_Is_def neg)
  ultimately show ?thesis using neg by (auto simp: Requeue_msg_def)
qed

end
