(* ===== verification/Pipeline.thy ===== *)
theory Pipeline
  imports Processor QueueSpec
begin

text \<open>
  Sessions, the retry scheduler and any number of workers on one queue, interleaved at every
  operation of the queue. The program runs two processors, one per server, on the same queue;
  their workers are the numbers here. A worker between \<open>Dequeue\<close> and what follows the delivery
  has a message in hand that the queue no longer holds.
\<close>

record pipeline =
  pn_queue :: Queue
  pn_accepted :: "Message list"
  pn_hand :: "(nat \<times> Message) list"
  pn_done :: "(Message \<times> go_error option) list"

definition pipeline_new :: "int \<Rightarrow> pipeline" where
  "pipeline_new n = \<lparr>pn_queue = NewQueue n, pn_accepted = [], pn_hand = [], pn_done = []\<rparr>"

text \<open>
  \<open>accept\<close>: a session's \<open>Enqueue\<close> succeeds. \<open>take\<close>, \<open>early\<close>, \<open>finish\<close>, \<open>retry\<close>: the parts of a worker's pass.
  \<open>internal\<close>: the scheduler, and calls that change nothing.
\<close>

inductive pn_step :: "pipeline \<Rightarrow> pipeline \<Rightarrow> bool" where
  accept: "(SendOk, q') \<in> set (Enqueue now c m (pn_queue s)) \<Longrightarrow>
     pn_step s (s\<lparr>pn_queue := q', pn_accepted := pn_accepted s @ [m]\<rparr>)"
| take_msg: "i \<notin> fst ` set (pn_hand s) \<Longrightarrow> (DeqMsg m, q') \<in> set (Dequeue c (pn_queue s)) \<Longrightarrow>
     pn_step s (s\<lparr>pn_queue := q', pn_hand := (i, m) # pn_hand s\<rparr>)"
| early: "(i, m) \<in> set (pn_hand s) \<Longrightarrow> now < NextAttemptAt m \<Longrightarrow> (r, q') \<in> set (Requeue t t' c m (pn_queue s)) \<Longrightarrow>
     pn_step s (s\<lparr>pn_queue := q', pn_hand := remove1 (i, m) (pn_hand s)\<rparr>)"
| finish: "(i, m) \<in> set (pn_hand s) \<Longrightarrow> after_delivery d now err m = (None, st, nx) \<Longrightarrow>
     pn_step s (s\<lparr>pn_hand := remove1 (i, m) (pn_hand s), pn_done := pn_done s @ [(m, err)]\<rparr>)"
| retry: "(i, m) \<in> set (pn_hand s) \<Longrightarrow> after_delivery d now err m = (Some m', st, nx) \<Longrightarrow>
     (r, q') \<in> set (Requeue t t' c m' (pn_queue s)) \<Longrightarrow>
     pn_step s (s\<lparr>pn_queue := q', pn_hand := remove1 (i, m) (pn_hand s)\<rparr>)"
| internal: "q_step (pn_queue s) Internal q' \<Longrightarrow> pn_step s (s\<lparr>pn_queue := q'\<rparr>)"

inductive pn_reach :: "pipeline \<Rightarrow> pipeline \<Rightarrow> bool" for s0 where
  pn_start: "pn_reach s0 s0"
| pn_next: "pn_reach s0 s \<Longrightarrow> pn_step s s' \<Longrightarrow> pn_reach s0 s'"

section \<open>Invariant\<close>

definition in_hand :: "(nat \<times> Message) list \<Rightarrow> string multiset" where
  "in_hand xs = image_mset (\<lambda>(i, m). ID m) (mset xs)"

definition finished :: "(Message \<times> go_error option) list \<Rightarrow> string multiset" where
  "finished xs = image_mset (\<lambda>(m, err). ID m) (mset xs)"

lemma in_hand_simps [simp]:
  "in_hand [] = {#}" "in_hand ((i, m) # xs) = add_mset (ID m) (in_hand xs)"
  "finished [] = {#}" "finished (ys @ [(m, err)]) = add_mset (ID m) (finished ys)"
  by (simp_all add: in_hand_def finished_def)

definition pn_ok :: "pipeline \<Rightarrow> bool" where
  "pn_ok s \<longleftrightarrow> queue_inv (pn_queue s) \<and> \<not> closed (pn_queue s) \<and> distinct (map fst (pn_hand s)) \<and>
     image_mset ID (mset (pn_accepted s)) = held_ids (pn_queue s) + in_hand (pn_hand s) + finished (pn_done s) \<and>
     list_all (\<lambda>(m, err). err = None \<or> given_up err m) (pn_done s)"

lemma in_hand_remove: "(i, m) \<in> set xs \<Longrightarrow> in_hand xs = add_mset (ID m) (in_hand (remove1 (i, m) xs))"
  by (induction xs) (auto simp: in_hand_def)

lemma distinct_remove1_fst: "distinct (map fst xs) \<Longrightarrow> distinct (map fst (remove1 x xs))"
  by (metis distinct_map distinct_remove1 inj_on_subset set_remove1_subset)

lemma Enqueue_accept:
  assumes "(SendOk, q') \<in> set (Enqueue now c m q)" "queue_inv q" "\<not> closed q"
  shows "queue_inv q' \<and> \<not> closed q' \<and> held_ids q' = add_mset (ID m) (held_ids q)"
proof -
  let ?m = "if IsZero (NextAttemptAt m) then m\<lparr>NextAttemptAt := now\<rparr> else m"
  have sel: "(SendOk, q') \<in> set (Enqueue_select c ?m q)" using assms(1,3) by (simp add: Enqueue_def Enqueue_check_def)
  have "closed q' = closed q" using sel by (auto simp: Enqueue_select_def split: if_splits option.splits)
  moreover have "ID ?m = ID m" by simp
  ultimately show ?thesis using Enqueue_select_frame [OF sel assms(2)] assms(3) by (simp add: held_ids_def)
qed

lemma Internal_ids:
  assumes "q_step q Internal q'" "queue_inv q" "\<not> closed q"
  shows "queue_inv q' \<and> \<not> closed q' \<and> held_ids q' = held_ids q"
proof -
  have "closed q' = closed q" using assms(1)
  proof (cases rule: q_step.cases)
    case (promote now choices)
    then show ?thesis using promote_frame by simp
  next
    case (dequeue_err e c)
    then show ?thesis using Dequeue_closed by blast
  next
    case (enqueue_err e c m')
    then show ?thesis by (auto simp: Enqueue_select_def split: if_splits option.splits)
  qed (auto simp: getNextRetryDelay_def)
  then show ?thesis using q_step_inv [OF assms(1,2)] q_step_held [OF assms(1,2)] assms(3) by (simp add: held_ids_def)
qed

lemma pn_put_back:
  assumes "pn_ok s" "(i, m) \<in> set (pn_hand s)" "(r, q') \<in> set (Requeue t t' c m' (pn_queue s))" "ID m' = ID m"
  shows "pn_ok (s\<lparr>pn_queue := q', pn_hand := remove1 (i, m) (pn_hand s)\<rparr>)"
proof -
  have "held_ids q' = add_mset (ID m) (held_ids (pn_queue s)) \<and> queue_inv q' \<and> \<not> closed q'"
    using pq.req [OF _ assms(3)] assms(1,4) by (simp add: pn_ok_def)
  then show ?thesis using assms(1) in_hand_remove [OF assms(2)]
    by (simp add: pn_ok_def distinct_remove1_fst)
qed

lemma pn_step_ok: "pn_step s s' \<Longrightarrow> pn_ok s \<Longrightarrow> pn_ok s'"
proof (induction rule: pn_step.induct)
  case (accept q' now c m s)
  then show ?case using Enqueue_accept [OF accept.hyps] by (simp add: pn_ok_def)
next
  case (take_msg i s m q' c)
  then have "held_ids (pn_queue s) = add_mset (ID m) (held_ids q') \<and> queue_inv q' \<and> \<not> closed q'"
    using pq.deq_msg [OF _ take_msg.hyps(2)] by (simp add: pn_ok_def)
  then show ?case using take_msg by (simp add: pn_ok_def)
next
  case (early i m s now r q' t t' c)
  then show ?case using pn_put_back [of s i m r q' t t' c m] by simp
next
  case (finish i m s d now err st nx)
  then show ?case using in_hand_remove [OF finish.hyps(1)] after_delivery_None [OF finish.hyps(2)]
    by (simp add: pn_ok_def distinct_remove1_fst)
next
  case (retry i m s d now err m' st nx r q' t t' c)
  then show ?case using pn_put_back [of s i m r q' t t' c m'] after_delivery_ID [OF retry.hyps(2)] by simp
next
  case (internal s q')
  then show ?case using Internal_ids [OF internal.hyps] by (simp add: pn_ok_def)
qed

lemma pn_reach_ok: "pn_reach s0 s \<Longrightarrow> pn_ok s0 \<Longrightarrow> pn_ok s"
  by (induction rule: pn_reach.induct) (auto intro: pn_step_ok)

lemma pipeline_new_ok: "pn_ok (pipeline_new n)"
  using NewQueue_inv [of n] by (simp add: pn_ok_def pipeline_new_def held_ids_def held_def) (simp add: NewQueue_def)

section \<open>Properties\<close>

text \<open>
  C4: No accepted message is lost or worked on twice. With any number of sessions and workers
  and the scheduler on one open queue, interleaved in any way: the accepted messages are, one
  for one, those in the queue, those in the hands of workers and those that are finished; a
  worker has one message at a time; and a message is finished only when the deliverer reported
  success for it or when it was given up. So with distinct identifiers no message is in two
  places at once.
\<close>

theorem pipeline_conservation:
  assumes "pn_reach (pipeline_new n) s"
  shows "mset (map ID (pn_accepted s)) =
      held_ids (pn_queue s) + mset (map (\<lambda>(i, m). ID m) (pn_hand s)) + mset (map (\<lambda>(m, err). ID m) (pn_done s)) \<and>
    distinct (map fst (pn_hand s)) \<and> list_all (\<lambda>(m, err). err = None \<or> given_up err m) (pn_done s)"
  using pn_reach_ok [OF assms pipeline_new_ok] by (simp add: pn_ok_def in_hand_def finished_def)

theorem pipeline_conservation_witness:
  "\<exists>s. pn_reach (pipeline_new 2) s \<and> map fst (pn_hand s) = [3] \<and> mset (map ID (pn_accepted s)) = {#''1''#} \<and>
     held_ids (pn_queue s) = {#}"
proof -
  let ?m = "sample_msg ''1'' 5"
  let ?q0 = "NewQueue 2"
  let ?q1 = "?q0\<lparr>readyChan := [?m], QueueSizeReady := 1\<rparr>"
  let ?q2 = "?q1\<lparr>readyChan := [], QueueSizeReady := 0\<rparr>"
  let ?s1 = "(pipeline_new 2)\<lparr>pn_queue := ?q1, pn_accepted := [?m]\<rparr>"
  let ?s2 = "?s1\<lparr>pn_queue := ?q2, pn_hand := [(3, ?m)]\<rparr>"
  have "pn_step (pipeline_new 2) ?s1"
    using pn_step.accept [of ?q1 7 None ?m "pipeline_new 2"]
    by (simp add: Enqueue_def Enqueue_check_def Enqueue_select_def NewQueue_def pipeline_new_def sample_msg_def IsZero_def)
  moreover have "pn_step ?s1 ?s2"
    using pn_step.take_msg [of 3 ?s1 ?m ?q2 None] by (simp add: Dequeue_def NewQueue_def pipeline_new_def)
  ultimately have r: "pn_reach (pipeline_new 2) ?s2" by (blast intro: pn_start pn_next)
  have "ID ?m = ''1''" by (simp add: sample_msg_def)
  then show ?thesis using r pipeline_conservation [OF r]
    by (intro exI [of _ ?s2]) (auto simp: pipeline_new_def)
qed

end
