(* ===== verification/NetIO.thy ===== *)
theory NetIO
  imports GoErrors
begin

text \<open>
  Connections as the sessions see them. A peer's bytes arrive in chunks, as successive reads
  of the socket return them, and the input ends with a read error (end of file, reset or an
  expired deadline). \<open>bufio.Reader\<close> is modelled with its buffer and its size, so that what
  is still buffered is explicit. Every operation that can fail on the socket (a write, a
  flush, setting a deadline) takes its outcome from a list of outcomes; when the list is
  used up they succeed.
\<close>

section \<open>Lines of a byte stream\<close>

text \<open>The first line of a stream, with its line feed, and what follows it.\<close>

fun split_line :: "string \<Rightarrow> (string \<times> string) option" where
  "split_line [] = None"
| "split_line (c # s) =
     (if c = LF then Some ([c], s)
      else (case split_line s of None \<Rightarrow> None | Some (l, r) \<Rightarrow> Some (c # l, r)))"

lemma split_line_None: "split_line s = None \<longleftrightarrow> LF \<notin> set s"
  by (induction s) (auto split: option.splits)

lemma split_line_Some: "split_line s = Some (l, r) \<Longrightarrow> s = l @ r \<and> l \<noteq> [] \<and> last l = LF"
  by (induction s arbitrary: l r) (auto split: if_splits option.splits)

lemma split_line_butlast: "split_line s = Some (l, r) \<Longrightarrow> LF \<notin> set (butlast l)"
proof (induction s arbitrary: l r)
  case (Cons c s)
  show ?case
  proof (cases "c = LF")
    case False
    with Cons.prems obtain l' where l': "split_line s = Some (l', r)" "l = c # l'"
      by (auto split: option.splits)
    then have "LF \<notin> set (butlast l')" using Cons.IH by blast
    then show ?thesis using False l' by simp
  qed (use Cons.prems in auto)
qed simp

lemma split_line_append: "split_line s = Some (l, r) \<Longrightarrow> split_line (s @ t) = Some (l, r @ t)"
  by (induction s arbitrary: l r) (auto split: if_splits option.splits)

lemma split_line_intro: "LF \<notin> set a \<Longrightarrow> split_line (a @ LF # b) = Some (a @ [LF], b)"
  by (induction a) auto

section \<open>Buffered reading\<close>

text \<open>
  The outcome of \<open>ReadSlice\<close>: a line with its line feed, the whole of a full buffer without
  one (\<open>ErrBufferFull\<close>), or a read error after the bytes that had arrived.
\<close>

datatype read_result = Line string | Full string | Failed string

text \<open>\<open>(*bufio.Reader).ReadSlice\<close> with a buffer of \<open>n\<close> bytes.\<close>

function read_slice :: "nat \<Rightarrow> string \<Rightarrow> string list \<Rightarrow> read_result \<times> string \<times> string list" where
  "read_slice n buf ch =
     (case split_line buf of
        Some (l, r) \<Rightarrow> (Line l, r, ch)
      | None \<Rightarrow>
          if n \<le> length buf then (Full buf, [], ch)
          else (case ch of
                  [] \<Rightarrow> (Failed buf, [], [])
                | c # cs \<Rightarrow>
                    (let k = n - length buf
                     in read_slice n (buf @ take k c)
                          (if length c \<le> k then cs else drop k c # cs))))"
  by pat_completeness auto
termination
  by (relation "measures [\<lambda>(n, buf, ch). length (concat ch), \<lambda>(n, buf, ch). length ch]") auto

declare read_slice.simps [simp del]

lemma read_slice_step:
  "split_line buf = Some (l, r) \<Longrightarrow> read_slice n buf ch = (Line l, r, ch)"
  "split_line buf = None \<Longrightarrow> n \<le> length buf \<Longrightarrow> read_slice n buf ch = (Full buf, [], ch)"
  "split_line buf = None \<Longrightarrow> \<not> n \<le> length buf \<Longrightarrow> read_slice n buf [] = (Failed buf, [], [])"
  "split_line buf = None \<Longrightarrow> \<not> n \<le> length buf \<Longrightarrow>
     read_slice n buf (c # cs) = read_slice n (buf @ take (n - length buf) c)
       (if length c \<le> n - length buf then cs else drop (n - length buf) c # cs)"
  by (subst read_slice.simps, simp add: Let_def)+

fun read_data :: "read_result \<Rightarrow> string" where
  "read_data (Line l) = l"
| "read_data (Full d) = d"
| "read_data (Failed d) = d"

text \<open>
  What \<open>ReadSlice\<close> guarantees: no byte is lost, a line ends at the first line feed, a full
  buffer holds none, and a failed read has used up the input.
\<close>

definition read_slice_post ::
  "nat \<Rightarrow> string \<Rightarrow> string list \<Rightarrow> read_result \<times> string \<times> string list \<Rightarrow> bool" where
  "read_slice_post n buf ch = (\<lambda>(res, buf', ch').
     read_data res @ buf' @ concat ch' = buf @ concat ch \<and>
     (case res of
        Line l \<Rightarrow> l \<noteq> [] \<and> last l = LF \<and> LF \<notin> set (butlast l) \<and> length (l @ buf') \<le> max n (length buf)
      | Full d \<Rightarrow> n \<le> length d \<and> LF \<notin> set d \<and> buf' = []
      | Failed d \<Rightarrow> LF \<notin> set d \<and> buf' = [] \<and> ch' = [] \<and> length d \<le> max n (length buf)))"

lemma read_slice_correct: "read_slice_post n buf ch (read_slice n buf ch)"
proof (induction n buf ch rule: read_slice.induct)
  case (1 n buf ch)
  consider (line) l r where "split_line buf = Some (l, r)"
    | (full) "split_line buf = None" "n \<le> length buf"
    | (fail) "split_line buf = None" "\<not> n \<le> length buf" "ch = []"
    | (more) c cs where "split_line buf = None" "\<not> n \<le> length buf" "ch = c # cs"
    by (cases "split_line buf"; cases ch) auto
  then show ?case
  proof cases
    case line
    then show ?thesis using split_line_Some [OF line] split_line_butlast [OF line]
      by (auto simp: read_slice_step read_slice_post_def)
  next
    case more
    have "read_slice_post n (buf @ take (n - length buf) c)
        (if length c \<le> n - length buf then cs else drop (n - length buf) c # cs) (read_slice n buf ch)"
      using "1.IH" [OF more refl] by (simp add: more read_slice_step)
    moreover have "length (buf @ take (n - length buf) c) \<le> n" using more by simp
    ultimately show ?thesis
      by (auto simp: read_slice_post_def more max_def split: if_splits read_result.splits)
  qed (auto simp: read_slice_step read_slice_post_def split_line_None)
qed

text \<open>How the bytes were cut into chunks does not matter to a line that fits the buffer.\<close>

lemma split_line_unique:
  assumes "l \<noteq> []" "last l = LF" "LF \<notin> set (butlast l)"
  shows "split_line (l @ r) = Some (l, r)"
proof -
  have "l @ r = butlast l @ LF # r"
    using assms by (metis append_Cons append_butlast_last_id append_self_conv2 append_assoc)
  then show ?thesis using assms split_line_intro [of "butlast l" r]
    by (metis append_butlast_last_id)
qed

lemma no_LF_prefix:
  assumes "split_line s = Some (l, r)" "s = d @ t" "LF \<notin> set d"
  shows "length d < length l"
proof (rule ccontr)
  assume "\<not> length d < length l"
  moreover have "s = l @ r" using split_line_Some assms(1) by blast
  ultimately have "\<exists>u. d = l @ u" using assms(2) by (metis append_eq_append_conv_if append_take_drop_id not_less)
  then have "LF \<in> set d" using split_line_Some [OF assms(1)] last_in_set [of l] by auto
  then show False using assms(3) by simp
qed

lemma read_slice_stream:
  assumes "split_line (buf @ concat ch) = Some (l, r)" "length l \<le> n"
  shows "\<exists>b' ch'. read_slice n buf ch = (Line l, b', ch') \<and> b' @ concat ch' = r"
proof -
  obtain res b' ch' where eq: "read_slice n buf ch = (res, b', ch')" by (cases "read_slice n buf ch") auto
  have post: "read_slice_post n buf ch (res, b', ch')" using read_slice_correct [of n buf ch] eq by simp
  then have cons: "buf @ concat ch = read_data res @ b' @ concat ch'" by (auto simp: read_slice_post_def)
  show ?thesis
  proof (cases res)
    case (Line l')
    then have "split_line (buf @ concat ch) = Some (l', b' @ concat ch')"
      using split_line_unique post cons by (auto simp: read_slice_post_def)
    then show ?thesis using assms(1) eq Line by simp
  next
    case (Full d)
    then have "length d < length l" using no_LF_prefix [OF assms(1) cons] post
      by (auto simp: read_slice_post_def)
    then show ?thesis using post Full assms(2) by (auto simp: read_slice_post_def)
  next
    case (Failed d)
    then have "LF \<notin> set (buf @ concat ch)" using post cons by (auto simp: read_slice_post_def)
    then have "split_line (buf @ concat ch) = None" by (simp only: split_line_None not_False_eq_True)
    then show ?thesis using assms(1) by simp
  qed
qed

lemma read_slice_Full_less:
  assumes "(Full d, b, c) = read_slice (Suc n) buf ch"
  shows "length b + length (concat c) < length buf + length (concat ch)"
proof -
  have "read_slice_post (Suc n) buf ch (Full d, b, c)"
    using read_slice_correct [of "Suc n" buf ch] assms by simp
  then have "length (d @ b @ concat c) = length (buf @ concat ch)" "Suc n \<le> length d"
    unfolding read_slice_post_def by (auto simp del: length_append length_concat)
  then show ?thesis by simp
qed

text \<open>
  \<open>ReadBytes\<close> and \<open>ReadString\<close> up to a line feed: full buffers are collected until the line
  feed comes; None is a read error. A buffer has at least one byte.
\<close>

function read_bytes :: "nat \<Rightarrow> string \<Rightarrow> string \<Rightarrow> string list \<Rightarrow> string option \<times> string \<times> string list" where
  "read_bytes n acc buf ch =
     (case read_slice (Suc n) buf ch of
        (Line l, b, c) \<Rightarrow> (Some (acc @ l), b, c)
      | (Full d, b, c) \<Rightarrow> read_bytes n (acc @ d) b c
      | (Failed d, b, c) \<Rightarrow> (None, b, c))"
  by pat_completeness auto
termination
  by (relation "measure (\<lambda>(n, acc, buf, ch). length buf + length (concat ch))")
    (auto dest!: read_slice_Full_less)

declare read_bytes.simps [simp del]

definition read_bytes_post ::
  "string \<Rightarrow> string \<Rightarrow> string list \<Rightarrow> string option \<times> string \<times> string list \<Rightarrow> bool" where
  "read_bytes_post acc buf ch = (\<lambda>(res, b, c).
     (case split_line (buf @ concat ch) of
        Some (l, r) \<Rightarrow> res = Some (acc @ l) \<and> b @ concat c = r
      | None \<Rightarrow> res = None \<and> b = [] \<and> c = []))"

lemma split_line_skip: "LF \<notin> set d \<Longrightarrow>
  split_line (d @ s) = (case split_line s of None \<Rightarrow> None | Some (l, r) \<Rightarrow> Some (d @ l, r))"
  by (induction d) (auto split: option.splits)

text \<open>\<open>ReadBytes\<close> returns the first line of the stream, however it was cut into chunks.\<close>

lemma read_bytes_correct: "read_bytes_post acc buf ch (read_bytes n acc buf ch)"
proof (induction n acc buf ch rule: read_bytes.induct)
  case (1 n acc buf ch)
  obtain res b c where eq: "read_slice (Suc n) buf ch = (res, b, c)"
    by (cases "read_slice (Suc n) buf ch") auto
  have post: "read_slice_post (Suc n) buf ch (res, b, c)"
    using read_slice_correct [of "Suc n" buf ch] eq by simp
  then have cons: "buf @ concat ch = read_data res @ b @ concat c" by (auto simp: read_slice_post_def)
  show ?case
  proof (cases res)
    case (Line l)
    then have "split_line (buf @ concat ch) = Some (l, b @ concat c)"
      using split_line_unique post cons by (auto simp: read_slice_post_def)
    then show ?thesis by (subst read_bytes.simps) (simp add: eq Line read_bytes_post_def)
  next
    case (Full d)
    then have d: "LF \<notin> set d" "buf @ concat ch = d @ (b @ concat c)"
      using post cons by (auto simp: read_slice_post_def)
    have "read_bytes_post (acc @ d) b c (read_bytes n (acc @ d) b c)"
      using "1.IH" eq Full by metis
    moreover have "read_bytes n acc buf ch = read_bytes n (acc @ d) b c"
      by (subst read_bytes.simps) (simp add: eq Full)
    ultimately show ?thesis
      by (auto simp: read_bytes_post_def d(2) split_line_skip [OF d(1)] split: option.splits)
  next
    case (Failed d)
    then have "split_line (buf @ concat ch) = None" "b = []" "c = []"
      using post cons by (auto simp: read_slice_post_def split_line_None)
    then show ?thesis by (subst read_bytes.simps) (simp add: eq Failed read_bytes_post_def)
  qed
qed

section \<open>Connections\<close>

record conn =
  rd_buf :: string
  rd_in :: "string list"
  outcomes :: "bool list"
  sent :: "string list"

abbreviation pending :: "conn \<Rightarrow> string" where
  "pending c \<equiv> rd_buf c @ concat (rd_in c)"

definition new_conn :: "string list \<Rightarrow> conn" where
  "new_conn ch = \<lparr>rd_buf = [], rd_in = ch, outcomes = [], sent = []\<rparr>"

text \<open>One operation on the socket: whether it succeeds.\<close>

definition sys_op :: "conn \<Rightarrow> bool \<times> conn" where
  "sys_op c = (case outcomes c of [] \<Rightarrow> (True, c) | b # bs \<Rightarrow> (b, c\<lparr>outcomes := bs\<rparr>))"

definition conn_write :: "string \<Rightarrow> conn \<Rightarrow> bool \<times> conn" where
  "conn_write s c = (let (ok, c') = sys_op c in (ok, if ok then c'\<lparr>sent := sent c' @ [s]\<rparr> else c'))"

definition conn_ReadBytes :: "nat \<Rightarrow> conn \<Rightarrow> string option \<times> conn" where
  "conn_ReadBytes n c =
     (let (res, b, ch) = read_bytes (n - 1) [] (rd_buf c) (rd_in c)
      in (res, c\<lparr>rd_buf := b, rd_in := ch\<rparr>))"

definition conn_ReadSlice :: "nat \<Rightarrow> conn \<Rightarrow> string option \<times> conn" where
  "conn_ReadSlice n c =
     (let (res, b, ch) = read_slice n (rd_buf c) (rd_in c)
      in (case res of Line l \<Rightarrow> Some l | _ \<Rightarrow> None, c\<lparr>rd_buf := b, rd_in := ch\<rparr>))"

lemma sys_op_frame [simp]:
  "rd_buf (snd (sys_op c)) = rd_buf c" "rd_in (snd (sys_op c)) = rd_in c"
  "sent (snd (sys_op c)) = sent c"
  by (simp_all add: sys_op_def split: list.splits)

lemma conn_write_frame [simp]:
  "rd_buf (snd (conn_write s c)) = rd_buf c" "rd_in (snd (conn_write s c)) = rd_in c"
  by (simp_all add: conn_write_def case_prod_beta Let_def)

lemma sent_conn_write:
  "sent (snd (conn_write s c)) = (if fst (conn_write s c) then sent c @ [s] else sent c)"
  by (simp add: conn_write_def case_prod_beta Let_def)

lemma conn_read_frame [simp]:
  "sent (snd (conn_ReadBytes n c)) = sent c" "outcomes (snd (conn_ReadBytes n c)) = outcomes c"
  "sent (snd (conn_ReadSlice n c)) = sent c" "outcomes (snd (conn_ReadSlice n c)) = outcomes c"
  by (simp_all add: conn_ReadBytes_def conn_ReadSlice_def case_prod_beta Let_def)

text \<open>A line read is the first line of the input still to come, and is not empty.\<close>

lemma conn_ReadBytes_stream:
  fixes n c
  shows "(case split_line (pending c) of
      Some (l, r) \<Rightarrow> fst (conn_ReadBytes n c) = Some l \<and> pending (snd (conn_ReadBytes n c)) = r
    | None \<Rightarrow> fst (conn_ReadBytes n c) = None \<and> pending (snd (conn_ReadBytes n c)) = [])"
  using read_bytes_correct [of "[]" "rd_buf c" "rd_in c" "n - 1"]
  by (auto simp: conn_ReadBytes_def read_bytes_post_def case_prod_beta Let_def split: option.splits)

lemma conn_ReadBytes_Some:
  "conn_ReadBytes n c = (Some l, c') \<Longrightarrow> pending c = l @ pending c' \<and> l \<noteq> [] \<and> last l = LF"
  using conn_ReadBytes_stream [of n c] split_line_Some [of "pending c"]
  by (auto split: option.splits)

lemma conn_ReadSlice_Some:
  "conn_ReadSlice n c = (Some l, c') \<Longrightarrow> pending c = l @ pending c' \<and> l \<noteq> [] \<and> last l = LF"
  using read_slice_correct [of n "rd_buf c" "rd_in c"]
  by (auto simp: conn_ReadSlice_def read_slice_post_def case_prod_beta Let_def split: read_result.splits)

lemma conn_ReadSlice_stream:
  assumes "split_line (pending c) = Some (l, r)" "length l \<le> n"
  shows "fst (conn_ReadSlice n c) = Some l \<and> pending (snd (conn_ReadSlice n c)) = r"
  using read_slice_stream [OF assms] by (auto simp: conn_ReadSlice_def)

lemma conn_ReadBytes_less:
  "conn_ReadBytes n c = (Some l, c') \<Longrightarrow> length (pending c') < length (pending c)"
  using conn_ReadBytes_Some [of n c l c'] by auto

lemma conn_ReadSlice_less:
  "conn_ReadSlice n c = (Some l, c') \<Longrightarrow> length (pending c') < length (pending c)"
  using conn_ReadSlice_Some [of n c l c'] by auto

end
