(* ===== verification/PluginAPI.thy ===== *)
theory PluginAPI
  imports GoErrors
begin

text \<open>
  The plugin interface of \<open>pkg/plugin/plugin.go\<close> and the manager of
  \<open>pkg/plugin/manager.go\<close>. A hook may read and change state of its own (a rate limiter
  counts, a checker asks the resolver), so hooks are functions on a world \<open>'w\<close> that the
  caller threads through them; the type of the world is chosen by the configuration that
  uses them. Contexts carry the values that \<open>context.WithValue\<close> put there.
\<close>

section \<open>Addresses and contexts\<close>

text \<open>A \<open>net.Addr\<close>: the IP (nil is None) of a TCP or IP address, and its text.\<close>

datatype net_addr =
    TCPAddr "8 word list option" (addr_String: string)
  | IPAddr "8 word list option" (addr_String: string)
  | OtherAddr (addr_String: string)

datatype SPFResult = Pass | Fail | SoftFail | Neutral | TempError | PermError | NoneResult

record StoredSPFResult =
  spf_Result :: SPFResult
  spf_Domain :: string

record Verification =
  v_Domain :: string
  v_Err :: "go_error option"

text \<open>
  Context keys are compared with their type: the session uses plain strings, package
  \<open>internal/ctxkeys\<close> its own type. The two DKIM libraries in use have distinct
  verification types.
\<close>

datatype ctx_key = StringKey string | ContextKey string

datatype ctx_val =
    StringVal string
  | SPFVal StoredSPFResult
  | MsgauthVerifications "Verification list"
  | GoDkimVerifications "Verification list"

type_synonym ctx = "(ctx_key \<times> ctx_val) list"

definition Background :: ctx where
  "Background = []"

definition WithValue :: "ctx \<Rightarrow> ctx_key \<Rightarrow> ctx_val \<Rightarrow> ctx" where
  "WithValue c k v = (k, v) # c"

definition ctx_Value :: "ctx \<Rightarrow> ctx_key \<Rightarrow> ctx_val option" where
  "ctx_Value c k = map_of c k"

definition SPFResultKey :: ctx_key where
  "SPFResultKey = ContextKey ''spfResult''"

definition DKIMResultsKey :: ctx_key where
  "DKIMResultsKey = ContextKey ''dkimResults''"

lemma ctx_Value_WithValue [simp]:
  "ctx_Value (WithValue c k v) k' = (if k' = k then Some v else ctx_Value c k')"
  by (simp add: ctx_Value_def WithValue_def)

lemma ctx_Value_Background [simp]: "ctx_Value Background k = None"
  by (simp add: ctx_Value_def Background_def)

section \<open>The plugin interface\<close>

record SessionInfo =
  si_SessionID :: string
  si_RemoteAddr :: "net_addr option"
  si_LocalAddr :: string
  si_IsTLS :: bool
  si_HeloDomain :: string
  si_Username :: string

record MessageInfo =
  mi_From :: string
  mi_To :: "string list"
  mi_Data :: string

record 'w plugin =
  pl_Name :: string
  OnConnect :: "ctx \<Rightarrow> SessionInfo \<Rightarrow> 'w \<Rightarrow> go_error option \<times> 'w"
  OnHelo :: "ctx \<Rightarrow> SessionInfo \<Rightarrow> string \<Rightarrow> 'w \<Rightarrow> go_error option \<times> 'w"
  OnMailFrom :: "ctx \<Rightarrow> SessionInfo \<Rightarrow> string \<Rightarrow> 'w \<Rightarrow> go_error option \<times> 'w"
  OnRcptTo :: "ctx \<Rightarrow> SessionInfo \<Rightarrow> string \<Rightarrow> 'w \<Rightarrow> go_error option \<times> 'w"
  OnData :: "ctx \<Rightarrow> SessionInfo \<Rightarrow> 'w \<Rightarrow> go_error option \<times> 'w"
  OnMessage :: "ctx \<Rightarrow> SessionInfo \<Rightarrow> MessageInfo \<Rightarrow> 'w \<Rightarrow> go_error option \<times> 'w"
  OnDisconnect :: "ctx \<Rightarrow> SessionInfo \<Rightarrow> 'w \<Rightarrow> 'w"

text \<open>\<open>BasePlugin\<close> accepts every command; other plugins override some of its hooks.\<close>

definition BasePlugin :: "'w plugin" where
  "BasePlugin =
     \<lparr>pl_Name = ''BasePlugin'',
      OnConnect = (\<lambda>_ _ w. (None, w)),
      OnHelo = (\<lambda>_ _ _ w. (None, w)),
      OnMailFrom = (\<lambda>_ _ _ w. (None, w)),
      OnRcptTo = (\<lambda>_ _ _ w. (None, w)),
      OnData = (\<lambda>_ _ w. (None, w)),
      OnMessage = (\<lambda>_ _ _ w. (None, w)),
      OnDisconnect = (\<lambda>_ _ w. w)\<rparr>"

lemma BasePlugin_accepts [simp]:
  "OnConnect BasePlugin c i w = (None, w)" "OnHelo BasePlugin c i d w = (None, w)"
  "OnMailFrom BasePlugin c i d w = (None, w)" "OnRcptTo BasePlugin c i d w = (None, w)"
  "OnData BasePlugin c i w = (None, w)" "OnMessage BasePlugin c i m w = (None, w)"
  "OnDisconnect BasePlugin c i w = w"
  by (simp_all add: BasePlugin_def)

section \<open>The loop over the plugins\<close>

text \<open>
  The loop that the manager and the session run at every hook: plugins in order, stopping at
  the first that returns an error. The plugin that rejected is returned with its error.
\<close>

fun first_reject ::
  "('w plugin \<Rightarrow> 'w \<Rightarrow> go_error option \<times> 'w) \<Rightarrow> 'w plugin list \<Rightarrow> 'w \<Rightarrow> (string \<times> go_error) option \<times> 'w"
where
  "first_reject hook [] w = (None, w)"
| "first_reject hook (p # ps) w =
     (case hook p w of
        (Some e, w') \<Rightarrow> (Some (pl_Name p, e), w')
      | (None, w') \<Rightarrow> first_reject hook ps w')"

definition first_error ::
  "('w plugin \<Rightarrow> 'w \<Rightarrow> go_error option \<times> 'w) \<Rightarrow> 'w plugin list \<Rightarrow> 'w \<Rightarrow> go_error option \<times> 'w"
where
  "first_error hook ps w = (let (r, w') = first_reject hook ps w in (map_option snd r, w'))"

section \<open>The manager\<close>

record 'w Manager =
  mg_plugins :: "'w plugin list"

definition NewManager :: "'w Manager" where
  "NewManager = \<lparr>mg_plugins = []\<rparr>"

definition Register :: "'w Manager \<Rightarrow> 'w plugin \<Rightarrow> 'w Manager" where
  "Register m p = m\<lparr>mg_plugins := mg_plugins m @ [p]\<rparr>"

definition Plugins :: "'w Manager \<Rightarrow> 'w plugin list" where
  "Plugins m = mg_plugins m"

definition ExecuteOnConnect where
  "ExecuteOnConnect m c i w = first_error (\<lambda>p. OnConnect p c i) (mg_plugins m) w"

definition ExecuteOnHelo where
  "ExecuteOnHelo m c i heloDomain w = first_error (\<lambda>p. OnHelo p c i heloDomain) (mg_plugins m) w"

definition ExecuteOnMailFrom where
  "ExecuteOnMailFrom m c i from w = first_error (\<lambda>p. OnMailFrom p c i from) (mg_plugins m) w"

definition ExecuteOnRcptTo where
  "ExecuteOnRcptTo m c i rcptTo w = first_error (\<lambda>p. OnRcptTo p c i rcptTo) (mg_plugins m) w"

definition ExecuteOnData where
  "ExecuteOnData m c i w = first_error (\<lambda>p. OnData p c i) (mg_plugins m) w"

definition ExecuteOnMessage where
  "ExecuteOnMessage m c i msg w = first_error (\<lambda>p. OnMessage p c i msg) (mg_plugins m) w"

definition ExecuteOnDisconnect where
  "ExecuteOnDisconnect m c i w = fold (\<lambda>p. OnDisconnect p c i) (mg_plugins m) w"

lemmas manager_defs =
  ExecuteOnConnect_def ExecuteOnHelo_def ExecuteOnMailFrom_def ExecuteOnRcptTo_def
  ExecuteOnData_def ExecuteOnMessage_def

section \<open>What the loop guarantees\<close>

lemma first_reject_append:
  "first_reject hook (ps @ qs) w =
     (case first_reject hook ps w of
        (None, w') \<Rightarrow> first_reject hook qs w'
      | (Some r, w') \<Rightarrow> (Some r, w'))"
  by (induction ps arbitrary: w) (auto split: prod.splits option.splits)

lemma first_reject_Some:
  assumes "first_reject hook ps w = (Some (n, e), w')"
  shows "\<exists>as p bs w1. ps = as @ p # bs \<and> first_reject hook as w = (None, w1) \<and>
           hook p w1 = (Some e, w') \<and> pl_Name p = n"
  using assms
proof (induction ps arbitrary: w)
  case (Cons p ps)
  obtain r w2 where hp: "hook p w = (r, w2)" by (cases "hook p w") auto
  show ?case
  proof (cases r)
    case (Some e')
    then show ?thesis using Cons.prems hp by (intro exI [of _ "[]"]) auto
  next
    case None
    then have "first_reject hook ps w2 = (Some (n, e), w')" using Cons.prems hp by simp
    from Cons.IH [OF this] obtain as q bs w1 where "ps = as @ q # bs"
      "first_reject hook as w2 = (None, w1)" "hook q w1 = (Some e, w')" "pl_Name q = n"
      by blast
    then show ?thesis using hp None by (intro exI [of _ "p # as"]) auto
  qed
qed simp

text \<open>A property of the world that every hook keeps is kept by the loop.\<close>

lemma first_reject_preserves:
  assumes "\<And>p w. p \<in> set ps \<Longrightarrow> P w \<Longrightarrow> P (snd (hook p w))" and "P w"
  shows "P (snd (first_reject hook ps w))"
  using assms
proof (induction ps arbitrary: w)
  case (Cons p ps)
  have step: "P (snd (hook p w))" using Cons.prems by simp
  show ?case
  proof (cases "hook p w")
    case (Pair r w')
    then show ?thesis using step Cons.IH [of w'] Cons.prems(1)
      by (cases r) auto
  qed
qed simp

text \<open>
  An invariant of the world under a list of plugins: what the clients of the interface (the
  manager and the session) rely on. The locale's lemmas carry it through every hook.
\<close>

locale plugin_invariant =
  fixes plugins :: "'w plugin list" and I :: "'w \<Rightarrow> bool"
  assumes connect: "p \<in> set plugins \<Longrightarrow> I w \<Longrightarrow> I (snd (OnConnect p c i w))"
    and helo: "p \<in> set plugins \<Longrightarrow> I w \<Longrightarrow> I (snd (OnHelo p c i d w))"
    and mail: "p \<in> set plugins \<Longrightarrow> I w \<Longrightarrow> I (snd (OnMailFrom p c i d w))"
    and rcpt: "p \<in> set plugins \<Longrightarrow> I w \<Longrightarrow> I (snd (OnRcptTo p c i d w))"
    and data: "p \<in> set plugins \<Longrightarrow> I w \<Longrightarrow> I (snd (OnData p c i w))"
    and message: "p \<in> set plugins \<Longrightarrow> I w \<Longrightarrow> I (snd (OnMessage p c i m w))"
    and disconnect: "p \<in> set plugins \<Longrightarrow> I w \<Longrightarrow> I (OnDisconnect p c i w)"
begin

lemma mail_loop: "I w \<Longrightarrow> I (snd (first_reject (\<lambda>p. OnMailFrom p c i d) plugins w))"
  by (rule first_reject_preserves) (auto intro: mail)

lemma rcpt_loop: "I w \<Longrightarrow> I (snd (first_reject (\<lambda>p. OnRcptTo p c i d) plugins w))"
  by (rule first_reject_preserves) (auto intro: rcpt)

lemma data_loop: "I w \<Longrightarrow> I (snd (first_reject (\<lambda>p. OnData p c i) plugins w))"
  by (rule first_reject_preserves) (auto intro: data)

lemma message_loop: "I w \<Longrightarrow> I (snd (first_reject (\<lambda>p. OnMessage p c i m) plugins w))"
  by (rule first_reject_preserves) (auto intro: message)

lemma disconnect_loop: "I w \<Longrightarrow> I (fold (\<lambda>p. OnDisconnect p c i) plugins w)"
proof -
  have "set ps \<subseteq> set plugins \<Longrightarrow> I w \<Longrightarrow> I (fold (\<lambda>p. OnDisconnect p c i) ps w)" for ps
    by (induction ps arbitrary: w) (auto intro: disconnect)
  then show "I w \<Longrightarrow> ?thesis" by blast
qed

end

end
