(* ===== verification/Base64.thy ===== *)
theory Base64
  imports Prelude
begin

text \<open>
  The standard base64 encoding (\<open>encoding/base64.StdEncoding\<close>) as the AUTH handlers and
  package \<open>internal/base64\<close> use it: padding is required, carriage returns and line feeds in
  the input are skipped, and the unused bits of the last digit are not looked at.
\<close>

definition b64_alphabet :: string where
  "b64_alphabet = ''ABCDEFGHIJKLMNOPQRSTUVWXYZabcdefghijklmnopqrstuvwxyz0123456789+/''"

definition b64_digit :: "nat \<Rightarrow> char" where
  "b64_digit n = b64_alphabet ! n"

definition b64_val :: "char \<Rightarrow> nat option" where
  "b64_val c =
     (let n = of_char c in
      if is_upper c then Some (n - 65)
      else if is_lower c then Some (n - 71)
      else if is_digit c then Some (n + 4)
      else if c = CHR ''+'' then Some 62
      else if c = CHR ''/'' then Some 63
      else None)"

definition byte_of :: "nat \<Rightarrow> char" where
  "byte_of n = char_of n"

fun b64_enc :: "string \<Rightarrow> string" where
  "b64_enc [] = []"
| "b64_enc [a] =
     (let x = of_char a in
      [b64_digit (x div 4), b64_digit ((x mod 4) * 16), CHR ''='', CHR ''=''])"
| "b64_enc [a, b] =
     (let x = of_char a; y = of_char b in
      [b64_digit (x div 4), b64_digit ((x mod 4) * 16 + y div 16), b64_digit ((y mod 16) * 4), CHR ''=''])"
| "b64_enc (a # b # c # s) =
     (let x = of_char a; y = of_char b; z = of_char c in
      [b64_digit (x div 4), b64_digit ((x mod 4) * 16 + y div 16),
       b64_digit ((y mod 16) * 4 + z div 64), b64_digit (z mod 64)] @ b64_enc s)"

fun b64_dec :: "string \<Rightarrow> string option" where
  "b64_dec [] = Some []"
| "b64_dec (a # b # c # d # s) =
     (case (b64_val a, b64_val b) of
        (Some x, Some y) \<Rightarrow>
          (case b64_val c of
             None \<Rightarrow> if c = CHR ''='' \<and> d = CHR ''='' \<and> s = [] then Some [byte_of (x * 4 + y div 16)] else None
           | Some z \<Rightarrow>
               (case b64_val d of
                  None \<Rightarrow> if d = CHR ''='' \<and> s = []
                          then Some [byte_of (x * 4 + y div 16), byte_of ((y mod 16) * 16 + z div 4)] else None
                | Some u \<Rightarrow> map_option
                    (\<lambda>r. byte_of (x * 4 + y div 16) # byte_of ((y mod 16) * 16 + z div 4) #
                         byte_of ((z mod 4) * 64 + u) # r) (b64_dec s)))
      | _ \<Rightarrow> None)"
| "b64_dec _ = None"

text \<open>\<open>Encode\<close> and \<open>Decode\<close> of \<open>internal/base64\<close>; None is a corrupt input.\<close>

definition EncodeToString :: "string \<Rightarrow> string" where
  "EncodeToString s = b64_enc s"

definition DecodeString :: "string \<Rightarrow> string option" where
  "DecodeString s = b64_dec (filter (\<lambda>c. c \<noteq> CR \<and> c \<noteq> LF) s)"

section \<open>Lemmas\<close>

lemma b64_val_alphabet: "map b64_val b64_alphabet = map Some [0..<64]"
  by code_simp

lemma b64_alphabet_line: "list_all (\<lambda>c. c \<noteq> CR \<and> c \<noteq> LF) b64_alphabet"
  by code_simp

lemma length_b64_alphabet: "length b64_alphabet = 64"
  by code_simp

lemma b64_val_digit: "n < 64 \<Longrightarrow> b64_val (b64_digit n) = Some n"
  using arg_cong [OF b64_val_alphabet, of "\<lambda>l. l ! n"]
  by (simp add: b64_digit_def length_b64_alphabet del: upt_rec_numeral)

lemma b64_digit_line: "n < 64 \<Longrightarrow> b64_digit n \<noteq> CR" "n < 64 \<Longrightarrow> b64_digit n \<noteq> LF"
  using b64_alphabet_line by (auto simp: b64_digit_def list_all_length length_b64_alphabet)

lemma b64_val_pad: "b64_val (CHR ''='') = None"
  by code_simp

lemma byte_of_char [simp]: "byte_of (of_char c) = c"
  by (simp add: byte_of_def)

lemma of_char_256 [simp]: "(of_char c :: nat) < 256"
  using nat_of_char_less_256 [of c] by simp

lemma div_16_less: "(y :: nat) < 256 \<Longrightarrow> y div 16 < 16"
  and div_64_less: "(z :: nat) < 256 \<Longrightarrow> z div 64 < 4"
  and div_4_less: "(x :: nat) < 256 \<Longrightarrow> x div 4 < 64"
  by (simp_all add: div_less_iff_less_mult)

lemma quantum_1:
  assumes "(r :: nat) < 16"
  shows "x div 4 * 4 + ((x mod 4) * 16 + r) div 16 = (x :: nat)" "((x mod 4) * 16 + r) mod 16 = r"
    "(x mod 4) * 16 + r < 64"
proof -
  have "((x mod 4) * 16 + r) div 16 = x mod 4" using assms by simp
  then show "x div 4 * 4 + ((x mod 4) * 16 + r) div 16 = x" by simp
  show "((x mod 4) * 16 + r) mod 16 = r" using assms by simp
  have "x mod 4 \<le> 3" using mod_less_divisor [of 4 x] by linarith
  then show "(x mod 4) * 16 + r < 64" using assms by linarith
qed

lemma quantum_2:
  assumes "(r :: nat) < 4"
  shows "y div 16 * 16 + ((y mod 16) * 4 + r) div 4 = (y :: nat)" "((y mod 16) * 4 + r) mod 4 = r"
    "(y mod 16) * 4 + r < 64"
proof -
  have "((y mod 16) * 4 + r) div 4 = y mod 16" using assms by simp
  then show "y div 16 * 16 + ((y mod 16) * 4 + r) div 4 = y" by simp
  show "((y mod 16) * 4 + r) mod 4 = r" using assms by simp
  have "y mod 16 \<le> 15" using mod_less_divisor [of 16 y] by linarith
  then show "(y mod 16) * 4 + r < 64" using assms by linarith
qed

lemmas quantum =
  quantum_1 [OF div_16_less [OF of_char_256]] quantum_2 [OF div_64_less [OF of_char_256]]
  quantum_1 [of 0, simplified] quantum_2 [of 0, simplified] div_4_less [OF of_char_256]
  div_16_less [OF of_char_256] div_64_less [OF of_char_256]

lemma b64_dec_enc: "b64_dec (b64_enc s) = Some s"
  by (induction s rule: b64_enc.induct)
    (simp_all add: Let_def b64_val_digit b64_val_pad quantum del: mult_div_mod_eq)

lemma b64_enc_line: "c \<in> set (b64_enc s) \<Longrightarrow> c \<noteq> CR \<and> c \<noteq> LF"
  by (induction s rule: b64_enc.induct)
    (auto simp: Let_def quantum b64_digit_line)

text \<open>Decoding what was encoded gives the bytes back.\<close>

lemma DecodeString_EncodeToString: "DecodeString (EncodeToString s) = Some s"
proof -
  have "filter (\<lambda>c. c \<noteq> CR \<and> c \<noteq> LF) (b64_enc s) = b64_enc s"
    using b64_enc_line by (intro filter_True) blast
  then show ?thesis by (simp add: DecodeString_def EncodeToString_def b64_dec_enc)
qed

end
