(* ===== verification/TLSConf.thy ===== *)
theory TLSConf
  imports GoErrors
begin

text \<open>
  The TLS settings of \<open>internal/server/tls.go\<close>. Loading a key pair, reading a file and
  parsing PEM certificates are library calls and arguments of the definitions.
\<close>

record TLSConfig =
  CertFile :: string
  KeyFile :: string
  CAFile :: string

definition NewTLSConfig :: "string \<Rightarrow> string \<Rightarrow> string \<Rightarrow> go_error + TLSConfig" where
  "NewTLSConfig certFile keyFile caFile =
     (if certFile = [] \<or> keyFile = [] then Inl (TextError ''certificate and key files are required'')
      else Inr \<lparr>CertFile = certFile, KeyFile = keyFile, CAFile = caFile\<rparr>)"

text \<open>The fields of \<open>tls.Config\<close> that the server sets; versions as on the wire.\<close>

record ('cert, 'pool) tls_config =
  Certificates :: "'cert list"
  MinVersion :: nat
  MaxVersion :: nat
  CipherSuites :: "string list"
  ClientCAs :: "'pool option"
  RequireAndVerifyClientCert :: bool

definition VersionTLS12 :: nat where "VersionTLS12 = 0x0303"
definition VersionTLS13 :: nat where "VersionTLS13 = 0x0304"

definition server_suites :: "string list" where
  "server_suites =
     [''TLS_AES_128_GCM_SHA256'', ''TLS_AES_256_GCM_SHA384'', ''TLS_CHACHA20_POLY1305_SHA256'',
      ''TLS_ECDHE_ECDSA_WITH_AES_128_GCM_SHA256'', ''TLS_ECDHE_RSA_WITH_AES_128_GCM_SHA256'',
      ''TLS_ECDHE_ECDSA_WITH_AES_256_GCM_SHA384'', ''TLS_ECDHE_RSA_WITH_AES_256_GCM_SHA384'',
      ''TLS_ECDHE_ECDSA_WITH_CHACHA20_POLY1305_SHA256'', ''TLS_ECDHE_RSA_WITH_CHACHA20_POLY1305_SHA256'']"

text \<open>\<open>LoadCA\<close>: a nil pool (None) when no file is configured.\<close>

definition LoadCA ::
  "(string \<Rightarrow> go_error + string) \<Rightarrow> (string \<Rightarrow> 'pool option) \<Rightarrow> TLSConfig \<Rightarrow> go_error + 'pool option" where
  "LoadCA readFile appendCerts c =
     (if CAFile c = [] then Inr None
      else (case readFile (CAFile c) of
              Inl err \<Rightarrow> Inl (Wrapped ''failed to read CA certificate: '' err [])
            | Inr pem \<Rightarrow>
                (case appendCerts pem of
                   None \<Rightarrow> Inl (TextError ''failed to append CA certificate'')
                 | Some pool \<Rightarrow> Inr (Some pool))))"

definition CreateTLSConfig ::
  "(string \<Rightarrow> string \<Rightarrow> go_error + 'cert) \<Rightarrow> (string \<Rightarrow> go_error + string) \<Rightarrow> (string \<Rightarrow> 'pool option) \<Rightarrow>
   TLSConfig \<Rightarrow> go_error + ('cert, 'pool) tls_config" where
  "CreateTLSConfig loadPair readFile appendCerts c =
     (case loadPair (CertFile c) (KeyFile c) of
        Inl err \<Rightarrow> Inl err
      | Inr cert \<Rightarrow>
          (let config = \<lparr>Certificates = [cert], MinVersion = VersionTLS12, MaxVersion = VersionTLS13,
                         CipherSuites = server_suites, ClientCAs = None, RequireAndVerifyClientCert = False\<rparr>
           in if CAFile c \<noteq> []
              then (case LoadCA readFile appendCerts c of
                      Inl err \<Rightarrow> Inl err
                    | Inr None \<Rightarrow> Inr config
                    | Inr (Some caCert) \<Rightarrow>
                        Inr (config\<lparr>ClientCAs := Some caCert, RequireAndVerifyClientCert := True\<rparr>))
              else Inr config))"

text \<open>
  A configuration never allows less than TLS 1.2, and with a CA file set it always demands
  client certificates: a CA that cannot be loaded is an error, not a silent downgrade.
\<close>

lemma CreateTLSConfig_secure:
  "CreateTLSConfig lp rf ac c = Inr cfg \<Longrightarrow>
     VersionTLS12 \<le> MinVersion cfg \<and> (RequireAndVerifyClientCert cfg \<longleftrightarrow> CAFile c \<noteq> []) \<and>
     (ClientCAs cfg \<noteq> None \<longleftrightarrow> CAFile c \<noteq> [])"
  by (auto simp: CreateTLSConfig_def LoadCA_def Let_def split: sum.splits option.splits if_splits)

end
