(* ===== verification/Session.thy ===== *)
theory Session
  imports NetIO PluginAPI Base64 MailQueue TLSConf
begin

text \<open>
  The SMTP session of \<open>internal/server/session.go\<close>: every handler and the command loop.
  A handler works on the session and on the world \<open>'w\<close> (queue, user store, plugin state,
  clock); what it calls outside of the session is in the record \<open>senv\<close>. A handler ends with
  a nil error, with an error, or in a panic. A reply is sent as a whole or fails as a whole:
  every failure ends the session.
\<close>

section \<open>State\<close>

datatype SessionState = StateInitial | StateHelo | StateMail | StateRcpt | StateData | StateTLSHandshake

definition DefaultReadTimeout :: duration where "DefaultReadTimeout = 5 * minute"
definition DefaultWriteTimeout :: duration where "DefaultWriteTimeout = 1 * minute"
definition DefaultIdleTimeout :: duration where "DefaultIdleTimeout = 10 * minute"
definition DefaultMaxMessageSize :: int where "DefaultMaxMessageSize = 32 * 1024 * 1024"

text \<open>
  Two fields are not in the code: \<open>ss_submitted\<close> lists the messages given to the queue, each
  with the flag \<open>auth\<close> of that moment, and \<open>ss_counted\<close> the labels counted in the metric
  \<open>CommandsProcessedTotal\<close>.
\<close>

record session =
  ss_conn :: conn
  ss_state :: SessionState
  ss_tlsConfig :: "TLSConfig option"
  ss_forceTLS :: bool
  ss_tls :: bool
  ss_auth :: bool
  ss_helo :: string
  ss_sender :: string
  ss_recipients :: "string list"
  ss_serverName :: string
  ss_remoteAddr :: net_addr
  ss_localAddr :: string
  ss_ctx :: ctx
  ss_baseCtx :: ctx
  ss_sessionID :: string
  ss_localDomains :: "string list"
  ss_readTimeout :: duration
  ss_writeTimeout :: duration
  ss_idleTimeout :: duration
  ss_maxMessageSize :: int
  ss_submitted :: "(Message \<times> bool) list"
  ss_counted :: "(string \<times> string) list"

text \<open>
  What the session calls: the plugins, the queue, the user store and the JWT validator (nil is
  None), the TLS library (the handshake turns the chunks that follow on the raw connection into
  the chunks of decrypted input), identifiers, the clock, and the errors that failing socket
  operations and reads report.
\<close>

record 'w senv =
  se_plugins :: "'w plugin list"
  se_Enqueue :: "ctx \<Rightarrow> Message \<Rightarrow> 'w \<Rightarrow> send_result \<times> 'w"
  se_userStore :: "(string \<Rightarrow> string \<Rightarrow> 'w \<Rightarrow> (bool \<times> go_error option) \<times> 'w) option"
  se_jwtValidator :: "(string \<Rightarrow> 'w \<Rightarrow> (string \<times> go_error option) \<times> 'w) option"
  se_CreateTLS :: "TLSConfig \<Rightarrow> 'w \<Rightarrow> go_error option \<times> 'w"
  se_Handshake :: "string list \<Rightarrow> 'w \<Rightarrow> (go_error + string list) \<times> 'w"
  se_NewString :: "'w \<Rightarrow> string \<times> 'w"
  se_Now :: "'w \<Rightarrow> time \<times> 'w"
  se_ioErr :: go_error
  se_readErr :: go_error

datatype hres = Ok | Err go_error | Panic

abbreviation sess_buffer :: nat where "sess_buffer \<equiv> 16384"

definition resetTransactionState :: "session \<Rightarrow> session" where
  "resetTransactionState s =
     s\<lparr>ss_sender := [], ss_recipients := [],
       ss_ctx := WithValue (WithValue (ss_baseCtx s) (StringKey ''sessionID'') (StringVal (ss_sessionID s)))
                   (StringKey ''remoteAddr'') (StringVal (addr_String (ss_remoteAddr s)))\<rparr>"

text \<open>\<open>Reset\<close> prepares a pooled session for a connection; \<open>isTLS\<close> says that it is a \<open>tls.Conn\<close>.\<close>

definition sess_Reset ::
  "conn \<Rightarrow> bool \<Rightarrow> net_addr \<Rightarrow> string \<Rightarrow> TLSConfig option \<Rightarrow> string \<Rightarrow> session \<Rightarrow> session" where
  "sess_Reset cn isTLS remote local tlsConfig sessionID s =
     (let s1 = s\<lparr>ss_readTimeout := if ss_readTimeout s = 0 then DefaultReadTimeout else ss_readTimeout s,
                 ss_writeTimeout := if ss_writeTimeout s = 0 then DefaultWriteTimeout else ss_writeTimeout s,
                 ss_idleTimeout := if ss_idleTimeout s = 0 then DefaultIdleTimeout else ss_idleTimeout s,
                 ss_maxMessageSize := if ss_maxMessageSize s = 0 then DefaultMaxMessageSize else ss_maxMessageSize s,
                 ss_conn := cn, ss_state := StateInitial, ss_tlsConfig := tlsConfig,
                 ss_tls := False, ss_auth := False, ss_helo := [], ss_serverName := ''smtpd'',
                 ss_remoteAddr := remote, ss_localAddr := local, ss_baseCtx := Background,
                 ss_sessionID := sessionID, ss_submitted := [], ss_counted := []\<rparr>;
          s2 = resetTransactionState s1
      in if isTLS then s2\<lparr>ss_tls := True, ss_forceTLS := True\<rparr> else s2\<lparr>ss_forceTLS := False\<rparr>)"

section \<open>Replies\<close>

definition writeResponse :: "'w senv \<Rightarrow> int \<Rightarrow> string \<Rightarrow> session \<Rightarrow> hres \<times> session" where
  "writeResponse e code message s =
     (let (ok, c1) = sys_op (ss_conn s)
      in if \<not> ok then (Err (se_ioErr e), s\<lparr>ss_conn := c1\<rparr>)
         else (let (ok', c2) = conn_write (Itoa code @ '' '' @ message @ CRLF) c1
               in (if ok' then Ok else Err (se_ioErr e), s\<lparr>ss_conn := c2\<rparr>)))"

definition reply :: "'w senv \<Rightarrow> int \<Rightarrow> string \<Rightarrow> session \<Rightarrow> 'w \<Rightarrow> hres \<times> session \<times> 'w" where
  "reply e code message s w = (let (r, s') = writeResponse e code message s in (r, s', w))"

text \<open>The answer to a plugin's error: its own code and text for an SMTP error, else a default.\<close>

definition plugin_reply ::
  "'w senv \<Rightarrow> go_error \<Rightarrow> int \<Rightarrow> string \<Rightarrow> session \<Rightarrow> 'w \<Rightarrow> hres \<times> session \<times> 'w" where
  "plugin_reply e err code message s w =
     (if is_SmtpError err then reply e (smtp_Code err) (err_Error err) s w
      else reply e code message s w)"

definition sessionInfo :: "session \<Rightarrow> SessionInfo" where
  "sessionInfo s =
     \<lparr>si_SessionID = ss_sessionID s, si_RemoteAddr = Some (ss_remoteAddr s), si_LocalAddr = ss_localAddr s,
      si_IsTLS = ss_tls s, si_HeloDomain = ss_helo s, si_Username = []\<rparr>"

definition isValidEmail :: "string \<Rightarrow> bool" where
  "isValidEmail addr \<longleftrightarrow> Contains addr ''@'' \<and> length addr > 2"

definition isLocalRecipient :: "session \<Rightarrow> string \<Rightarrow> bool" where
  "isLocalRecipient s addr =
     (case LastIndexByte addr (CHR ''@'') of
        None \<Rightarrow> False
      | Some at \<Rightarrow> list_ex (\<lambda>d. EqualFold (drop (at + 1) addr) d) (ss_localDomains s))"

section \<open>HELO and STARTTLS\<close>

definition ehlo_capabilities :: "'w senv \<Rightarrow> session \<Rightarrow> string list" where
  "ehlo_capabilities e s =
     (if ss_tls s \<or> ss_forceTLS s
      then [''SIZE 10485760'', ''AUTH PLAIN LOGIN'' @ (if se_jwtValidator e \<noteq> None then '' SIRE-TOKEN'' else [])]
      else []) @
     [''8BITMIME'', ''PIPELINING''] @
     (if ss_tlsConfig s \<noteq> None \<and> \<not> ss_tls s then [''STARTTLS''] else []) @
     [''HELP''] @
     (if \<not> ss_tls s \<and> \<not> ss_forceTLS s then [''SIZE 10485760''] else [])"

definition ehlo_text :: "'w senv \<Rightarrow> string \<Rightarrow> session \<Rightarrow> string" where
  "ehlo_text e domain s =
     (let caps = ehlo_capabilities e s in
      ''250-'' @ ss_serverName s @ '' Hello '' @ domain @ CRLF @
      concat (map (\<lambda>c. ''250-'' @ c @ CRLF) (butlast caps)) @ ''250 '' @ last caps @ CRLF)"

definition handleHelo :: "'w senv \<Rightarrow> string \<Rightarrow> string \<Rightarrow> session \<Rightarrow> 'w \<Rightarrow> hres \<times> session \<times> 'w" where
  "handleHelo e command domain s w =
     (let s1 = s\<lparr>ss_helo := domain, ss_state := StateMail\<rparr> in
      if command = ''HELO'' then reply e 250 (ss_serverName s1 @ '' Hello '' @ domain) s1 w
      else (let (ok, c) = conn_write (ehlo_text e domain s1) (ss_conn s1)
            in (if ok then Ok else Err (se_ioErr e), s1\<lparr>ss_conn := c\<rparr>, w)))"

text \<open>
  The handshake reads from the socket: what the old reader had buffered stays with it and is
  never read. The result says whether the connection was upgraded.
\<close>

definition tls_upgrade :: "string list \<Rightarrow> conn \<Rightarrow> session \<Rightarrow> session" where
  "tls_upgrade chunks c s =
     (resetTransactionState (s\<lparr>ss_conn := c\<lparr>rd_buf := [], rd_in := chunks\<rparr>, ss_tls := True\<rparr>))
       \<lparr>ss_state := StateInitial, ss_helo := [], ss_sender := [], ss_recipients := [], ss_auth := False\<rparr>"

definition handleStartTLS :: "'w senv \<Rightarrow> session \<Rightarrow> 'w \<Rightarrow> bool \<times> hres \<times> session \<times> 'w" where
  "handleStartTLS e s w =
     (if ss_tls s then (False, reply e 503 ''TLS already active'' s w)
      else (case ss_tlsConfig s of
        None \<Rightarrow> (False, reply e 454 ''TLS not available'' s w)
      | Some cfg \<Rightarrow>
          (let (ok, c1) = conn_write (''220 Ready to start TLS'' @ CRLF) (ss_conn s); s1 = s\<lparr>ss_conn := c1\<rparr> in
           if \<not> ok then (False, Err (Wrapped ''failed to flush response: '' (se_ioErr e) []), s1, w)
           else (case se_CreateTLS e cfg w of
             (Some err, w1) \<Rightarrow> (False, Err (Wrapped ''failed to create TLS config: '' err []), s1, w1)
           | (None, w1) \<Rightarrow>
               (let (ok2, c2) = sys_op c1 in
                if \<not> ok2 then (False, Err (se_ioErr e), s1\<lparr>ss_conn := c2\<rparr>, w1)
                else (case se_Handshake e (rd_in c2) w1 of
                  (Inl err, w2) \<Rightarrow>
                    (False, Err (Wrapped ''TLS handshake failed: '' err []), s1\<lparr>ss_conn := snd (sys_op c2)\<rparr>, w2)
                | (Inr chunks, w2) \<Rightarrow>
                    (let (ok3, c3) = sys_op c2 in
                     if \<not> ok3 then (False, Err (se_ioErr e), s1\<lparr>ss_conn := c3\<rparr>, w2)
                     else (True, Ok, tls_upgrade chunks c3 s1, w2))))))))"

section \<open>MAIL and RCPT\<close>

definition path_arg :: "string \<Rightarrow> string \<Rightarrow> string" where
  "path_arg prefix raw = Trim (TrimSpace (TrimPrefix raw prefix)) ''<>''"

definition handleMail :: "'w senv \<Rightarrow> string \<Rightarrow> session \<Rightarrow> 'w \<Rightarrow> hres \<times> session \<times> 'w" where
  "handleMail e rawFrom s w =
     (if ss_state s \<noteq> StateMail then reply e 503 ''Send HELO/EHLO first'' s w
      else
        (let s1 = resetTransactionState s in
         if \<not> HasPrefix (ToUpper rawFrom) ''MAIL FROM:'' then reply e 501 ''Syntax error in MAIL command'' s1 w
         else
           (let sender = path_arg ''MAIL FROM:'' rawFrom in
            if \<not> isValidEmail sender then reply e 501 ''Invalid sender address format'' s1 w
            else
              (let transactionCtx = WithValue (ss_ctx s1) (StringKey ''sender'') (StringVal sender) in
               (case first_reject (\<lambda>p. OnMailFrom p transactionCtx (sessionInfo s1) sender) (se_plugins e) w of
                  (Some (_, err), w1) \<Rightarrow> plugin_reply e err 554 ''Transaction failed (rejected by policy)'' s1 w1
                | (None, w1) \<Rightarrow>
                    reply e 250 ''OK''
                      (s1\<lparr>ss_sender := sender, ss_state := StateRcpt, ss_ctx := transactionCtx\<rparr>) w1)))))"

definition handleRcpt :: "'w senv \<Rightarrow> string \<Rightarrow> session \<Rightarrow> 'w \<Rightarrow> hres \<times> session \<times> 'w" where
  "handleRcpt e rawTo s w =
     (if ss_state s \<noteq> StateRcpt \<and> ss_state s \<noteq> StateData then reply e 503 ''Need MAIL command first'' s w
      else if \<not> HasPrefix (ToUpper rawTo) ''RCPT TO:'' then reply e 501 ''Syntax error in RCPT command'' s w
      else
        (let recipient = path_arg ''RCPT TO:'' rawTo in
         if \<not> isValidEmail recipient then reply e 501 ''Invalid recipient address format'' s w
         else if \<not> ss_auth s \<and> \<not> isLocalRecipient s recipient then reply e 550 ''Relaying denied'' s w
         else
           (case first_reject (\<lambda>p. OnRcptTo p (ss_ctx s) (sessionInfo s) recipient) (se_plugins e) w of
              (Some (_, err), w1) \<Rightarrow>
                plugin_reply e err 550 ''Requested action not taken: mailbox unavailable (rejected by policy)'' s w1
            | (None, w1) \<Rightarrow>
                reply e 250 ''OK'' (s\<lparr>ss_recipients := ss_recipients s @ [recipient], ss_state := StateData\<rparr>) w1)))"

section \<open>DATA\<close>

definition terminator :: string where
  "terminator = ''.'' @ CRLF"

definition unstuff :: "string \<Rightarrow> string" where
  "unstuff line = (if HasPrefix line ''..'' then drop 1 line else line)"

function drainUntilDataTerminator :: "conn \<Rightarrow> bool \<times> conn" where
  "drainUntilDataTerminator c =
     (case conn_ReadBytes sess_buffer c of
        (None, c') \<Rightarrow> (False, c')
      | (Some line, c') \<Rightarrow> if line = terminator then (True, c') else drainUntilDataTerminator c')"
  by pat_completeness auto
termination
  by (relation "measure (\<lambda>c. length (pending c))") (auto dest: conn_ReadBytes_less [OF sym])

datatype data_result = DataOk string | DataTooBig | DataErr

function data_loop :: "int \<Rightarrow> string \<Rightarrow> conn \<Rightarrow> data_result \<times> conn" where
  "data_loop maxSize dataBuf c =
     (case conn_ReadBytes sess_buffer c of
        (None, c') \<Rightarrow> (DataErr, c')
      | (Some line, c') \<Rightarrow>
          if line = terminator then (DataOk dataBuf, c')
          else if int (length dataBuf + length (unstuff line)) > maxSize
          then (let (ok, c'') = drainUntilDataTerminator c' in (if ok then DataTooBig else DataErr, c''))
          else data_loop maxSize (dataBuf @ unstuff line) c')"
  by pat_completeness auto
termination
  by (relation "measure (\<lambda>(m, b, c). length (pending c))") (auto dest: conn_ReadBytes_less [OF sym])

declare drainUntilDataTerminator.simps [simp del] data_loop.simps [simp del]

text \<open>What follows the data: the content plugins, then the queue.\<close>

definition deliver_data :: "'w senv \<Rightarrow> string \<Rightarrow> session \<Rightarrow> 'w \<Rightarrow> hres \<times> session \<times> 'w" where
  "deliver_data e dat s w =
     (let messageInfo = \<lparr>mi_From = ss_sender s, mi_To = ss_recipients s, mi_Data = dat\<rparr> in
      (case first_reject (\<lambda>p. OnMessage p (ss_ctx s) (sessionInfo s) messageInfo) (se_plugins e) w of
         (Some (_, err), w1) \<Rightarrow>
           plugin_reply e err 554 ''Transaction failed (rejected by content policy)'' s w1
       | (None, w1) \<Rightarrow>
           (let (ident, w2) = se_NewString e w1; (now, w3) = se_Now e w2;
                msg = \<lparr>ID = ident, From = ss_sender s, To = ss_recipients s, Data = dat,
                       CreatedAt = now, RetryCount = 0, NextAttemptAt = 0\<rparr>;
                s1 = s\<lparr>ss_submitted := ss_submitted s @ [(msg, ss_auth s)]\<rparr>
            in (case se_Enqueue e (ss_ctx s) msg w3 of
                  (SendPanic, w4) \<Rightarrow> (Panic, s1, w4)
                | (SendErr _, w4) \<Rightarrow> reply e 451 ''Internal server error: Failed to queue message'' s1 w4
                | (SendOk, w4) \<Rightarrow>
                    reply e 250 ''OK: message queued''
                      (resetTransactionState (s1\<lparr>ss_state := StateMail\<rparr>)) w4))))"

text \<open>The data transfer itself, from the deadline and the reply 354 on.\<close>

definition transfer_data :: "'w senv \<Rightarrow> session \<Rightarrow> 'w \<Rightarrow> hres \<times> session \<times> 'w" where
  "transfer_data e s w =
     (case data_loop (ss_maxMessageSize s) [] (ss_conn s) of
        (DataErr, c) \<Rightarrow> (Err (se_readErr e), s\<lparr>ss_conn := c\<rparr>, w)
      | (DataTooBig, c) \<Rightarrow>
          reply e 552 ''Message size exceeds fixed maximum message size''
            (resetTransactionState (s\<lparr>ss_conn := c, ss_state := StateMail\<rparr>)) w
      | (DataOk dat, c) \<Rightarrow>
          (let (ok, c') = sys_op c in
           if \<not> ok then (Err (se_ioErr e), s\<lparr>ss_conn := c'\<rparr>, w)
           else deliver_data e dat (s\<lparr>ss_conn := c'\<rparr>) w))"

definition receive_data :: "'w senv \<Rightarrow> session \<Rightarrow> 'w \<Rightarrow> hres \<times> session \<times> 'w" where
  "receive_data e s w =
     (let (ok, c1) = sys_op (ss_conn s) in
      if \<not> ok then (Err (se_ioErr e), s\<lparr>ss_conn := c1\<rparr>, w)
      else
        (case writeResponse e 354 ''End data with <CR><LF>.<CR><LF>'' (s\<lparr>ss_conn := c1\<rparr>) of
           (Ok, s1) \<Rightarrow> transfer_data e s1 w
         | (r, s1) \<Rightarrow> (r, s1, w)))"

definition handleData :: "'w senv \<Rightarrow> session \<Rightarrow> 'w \<Rightarrow> hres \<times> session \<times> 'w" where
  "handleData e s w =
     (if ss_state s \<noteq> StateData then reply e 503 ''Need RCPT command first'' s w
      else if ss_recipients s = [] then reply e 503 ''Need RCPT command first'' s w
      else
        (case first_reject (\<lambda>p. OnData p (ss_ctx s) (sessionInfo s)) (se_plugins e) w of
           (Some (_, err), w1) \<Rightarrow>
             plugin_reply e err 554 ''Transaction failed (rejected before data transfer)'' s w1
         | (None, w1) \<Rightarrow> receive_data e s w1))"

definition handleRset :: "'w senv \<Rightarrow> session \<Rightarrow> 'w \<Rightarrow> hres \<times> session \<times> 'w" where
  "handleRset e s w = reply e 250 ''OK'' (resetTransactionState (s\<lparr>ss_state := StateMail\<rparr>)) w"

section \<open>AUTH\<close>

text \<open>The call of \<open>Authenticate\<close> and the replies to its answer; calling it on a nil store panics.\<close>

definition check_password ::
  "'w senv \<Rightarrow> string \<Rightarrow> string \<Rightarrow> session \<Rightarrow> 'w \<Rightarrow> hres \<times> session \<times> 'w" where
  "check_password e username password s w =
     (case se_userStore e of
        None \<Rightarrow> (Panic, s, w)
      | Some authenticate \<Rightarrow>
          (case authenticate username password w of
             ((ok, Some err), w1) \<Rightarrow> reply e 535 ''Authentication credentials invalid (check failed)'' s w1
           | ((ok, None), w1) \<Rightarrow>
               if \<not> ok then reply e 535 ''Authentication credentials invalid'' s w1
               else reply e 235 ''Authentication successful'' (s\<lparr>ss_auth := True\<rparr>) w1))"

definition handleAuthPlain :: "'w senv \<Rightarrow> string list \<Rightarrow> session \<Rightarrow> 'w \<Rightarrow> hres \<times> session \<times> 'w" where
  "handleAuthPlain e parts s w =
     (if length parts \<noteq> 3 then reply e 501 ''Syntax error: AUTH PLAIN requires a single argument'' s w
      else (case DecodeString (parts ! 2) of
        None \<Rightarrow> reply e 501 ''Invalid base64 encoding'' s w
      | Some credentials \<Rightarrow>
          (let credParts = Split credentials (CHR 0x00) in
           if length credParts \<noteq> 3
           then reply e 535 ''Authentication credentials invalid (format error)'' s w
           else check_password e (credParts ! 1) (credParts ! 2) s w)))"

definition login_password :: "'w senv \<Rightarrow> string \<Rightarrow> session \<Rightarrow> 'w \<Rightarrow> hres \<times> session \<times> 'w" where
  "login_password e username s w =
     (case writeResponse e 334 ''UGFzc3dvcmQ6'' s of
        (Ok, s1) \<Rightarrow>
          (case conn_ReadBytes sess_buffer (ss_conn s1) of
             (None, c) \<Rightarrow> (Err (Wrapped ''failed to read password: '' (se_readErr e) []), s1\<lparr>ss_conn := c\<rparr>, w)
           | (Some line, c) \<Rightarrow>
               (let s2 = s1\<lparr>ss_conn := c\<rparr> in
                (case DecodeString (TrimSpace line) of
                   None \<Rightarrow> reply e 501 ''Invalid base64 encoding'' s2 w
                 | Some password \<Rightarrow> check_password e username password s2 w)))
      | (r, s1) \<Rightarrow> (r, s1, w))"

definition handleAuthLogin :: "'w senv \<Rightarrow> string list \<Rightarrow> session \<Rightarrow> 'w \<Rightarrow> hres \<times> session \<times> 'w" where
  "handleAuthLogin e parts s w =
     (if length parts > 3 then reply e 501 ''Syntax error: AUTH LOGIN takes at most one argument'' s w
      else if length parts = 3
      then (case DecodeString (parts ! 2) of
              None \<Rightarrow> reply e 501 ''Invalid base64 encoding'' s w
            | Some username \<Rightarrow> login_password e username s w)
      else
        (case writeResponse e 334 ''VXNlcm5hbWU6'' s of
           (Ok, s1) \<Rightarrow>
             (case conn_ReadBytes sess_buffer (ss_conn s1) of
                (None, c) \<Rightarrow> (Err (Wrapped ''failed to read username: '' (se_readErr e) []), s1\<lparr>ss_conn := c\<rparr>, w)
              | (Some line, c) \<Rightarrow>
                  (let s2 = s1\<lparr>ss_conn := c\<rparr> in
                   (case DecodeString (TrimSpace line) of
                      None \<Rightarrow> reply e 501 ''Invalid base64 encoding'' s2 w
                    | Some username \<Rightarrow> login_password e username s2 w)))
         | (r, s1) \<Rightarrow> (r, s1, w)))"

definition handleAuthSireToken :: "'w senv \<Rightarrow> string list \<Rightarrow> session \<Rightarrow> 'w \<Rightarrow> hres \<times> session \<times> 'w" where
  "handleAuthSireToken e parts s w =
     (case se_jwtValidator e of
        None \<Rightarrow> reply e 504 ''SIRE-TOKEN authentication not configured'' s w
      | Some authenticateToken \<Rightarrow>
          if length parts \<noteq> 3
          then reply e 501 ''Syntax error: AUTH SIRE-TOKEN requires a token argument'' s w
          else (case DecodeString (parts ! 2) of
                  None \<Rightarrow> reply e 501 ''Invalid base64 encoding'' s w
                | Some token \<Rightarrow>
                    (case authenticateToken token w of
                       ((_, Some err), w1) \<Rightarrow> reply e 535 ''Authentication credentials invalid'' s w1
                     | ((subject, None), w1) \<Rightarrow>
                         reply e 235 ''Authentication successful'' (s\<lparr>ss_auth := True\<rparr>) w1)))"

definition handleAuth :: "'w senv \<Rightarrow> string \<Rightarrow> session \<Rightarrow> 'w \<Rightarrow> hres \<times> session \<times> 'w" where
  "handleAuth e line s w =
     (if \<not> ss_tls s \<and> ss_tlsConfig s \<noteq> None \<and> \<not> ss_forceTLS s
      then reply e 538 ''Encryption required for requested authentication mechanism'' s w
      else if \<not> ss_tls s \<and> ss_forceTLS s
      then reply e 530 ''Must issue STARTTLS first or connect via TLS'' s w
      else if ss_state s \<noteq> StateMail then reply e 503 ''Send HELO/EHLO first'' s w
      else
        (let parts = SplitN line (CHR '' '') 3 in
         if length parts < 2 then reply e 501 ''Syntax error in AUTH command'' s w
         else
           (let mechanism = ToUpper (parts ! 1) in
            if mechanism = ''PLAIN'' then handleAuthPlain e parts s w
            else if mechanism = ''LOGIN'' then handleAuthLogin e parts s w
            else if mechanism = ''SIRE-TOKEN'' then handleAuthSireToken e parts s w
            else reply e 504 ''Unsupported authentication mechanism'' s w)))"

section \<open>The command loop\<close>

definition count_command :: "string \<Rightarrow> string \<Rightarrow> session \<Rightarrow> session" where
  "count_command cmd result s = s\<lparr>ss_counted := ss_counted s @ [(cmd, result)]\<rparr>"

text \<open>\<open>metrics.TimeCommand\<close>; a panic passes through it.\<close>

definition TimeCommand :: "string \<Rightarrow> hres \<times> session \<times> 'w \<Rightarrow> hres \<times> session \<times> 'w" where
  "TimeCommand cmd = (\<lambda>(r, s, w).
     (case r of
        Ok \<Rightarrow> (r, count_command cmd ''success'' s, w)
      | Err _ \<Rightarrow> (r, count_command cmd ''failure'' s, w)
      | Panic \<Rightarrow> (r, s, w)))"

datatype loop_next = Continue | Stop hres

definition after_handler :: "hres \<times> session \<times> 'w \<Rightarrow> loop_next \<times> session \<times> 'w" where
  "after_handler = (\<lambda>(r, s, w). (if r = Ok then Continue else Stop r, s, w))"

text \<open>One line of the client, as read.\<close>

definition handle_line :: "'w senv \<Rightarrow> string \<Rightarrow> session \<Rightarrow> 'w \<Rightarrow> loop_next \<times> session \<times> 'w" where
  "handle_line e raw s w =
     (let line = TrimSpace raw in
      if line = [] then (Continue, s, w)
      else
        (let parts = Fields line in
         if parts = [] then (Continue, s, w)
         else
           (let cmd = ToUpper (hd parts); args = Join (tl parts) '' '' in
            if cmd = ''QUIT'' then
              (let (_, s') = writeResponse e 221 ''Goodbye'' (count_command ''QUIT'' ''success'' s) in (Stop Ok, s', w))
            else if cmd = ''HELO'' \<or> cmd = ''EHLO'' then after_handler (TimeCommand cmd (handleHelo e cmd args s w))
            else if cmd = ''MAIL'' then after_handler (TimeCommand ''MAIL'' (handleMail e line s w))
            else if cmd = ''RCPT'' then after_handler (TimeCommand ''RCPT'' (handleRcpt e line s w))
            else if cmd = ''DATA'' then after_handler (TimeCommand ''DATA'' (handleData e s w))
            else if cmd = ''RSET'' then after_handler (TimeCommand ''RSET'' (handleRset e s w))
            else if cmd = ''STARTTLS'' then
              (let (upgraded, res) = handleStartTLS e s w; res' = TimeCommand ''STARTTLS'' res
               in if upgraded then (Continue, snd res') else after_handler res')
            else if cmd = ''AUTH'' then after_handler (TimeCommand ''AUTH'' (handleAuth e line s w))
            else if cmd = ''NOOP'' then after_handler (TimeCommand ''NOOP'' (reply e 250 ''OK'' s w))
            else after_handler (reply e 500 ''Unknown command'' (count_command ''UNKNOWN'' ''error'' s) w))))"

text \<open>One pass of the loop: the deadline, the line, the command.\<close>

definition handle_once :: "'w senv \<Rightarrow> session \<Rightarrow> 'w \<Rightarrow> loop_next \<times> session \<times> 'w" where
  "handle_once e s w =
     (let (ok, c1) = sys_op (ss_conn s) in
      if \<not> ok then (Stop (Err (Wrapped ''failed to set read deadline: '' (se_ioErr e) [])), s\<lparr>ss_conn := c1\<rparr>, w)
      else
        (case conn_ReadBytes sess_buffer c1 of
           (None, c2) \<Rightarrow>
             (Stop (Err (Wrapped ''failed to read command: '' (se_readErr e) [])), s\<lparr>ss_conn := c2\<rparr>, w)
         | (Some raw, c2) \<Rightarrow> handle_line e raw (s\<lparr>ss_conn := c2\<rparr>) w))"

end
