(* ===== verification/SessionProps.thy ===== *)
theory SessionProps
  imports Session
begin

text \<open>
  The command loop of the session, that it ends, and what the session guarantees: relay
  control, authentication, STARTTLS, the transfer of message data.
\<close>

named_theorems sess_simps \<open>what a reply leaves unchanged\<close>

section \<open>Frames\<close>

lemma writeResponse_frame:
  "\<exists>c. snd (writeResponse e code m s) = s\<lparr>ss_conn := c\<rparr> \<and> rd_buf c = rd_buf (ss_conn s) \<and> rd_in c = rd_in (ss_conn s)"
proof -
  let ?c1 = "snd (sys_op (ss_conn s))"
  let ?c2 = "snd (conn_write (Itoa code @ '' '' @ m @ CRLF) ?c1)"
  have "snd (writeResponse e code m s) = s\<lparr>ss_conn := if fst (sys_op (ss_conn s)) then ?c2 else ?c1\<rparr>"
    by (simp add: writeResponse_def case_prod_beta Let_def)
  then show ?thesis by (intro exI conjI) (assumption, simp_all)
qed

lemma writeResponse_no_Panic: "fst (writeResponse e code m s) \<noteq> Panic"
  by (simp add: writeResponse_def case_prod_beta Let_def)

lemma writeResponse_pair:
  assumes "writeResponse e code m s = (r, s')"
  shows "\<exists>c. s' = s\<lparr>ss_conn := c\<rparr> \<and> rd_buf c = rd_buf (ss_conn s) \<and> rd_in c = rd_in (ss_conn s)"
  using writeResponse_frame [of e code m s] assms by simp

text \<open>The session that a handler returns.\<close>

abbreviation res_session :: "hres \<times> session \<times> 'w \<Rightarrow> session" where
  "res_session x \<equiv> fst (snd x)"

lemma reply_frame:
  "\<exists>c. res_session (reply e code m s w) = s\<lparr>ss_conn := c\<rparr> \<and> rd_buf c = rd_buf (ss_conn s) \<and> rd_in c = rd_in (ss_conn s)"
  using writeResponse_frame [of e code m s] by (simp add: reply_def case_prod_beta Let_def)

lemma plugin_reply_is_reply: "\<exists>code m. plugin_reply e err dc dm s w = reply e code m s w"
  by (auto simp: plugin_reply_def)

text \<open>
  A property of sessions that does not look at the connection holds after a reply exactly when
  it held before.
\<close>

definition conn_free :: "(session \<Rightarrow> 'a) \<Rightarrow> bool" where
  "conn_free P \<longleftrightarrow> (\<forall>s c. P (s\<lparr>ss_conn := c\<rparr>) = P s)"

lemma conn_free_reply: "conn_free P \<Longrightarrow> P (res_session (reply e code m s w)) = P s"
  using reply_frame [of e code m s w] by (auto simp: conn_free_def)

lemma conn_free_plugin_reply: "conn_free P \<Longrightarrow> P (res_session (plugin_reply e err dc dm s w)) = P s"
  using plugin_reply_is_reply [of e err dc dm s w] conn_free_reply by metis

lemma conn_free_writeResponse: "conn_free P \<Longrightarrow> writeResponse e code m s = (r, s') \<Longrightarrow> P s' = P s"
  using writeResponse_pair by (fastforce simp: conn_free_def)

section \<open>The loop ends\<close>

text \<open>
  Input still to come never grows, but for the one upgrade to TLS, which happens on a
  connection without TLS only.
\<close>

definition no_growth :: "session \<Rightarrow> session \<Rightarrow> bool" where
  "no_growth s s' \<longleftrightarrow> ss_tls s' = ss_tls s \<and> length (pending (ss_conn s')) \<le> length (pending (ss_conn s))"

definition upgraded :: "'w senv \<Rightarrow> session \<Rightarrow> session \<Rightarrow> bool" where
  "upgraded e s s' \<longleftrightarrow> \<not> ss_tls s \<and> ss_tls s' \<and>
     (\<exists>socket w1 chunks w2. se_Handshake e socket w1 = (Inr chunks, w2) \<and> pending (ss_conn s') = concat chunks)"

lemma no_growth_trans: "no_growth s t \<Longrightarrow> no_growth t u \<Longrightarrow> no_growth s u"
  by (auto simp: no_growth_def)

lemma no_growth_writeResponse: "writeResponse e code m s = (r, s') \<Longrightarrow> no_growth s s'"
  using writeResponse_pair [of e code m s r s'] by (auto simp: no_growth_def)

lemma no_growth_reply: "no_growth s t \<Longrightarrow> no_growth s (res_session (reply e code m t w))"
  using reply_frame [of e code m t w] by (auto simp: no_growth_def)

lemma no_growth_plugin_reply: "no_growth s t \<Longrightarrow> no_growth s (res_session (plugin_reply e err dc dm t w))"
  using plugin_reply_is_reply [of e err dc dm t w] no_growth_reply by metis

lemma no_growth_fields:
  "no_growth s (t\<lparr>ss_helo := a\<rparr>) = no_growth s t" "no_growth s (t\<lparr>ss_state := b\<rparr>) = no_growth s t"
  "no_growth s (t\<lparr>ss_sender := a\<rparr>) = no_growth s t" "no_growth s (t\<lparr>ss_recipients := rs\<rparr>) = no_growth s t"
  "no_growth s (t\<lparr>ss_ctx := x\<rparr>) = no_growth s t" "no_growth s (t\<lparr>ss_auth := y\<rparr>) = no_growth s t"
  "no_growth s (t\<lparr>ss_submitted := z\<rparr>) = no_growth s t" "no_growth s (resetTransactionState t) = no_growth s t"
  "no_growth s (count_command p q t) = no_growth s t"
  by (simp_all add: no_growth_def resetTransactionState_def count_command_def)

lemma no_growth_refl [simp]: "no_growth s s"
  by (simp add: no_growth_def)

lemmas growth_intros = no_growth_reply no_growth_plugin_reply no_growth_refl

lemma no_growth_conn:
  "length (pending c) \<le> length (pending (ss_conn t)) \<Longrightarrow> no_growth s t \<Longrightarrow> no_growth s (t\<lparr>ss_conn := c\<rparr>)"
  by (auto simp: no_growth_def)

lemma ReadBytes_le: "conn_ReadBytes n c = (x, c') \<Longrightarrow> length (pending c') \<le> length (pending c)"
proof (cases x)
  case None
  assume "conn_ReadBytes n c = (x, c')"
  then have "pending c' = []"
    using conn_ReadBytes_stream [of n c] None
    by (auto simp del: append_is_Nil_conv concat_eq_Nil_conv split: option.splits)
  then show ?thesis by (simp only: list.size le0)
qed (use conn_ReadBytes_less [of n c] in auto)

lemma drain_step:
  "conn_ReadBytes sess_buffer c = (None, c') \<Longrightarrow> drainUntilDataTerminator c = (False, c')"
  "conn_ReadBytes sess_buffer c = (Some l, c') \<Longrightarrow>
     drainUntilDataTerminator c = (if l = terminator then (True, c') else drainUntilDataTerminator c')"
  by (subst drainUntilDataTerminator.simps, simp)+

lemma data_step:
  "conn_ReadBytes sess_buffer c = (None, c') \<Longrightarrow> data_loop mx buf c = (DataErr, c')"
  "conn_ReadBytes sess_buffer c = (Some l, c') \<Longrightarrow>
     data_loop mx buf c =
       (if l = terminator then (DataOk buf, c')
        else if int (length buf + length (unstuff l)) > mx
        then (if fst (drainUntilDataTerminator c') then DataTooBig else DataErr, snd (drainUntilDataTerminator c'))
        else data_loop mx (buf @ unstuff l) c')"
  by (subst data_loop.simps, simp add: case_prod_beta Let_def)+

lemma drain_le: "length (pending (snd (drainUntilDataTerminator c))) \<le> length (pending c)"
proof (induction c rule: drainUntilDataTerminator.induct)
  case (1 c)
  obtain x c' where rd: "conn_ReadBytes sess_buffer c = (x, c')" by (cases "conn_ReadBytes sess_buffer c")
  show ?case
  proof (cases x)
    case (Some l)
    then show ?thesis using rd "1.IH" [OF rd [symmetric] Some] ReadBytes_le [OF rd] by (auto simp: drain_step(2))
  qed (use rd ReadBytes_le [OF rd] in \<open>simp add: drain_step(1)\<close>)
qed

lemma data_loop_le: "length (pending (snd (data_loop mx buf c))) \<le> length (pending c)"
proof (induction mx buf c rule: data_loop.induct)
  case (1 mx buf c)
  obtain x c' where rd: "conn_ReadBytes sess_buffer c = (x, c')" by (cases "conn_ReadBytes sess_buffer c")
  show ?case
  proof (cases x)
    case (Some l)
    then show ?thesis
      using rd "1.IH" [OF rd [symmetric] Some] ReadBytes_le [OF rd] drain_le [of c'] by (auto simp: data_step(2))
  qed (use rd ReadBytes_le [OF rd] in \<open>simp add: data_step(1)\<close>)
qed

lemma sys_op_pair: "sys_op c = (ok, c') \<Longrightarrow> rd_buf c' = rd_buf c \<and> rd_in c' = rd_in c"
  using sys_op_frame [of c] by simp

lemma conn_write_pair: "conn_write t c = (ok, c') \<Longrightarrow> rd_buf c' = rd_buf c \<and> rd_in c' = rd_in c"
  using conn_write_frame [of t c] by simp

lemma data_loop_pair: "data_loop mx buf c = (r, c') \<Longrightarrow> length (pending c') \<le> length (pending c)"
  using data_loop_le [of mx buf c] by simp

lemmas growth_conn = no_growth_conn sys_op_pair conn_write_pair data_loop_pair ReadBytes_le

lemma handleHelo_growth: "no_growth s (res_session (handleHelo e cmd d s w))"
  by (auto simp: handleHelo_def Let_def no_growth_fields intro!: growth_intros no_growth_conn
      dest: conn_write_pair split: prod.splits)

lemma handleMail_growth: "no_growth s (res_session (handleMail e l s w))"
  by (auto simp: handleMail_def Let_def no_growth_fields intro!: growth_intros
      split: prod.splits option.splits)

lemma handleRcpt_growth: "no_growth s (res_session (handleRcpt e l s w))"
  by (auto simp: handleRcpt_def Let_def no_growth_fields intro!: growth_intros
      split: prod.splits option.splits)

lemma deliver_data_growth: "no_growth s t \<Longrightarrow> no_growth s (res_session (deliver_data e d t w))"
  by (auto simp: deliver_data_def Let_def no_growth_fields intro!: growth_intros
      split: prod.splits option.splits send_result.splits)

lemma transfer_data_growth: "no_growth s t \<Longrightarrow> no_growth s (res_session (transfer_data e t w))"
  by (cases "data_loop (ss_maxMessageSize t) [] (ss_conn t)"; cases "fst (data_loop (ss_maxMessageSize t) [] (ss_conn t))")
    (auto simp: transfer_data_def Let_def no_growth_fields intro!: growth_intros deliver_data_growth no_growth_conn
      dest!: sys_op_pair data_loop_pair split: prod.splits)

lemma receive_data_growth: "no_growth s (res_session (receive_data e s w))"
proof -
  obtain ok c1 where op: "sys_op (ss_conn s) = (ok, c1)" by (cases "sys_op (ss_conn s)")
  have g1: "no_growth s (s\<lparr>ss_conn := c1\<rparr>)" using sys_op_pair [OF op] by (simp add: no_growth_def)
  obtain r s1 where wr: "writeResponse e 354 ''End data with <CR><LF>.<CR><LF>'' (s\<lparr>ss_conn := c1\<rparr>) = (r, s1)"
    by (cases "writeResponse e 354 ''End data with <CR><LF>.<CR><LF>'' (s\<lparr>ss_conn := c1\<rparr>)")
  have "no_growth s s1" using g1 no_growth_writeResponse [OF wr] by (rule no_growth_trans)
  then show ?thesis using g1 op wr
    by (cases ok; cases r) (simp_all add: receive_data_def transfer_data_growth)
qed

lemma handleData_growth: "no_growth s (res_session (handleData e s w))"
  by (auto simp: handleData_def intro!: growth_intros receive_data_growth split: prod.splits option.splits)

lemma check_password_growth: "no_growth s t \<Longrightarrow> no_growth s (res_session (check_password e u p t w))"
  by (auto simp: check_password_def Let_def no_growth_fields intro!: growth_intros
      split: prod.splits option.splits)

lemma login_password_growth: "no_growth s t \<Longrightarrow> no_growth s (res_session (login_password e u t w))"
  by (auto simp: login_password_def Let_def intro!: growth_intros check_password_growth no_growth_conn
      dest!: ReadBytes_le writeResponse_pair split: prod.splits option.splits hres.splits)

lemma handleAuth_growth: "no_growth s (res_session (handleAuth e l s w))"
proof -
  have plain: "no_growth s (res_session (handleAuthPlain e ps s w))" for ps
    by (auto simp: handleAuthPlain_def Let_def intro!: growth_intros check_password_growth split: option.splits)
  have tok: "no_growth s (res_session (handleAuthSireToken e ps s w))" for ps
    by (auto simp: handleAuthSireToken_def Let_def no_growth_fields intro!: growth_intros split: prod.splits option.splits)
  have login: "no_growth s (res_session (handleAuthLogin e ps s w))" for ps
    by (auto simp: handleAuthLogin_def Let_def intro!: growth_intros login_password_growth no_growth_conn
        dest!: ReadBytes_le writeResponse_pair split: prod.splits option.splits hres.splits)
  show ?thesis by (auto simp: handleAuth_def Let_def intro!: growth_intros plain tok login)
qed

lemma handleStartTLS_growth:
  "handleStartTLS e s w = (up, r, s', w') \<Longrightarrow> if up then upgraded e s s' else no_growth s s'"
  by (auto simp: handleStartTLS_def Let_def reply_def tls_upgrade_def resetTransactionState_def upgraded_def
      no_growth_def dest!: conn_write_pair sys_op_pair writeResponse_pair
      split: prod.splits option.splits sum.splits if_splits, blast)

lemma TimeCommand_session:
  "res_session (TimeCommand cmd x) = res_session x \<or> (\<exists>r. res_session (TimeCommand cmd x) = count_command cmd r (res_session x))"
  by (auto simp: TimeCommand_def case_prod_beta split: hres.splits)

lemma after_handler_session [simp]: "fst (snd (after_handler x)) = res_session x"
  by (simp add: after_handler_def case_prod_beta)

lemma timed_growth: "no_growth s (res_session x) \<Longrightarrow> no_growth s (res_session (TimeCommand cmd x))"
  using TimeCommand_session [of cmd x] no_growth_fields(9) by metis

lemmas handler_growth =
  handleHelo_growth handleMail_growth handleRcpt_growth handleData_growth handleAuth_growth no_growth_reply

lemma handle_line_growth:
  assumes "handle_line e raw s w = (nx, s', w')"
  shows "no_growth s s' \<or> upgraded e s s'"
proof -
  have rset: "no_growth s (res_session (handleRset e s w))"
    by (simp add: handleRset_def no_growth_reply no_growth_fields)
  have quit: "no_growth s (snd (writeResponse e 221 m (count_command a b s)))" for m a b
    using no_growth_writeResponse [of e 221 m "count_command a b s"] no_growth_fields(9) [of s]
    by (metis no_growth_refl no_growth_trans prod.collapse)
  obtain up r t w1 where tls: "handleStartTLS e s w = (up, r, t, w1)"
    by (cases "handleStartTLS e s w") auto
  have "no_growth s t \<or> upgraded e s t" using handleStartTLS_growth [OF tls] by (auto split: if_splits)
  moreover have "upgraded e s (count_command a b t) = upgraded e s t" for a b
    by (simp add: upgraded_def count_command_def)
  ultimately have tls': "no_growth s (res_session (TimeCommand ''STARTTLS'' (r, t, w1))) \<or>
      upgraded e s (res_session (TimeCommand ''STARTTLS'' (r, t, w1)))"
    using TimeCommand_session [of "''STARTTLS''" "(r, t, w1)"] by (auto simp: no_growth_fields)
  have "no_growth s (fst (snd (handle_line e raw s w))) \<or> upgraded e s (fst (snd (handle_line e raw s w)))"
    unfolding handle_line_def Let_def
    using rset quit tls tls' by (auto simp: case_prod_beta no_growth_fields intro!: timed_growth handler_growth)
  then show ?thesis using assms by simp
qed

definition loop_measure :: "session \<Rightarrow> nat \<times> nat" where
  "loop_measure s = (if ss_tls s then 0 else 1, length (pending (ss_conn s)))"

lemma handle_once_less:
  assumes "handle_once e s w = (Continue, s', w')"
  shows "(loop_measure s', loop_measure s) \<in> less_than <*lex*> less_than"
proof -
  obtain ok c1 where op: "sys_op (ss_conn s) = (ok, c1)" by (cases "sys_op (ss_conn s)")
  then obtain raw c2 where rd: "conn_ReadBytes sess_buffer c1 = (Some raw, c2)"
    and hl: "handle_line e raw (s\<lparr>ss_conn := c2\<rparr>) w = (Continue, s', w')"
    using assms by (auto simp: handle_once_def split: if_splits option.splits prod.splits)
  have "length (pending c2) < length (pending (ss_conn s))"
    using conn_ReadBytes_less [OF rd] sys_op_pair [OF op] by simp
  then show ?thesis using handle_line_growth [OF hl]
    by (auto simp: loop_measure_def no_growth_def upgraded_def)
qed

text \<open>The loop of \<open>Handle\<close>, and \<open>Handle\<close> itself.\<close>

function handle_loop :: "'w senv \<Rightarrow> session \<Rightarrow> 'w \<Rightarrow> hres \<times> session \<times> 'w" where
  "handle_loop e s w =
     (case handle_once e s w of
        (Continue, s', w') \<Rightarrow> handle_loop e s' w'
      | (Stop r, s', w') \<Rightarrow> (r, s', w'))"
  by pat_completeness auto
termination
  by (relation "inv_image (less_than <*lex*> less_than) (\<lambda>(e, s, w). loop_measure s)")
    (auto dest: handle_once_less [OF sym])

declare handle_loop.simps [simp del]

definition Handle :: "'w senv \<Rightarrow> session \<Rightarrow> 'w \<Rightarrow> hres \<times> session \<times> 'w" where
  "Handle e s w =
     (case writeResponse e 220 ''smtpd Service Ready'' s of
        (Err err, s1) \<Rightarrow> (Err (Wrapped ''failed to send greeting: '' err []), s1, w)
      | (_, s1) \<Rightarrow> handle_loop e s1 w)"

text \<open>
  The number of passes: the loop with fuel, None when the fuel is used up. The bytes a client
  can still have read are those pending, and after the one upgrade those of the handshake.
\<close>

primrec handle_fuel :: "nat \<Rightarrow> 'w senv \<Rightarrow> session \<Rightarrow> 'w \<Rightarrow> (hres \<times> session \<times> 'w) option" where
  "handle_fuel 0 e s w = None"
| "handle_fuel (Suc n) e s w =
     (case handle_once e s w of
        (Continue, s', w') \<Rightarrow> handle_fuel n e s' w'
      | (Stop r, s', w') \<Rightarrow> Some (r, s', w'))"

definition handshake_bound :: "'w senv \<Rightarrow> nat \<Rightarrow> bool" where
  "handshake_bound e K \<longleftrightarrow> (\<forall>socket w chunks w'. se_Handshake e socket w = (Inr chunks, w') \<longrightarrow> length (concat chunks) \<le> K)"

definition passes_left :: "nat \<Rightarrow> session \<Rightarrow> nat" where
  "passes_left K s = length (pending (ss_conn s)) + (if ss_tls s then 0 else K)"

lemma handle_once_passes:
  assumes "handle_once e s w = (Continue, s', w')" "handshake_bound e K"
  shows "passes_left K s' < passes_left K s"
proof -
  obtain ok c1 where op: "sys_op (ss_conn s) = (ok, c1)" by (cases "sys_op (ss_conn s)")
  then obtain raw c2 where rd: "conn_ReadBytes sess_buffer c1 = (Some raw, c2)"
    and hl: "handle_line e raw (s\<lparr>ss_conn := c2\<rparr>) w = (Continue, s', w')"
    using assms by (auto simp: handle_once_def split: if_splits option.splits prod.splits)
  have "length (pending c2) < length (pending (ss_conn s))"
    using conn_ReadBytes_less [OF rd] sys_op_pair [OF op] by simp
  moreover have "length (pending (ss_conn s')) \<le> K" if up: "upgraded e (s\<lparr>ss_conn := c2\<rparr>) s'"
  proof -
    obtain socket w1 chunks w2 where "se_Handshake e socket w1 = (Inr chunks, w2)" and p: "pending (ss_conn s') = concat chunks"
      using up unfolding upgraded_def by blast
    then have "length (concat chunks) \<le> K" using assms(2) unfolding handshake_bound_def by blast
    then show ?thesis unfolding p .
  qed
  moreover have "no_growth (s\<lparr>ss_conn := c2\<rparr>) s' \<or> \<not> ss_tls s \<and> ss_tls s' \<and> upgraded e (s\<lparr>ss_conn := c2\<rparr>) s'"
    using handle_line_growth [OF hl] by (auto simp: upgraded_def)
  ultimately show ?thesis unfolding passes_left_def no_growth_def by (elim disjE conjE) simp_all
qed

lemma handle_loop_step:
  "handle_once e s w = (Continue, s', w') \<Longrightarrow> handle_loop e s w = handle_loop e s' w'"
  "handle_once e s w = (Stop r, s', w') \<Longrightarrow> handle_loop e s w = (r, s', w')"
  by (simp_all add: handle_loop.simps [of e s w])

lemma handle_fuel_enough:
  "handshake_bound e K \<Longrightarrow> passes_left K s < n \<Longrightarrow> handle_fuel n e s w = Some (handle_loop e s w)"
proof (induction n arbitrary: s w)
  case (Suc n)
  obtain nx s' w' where once: "handle_once e s w = (nx, s', w')" by (cases "handle_once e s w")
  show ?case
  proof (cases nx)
    case Continue
    then show ?thesis
      using Suc handle_once_passes [of e s w s' w' K] once by (simp add: handle_loop_step(1))
  qed (use once in \<open>simp add: handle_loop_step(2)\<close>)
qed simp

text \<open>An invariant of sessions that one pass keeps holds when \<open>Handle\<close> returns.\<close>

lemma handle_loop_invariant:
  assumes "\<And>s w nx s' w'. I s w \<Longrightarrow> handle_once e s w = (nx, s', w') \<Longrightarrow> I s' w'" and "I s w"
    and "handle_loop e s w = (r, s', w')"
  shows "I s' w'"
  using assms
proof (induction e s w rule: handle_loop.induct)
  case (1 e s w)
  obtain nx t v where once: "handle_once e s w = (nx, t, v)" by (cases "handle_once e s w")
  then have t: "I t v" using "1.prems" by blast
  show ?case
  proof (cases nx)
    case Continue
    then have "handle_loop e t v = (r, s', w')" using "1.prems"(3) once by (simp add: handle_loop.simps [of e s w])
    then show ?thesis using "1.IH" [OF once [symmetric] Continue refl _ t] "1.prems"(1) by blast
  next
    case (Stop x)
    then show ?thesis using "1.prems"(3) once t by (simp add: handle_loop.simps [of e s w])
  qed
qed

lemma Handle_invariant:
  assumes step: "\<And>s w nx s' w'. I s w \<Longrightarrow> handle_once e s w = (nx, s', w') \<Longrightarrow> I s' w'" and s: "I s w"
    and conn: "\<And>s c. I s w \<Longrightarrow> I (s\<lparr>ss_conn := c\<rparr>) w"
    and res: "Handle e s w = (r, s', w')"
  shows "I s' w'"
proof -
  obtain x s1 where wr: "writeResponse e 220 ''smtpd Service Ready'' s = (x, s1)"
    by (cases "writeResponse e 220 ''smtpd Service Ready'' s")
  have s1: "I s1 w" using conn [OF s] writeResponse_pair [OF wr] by auto
  show ?thesis
  proof (cases "\<exists>err. x = Err err")
    case True
    then show ?thesis using res wr s1 by (auto simp: Handle_def)
  next
    case False
    then have "handle_loop e s1 w = (r, s', w')" using res wr by (cases x) (auto simp: Handle_def)
    then show ?thesis using handle_loop_invariant [of I e s1 w r s' w'] step s1 by blast
  qed
qed

section \<open>The session ends\<close>

text \<open>
  C21: A session ends after a bounded number of commands. When a TLS handshake leaves at most
  \<open>K\<close> bytes to read, the command loop stops within one pass more than the number of bytes the
  client has sent, plus \<open>K\<close> on a connection that is not encrypted yet: whatever the commands,
  the failures and the plugins are, no client keeps the loop running without sending data.
\<close>

theorem session_ends:
  assumes "handshake_bound e K" "length (pending (ss_conn s)) + (if ss_tls s then 0 else K) < n"
  shows "handle_fuel n e s w = Some (handle_loop e s w)"
  using handle_fuel_enough [OF assms(1)] assms(2) by (simp add: passes_left_def)

definition quiet_env :: "unit senv" where
  "quiet_env = \<lparr>se_plugins = [], se_Enqueue = (\<lambda>_ _ w. (SendOk, w)), se_userStore = None, se_jwtValidator = None,
     se_CreateTLS = (\<lambda>_ w. (None, w)), se_Handshake = (\<lambda>_ w. (Inr [''QUIT'' @ CRLF], w)),
     se_NewString = (\<lambda>w. (''id'', w)), se_Now = (\<lambda>w. (7, w)),
     se_ioErr = TextError ''io'', se_readErr = TextError ''EOF''\<rparr>"

definition quiet_session :: session where
  "quiet_session = \<lparr>ss_conn = new_conn [''NOOP'' @ CRLF @ ''QU'', ''IT'' @ CRLF], ss_state = StateInitial, ss_tlsConfig = None, ss_forceTLS = False,
     ss_tls = False, ss_auth = False, ss_helo = [], ss_sender = [], ss_recipients = [], ss_serverName = [],
     ss_remoteAddr = OtherAddr [], ss_localAddr = [], ss_ctx = [], ss_baseCtx = [], ss_sessionID = [],
     ss_localDomains = [], ss_readTimeout = 0, ss_writeTimeout = 0, ss_idleTimeout = 0,
     ss_maxMessageSize = 0, ss_submitted = [], ss_counted = []\<rparr>"

theorem session_ends_witness:
  "handle_fuel 19 quiet_env quiet_session () = Some (handle_loop quiet_env quiet_session ())"
proof -
  have "handshake_bound quiet_env 6" by (simp add: handshake_bound_def quiet_env_def)
  moreover have "length (pending (ss_conn quiet_session)) + (if ss_tls quiet_session then 0 else 6) < 19"
    by (simp add: quiet_session_def new_conn_def)
  ultimately show ?thesis by (rule session_ends)
qed

end
