(* ===== verification/SessionSafety.thy ===== *)
theory SessionSafety
  imports SessionProps
begin

text \<open>
  What holds of every session, whatever the client sends, however its bytes are cut into
  chunks, whatever the plugins answer and whichever socket operations fail.
\<close>

section \<open>The session invariant\<close>

definition local_in :: "string list \<Rightarrow> string \<Rightarrow> bool" where
  "local_in domains addr =
     (case LastIndexByte addr (CHR ''@'') of
        None \<Rightarrow> False
      | Some at \<Rightarrow> list_ex (\<lambda>d. EqualFold (drop (at + 1) addr) d) domains)"

lemma isLocalRecipient_eq: "isLocalRecipient s = local_in (ss_localDomains s)"
  by (simp add: isLocalRecipient_def local_in_def fun_eq_iff)

text \<open>What is fixed for the life of a session.\<close>

definition sess_fixed :: "session \<Rightarrow> string list \<times> TLSConfig option \<times> bool \<times> int" where
  "sess_fixed s = (ss_localDomains s, ss_tlsConfig s, ss_forceTLS s, ss_maxMessageSize s)"

definition secured :: "session \<Rightarrow> bool" where
  "secured s \<longleftrightarrow> ss_tls s \<or> ss_tlsConfig s = None"

definition submitted_ok :: "string list \<Rightarrow> int \<Rightarrow> Message \<times> bool \<Rightarrow> bool" where
  "submitted_ok domains maxSize = (\<lambda>(m, authenticated).
     To m \<noteq> [] \<and> isValidEmail (From m) \<and> int (length (Data m)) \<le> max 0 maxSize \<and>
     list_all (\<lambda>r. isValidEmail r \<and> (authenticated \<or> local_in domains r)) (To m))"

definition sess_inv :: "session \<Rightarrow> bool" where
  "sess_inv s \<longleftrightarrow>
     (ss_auth s \<longrightarrow> secured s) \<and> (ss_forceTLS s \<longrightarrow> ss_tls s) \<and>
     (ss_state s = StateRcpt \<longrightarrow> ss_recipients s = []) \<and> (ss_state s = StateData \<longrightarrow> ss_recipients s \<noteq> []) \<and>
     (ss_state s \<in> {StateRcpt, StateData} \<longrightarrow> isValidEmail (ss_sender s)) \<and>
     list_all (\<lambda>r. isValidEmail r \<and> (ss_auth s \<or> isLocalRecipient s r)) (ss_recipients s) \<and>
     list_all (\<lambda>x. submitted_ok (ss_localDomains s) (ss_maxMessageSize s) x \<and> (snd x \<longrightarrow> secured s)) (ss_submitted s)"

definition sess_ok :: "string list \<times> TLSConfig option \<times> bool \<times> int \<Rightarrow> session \<Rightarrow> bool" where
  "sess_ok F s \<longleftrightarrow> sess_inv s \<and> sess_fixed s = F"

lemmas sess_ok_defs = sess_ok_def sess_inv_def sess_fixed_def secured_def isLocalRecipient_eq

lemma sess_ok_conn_free: "conn_free (sess_ok F)"
  by (simp add: conn_free_def sess_ok_defs)

lemma sess_ok_conn [simp]: "sess_ok F (s\<lparr>ss_conn := c\<rparr>) = sess_ok F s"
  using sess_ok_conn_free by (auto simp: conn_free_def)

lemmas sess_ok_reply [simp] =
  conn_free_reply [OF sess_ok_conn_free] conn_free_plugin_reply [OF sess_ok_conn_free]

lemmas sess_ok_write = conn_free_writeResponse [OF sess_ok_conn_free]

lemma sess_ok_count [simp]: "sess_ok F (count_command a b s) = sess_ok F s"
  by (simp add: count_command_def sess_ok_defs)

lemma sess_ok_restart:
  "sess_ok F s \<Longrightarrow> sess_ok F (resetTransactionState (s\<lparr>ss_state := StateMail\<rparr>))"
  "sess_ok F s \<Longrightarrow> ss_state s = StateMail \<Longrightarrow> sess_ok F (resetTransactionState s)"
  by (auto simp: resetTransactionState_def sess_ok_defs)

lemma handleHelo_ok: "sess_ok F s \<Longrightarrow> sess_ok F (res_session (handleHelo e cmd d s w))"
proof -
  assume "sess_ok F s"
  then have "sess_ok F (s\<lparr>ss_helo := d, ss_state := StateMail\<rparr>)" by (auto simp: sess_ok_defs)
  then show ?thesis by (simp add: handleHelo_def Let_def case_prod_beta)
qed

lemma handleMail_ok: "sess_ok F s \<Longrightarrow> sess_ok F (res_session (handleMail e l s w))"
proof -
  assume s: "sess_ok F s"
  have "sess_ok F ((resetTransactionState s)\<lparr>ss_sender := a, ss_state := StateRcpt, ss_ctx := c\<rparr>)"
    if "isValidEmail a" for a c
    using s that by (auto simp: resetTransactionState_def sess_ok_defs)
  then show ?thesis using s sess_ok_restart(2) [OF s]
    by (auto simp: handleMail_def Let_def split: prod.splits option.splits)
qed

lemma handleRcpt_ok: "sess_ok F s \<Longrightarrow> sess_ok F (res_session (handleRcpt e l s w))"
proof -
  assume s: "sess_ok F s"
  have "sess_ok F (s\<lparr>ss_recipients := ss_recipients s @ [a], ss_state := StateData\<rparr>)"
    if "isValidEmail a" "ss_auth s \<or> isLocalRecipient s a" "ss_state s = StateRcpt \<or> ss_state s = StateData" for a
    using s that by (auto simp: sess_ok_defs)
  then show ?thesis using s by (auto simp: handleRcpt_def Let_def split: prod.splits option.splits)
qed

lemma data_loop_bound:
  "data_loop mx buf c = (DataOk d, c') \<Longrightarrow> int (length buf) \<le> max 0 mx \<Longrightarrow> int (length d) \<le> max 0 mx"
proof (induction mx buf c rule: data_loop.induct)
  case (1 mx buf c)
  obtain x c1 where rd: "conn_ReadBytes sess_buffer c = (x, c1)" by (cases "conn_ReadBytes sess_buffer c")
  show ?case
  proof (cases x)
    case None
    then show ?thesis using "1.prems" rd by (simp add: data_step(1))
  next
    case (Some l)
    then show ?thesis using "1.prems" rd "1.IH" [OF rd [symmetric] Some]
      by (auto simp: data_step(2) split: if_splits)
  qed
qed

lemma deliver_data_ok:
  assumes s: "sess_ok F s" and st: "ss_state s = StateData" and d: "int (length d) \<le> max 0 (ss_maxMessageSize s)"
  shows "sess_ok F (res_session (deliver_data e d s w))"
proof -
  have sub: "sess_ok F (s\<lparr>ss_submitted := ss_submitted s @ [(\<lparr>ID = i, From = ss_sender s, To = ss_recipients s,
      Data = d, CreatedAt = t, RetryCount = 0, NextAttemptAt = 0\<rparr>, ss_auth s)]\<rparr>)" for i t
    using s st d by (auto simp: sess_ok_defs submitted_ok_def)
  show ?thesis
    by (auto simp: deliver_data_def Let_def s sub sess_ok_restart(1) [OF sub] split: prod.splits option.splits send_result.splits)
qed

lemma transfer_data_ok:
  assumes "sess_ok F s" "ss_state s = StateData"
  shows "sess_ok F (res_session (transfer_data e s w))"
proof -
  obtain r c where dl: "data_loop (ss_maxMessageSize s) [] (ss_conn s) = (r, c)"
    by (cases "data_loop (ss_maxMessageSize s) [] (ss_conn s)")
  show ?thesis
  proof (cases r)
    case (DataOk d)
    then have "int (length d) \<le> max 0 (ss_maxMessageSize s)" using data_loop_bound dl by simp
    then show ?thesis using assms dl DataOk by (auto simp: transfer_data_def intro!: deliver_data_ok split: prod.splits)
  qed (use assms dl sess_ok_restart(1) [of F "s\<lparr>ss_conn := c\<rparr>"] in \<open>simp_all add: transfer_data_def\<close>)
qed

lemma handleData_ok: "sess_ok F s \<Longrightarrow> sess_ok F (res_session (handleData e s w))"
proof -
  assume s: "sess_ok F s"
  have "sess_ok F (res_session (receive_data e s w1))" if st: "ss_state s = StateData" for w1
  proof -
    have "sess_ok F (res_session (transfer_data e s1 w1)) \<and> sess_ok F s1"
      if "writeResponse e 354 m (s\<lparr>ss_conn := c\<rparr>) = (r, s1)" for m c r s1
      using transfer_data_ok [of F s1 e w1] sess_ok_write [OF that] writeResponse_pair [OF that] s st by auto
    then show ?thesis using s
      by (auto simp: receive_data_def split: prod.splits hres.splits)
  qed
  then show ?thesis using s by (auto simp: handleData_def split: prod.splits option.splits)
qed

section \<open>Authentication\<close>

lemma sess_ok_auth: "sess_ok F s \<Longrightarrow> secured s \<Longrightarrow> sess_ok F (s\<lparr>ss_auth := True\<rparr>)"
  by (auto simp: sess_ok_defs list_all_iff)

lemma check_password_ok:
  "sess_ok F s \<Longrightarrow> secured s \<Longrightarrow> sess_ok F (res_session (check_password e u p s w))"
  by (auto simp: check_password_def sess_ok_auth split: prod.splits option.splits)

lemma secured_conn [simp]: "secured (s\<lparr>ss_conn := c\<rparr>) = secured s"
  by (simp add: secured_def)

lemma login_password_ok:
  "sess_ok F s \<Longrightarrow> secured s \<Longrightarrow> sess_ok F (res_session (login_password e u s w))"
  by (auto simp: login_password_def Let_def intro!: check_password_ok dest!: writeResponse_pair
      split: prod.splits option.splits hres.splits)

lemma handleAuth_ok: "sess_ok F s \<Longrightarrow> sess_ok F (res_session (handleAuth e l s w))"
proof -
  assume s: "sess_ok F s"
  have plain: "sess_ok F (res_session (handleAuthPlain e ps s w))" if "secured s" for ps
    using s that by (auto simp: handleAuthPlain_def Let_def check_password_ok split: option.splits)
  have login: "sess_ok F (res_session (handleAuthLogin e ps s w))" if "secured s" for ps
    using s that
    by (auto simp: handleAuthLogin_def Let_def login_password_ok dest!: writeResponse_pair
        split: prod.splits option.splits hres.splits)
  have tok: "sess_ok F (res_session (handleAuthSireToken e ps s w))" if "secured s" for ps
    using s that by (auto simp: handleAuthSireToken_def sess_ok_auth split: prod.splits option.splits)
  have sec: "secured s" if "ss_tls s \<or> ss_tlsConfig s = None \<or> ss_forceTLS s" "\<not> ss_forceTLS s \<or> ss_tls s"
    using that by (auto simp: secured_def)
  show ?thesis using s plain login tok sec by (auto simp: handleAuth_def Let_def)
qed

section \<open>Every pass keeps the invariant\<close>

lemma tls_upgrade_ok: "sess_ok F s \<Longrightarrow> sess_ok F (tls_upgrade ch c s)"
  by (auto simp: tls_upgrade_def resetTransactionState_def sess_ok_defs list_all_iff)

lemma handleStartTLS_ok:
  "sess_ok F s \<Longrightarrow> handleStartTLS e s w = (up, res) \<Longrightarrow> sess_ok F (res_session res)"
  by (auto simp: handleStartTLS_def Let_def tls_upgrade_ok
      split: prod.splits option.splits sum.splits if_splits)

lemma timed_ok: "sess_ok F (res_session x) \<Longrightarrow> sess_ok F (res_session (TimeCommand cmd x))"
  using TimeCommand_session [of cmd x] by auto

lemmas handler_ok = handleHelo_ok handleMail_ok handleRcpt_ok handleData_ok handleAuth_ok

lemma handle_line_ok: "sess_ok F s \<Longrightarrow> sess_ok F (fst (snd (handle_line e raw s w)))"
proof -
  assume s: "sess_ok F s"
  have rset: "sess_ok F (res_session (handleRset e s w))"
    using s by (simp add: handleRset_def sess_ok_restart(1))
  have quit: "sess_ok F (snd (writeResponse e 221 m (count_command a b s)))" for m a b
    using s sess_ok_write [of e 221 m "count_command a b s" _ _ F] by (metis prod.collapse sess_ok_count)
  obtain up res where tls: "handleStartTLS e s w = (up, res)" by (cases "handleStartTLS e s w")
  have tls': "sess_ok F (res_session (TimeCommand ''STARTTLS'' res))"
    using handleStartTLS_ok [OF s tls] by (rule timed_ok)
  show ?thesis unfolding handle_line_def Let_def
    using s rset quit tls tls' by (auto simp: case_prod_beta intro!: timed_ok handler_ok)
qed

lemma handle_once_ok: "sess_ok F s \<Longrightarrow> handle_once e s w = (nx, s', w') \<Longrightarrow> sess_ok F s'"
proof -
  assume s: "sess_ok F s" and once: "handle_once e s w = (nx, s', w')"
  have "sess_ok F (fst (snd (handle_line e raw (s\<lparr>ss_conn := c\<rparr>) w)))" for raw c
    using handle_line_ok [of F "s\<lparr>ss_conn := c\<rparr>"] s by simp
  then have "sess_ok F (fst (snd (handle_once e s w)))"
    using s by (auto simp: handle_once_def split: prod.splits option.splits)
  then show ?thesis using once by simp
qed

lemma Handle_ok:
  assumes "sess_ok F s" "Handle e s w = (r, s', w')"
  shows "sess_ok F s'"
  by (rule Handle_invariant [of "\<lambda>s w. sess_ok F s" e s w r s' w']) (auto intro: handle_once_ok assms)

lemma sess_Reset_ok:
  "sess_ok (ss_localDomains s, cfg, isTLS, if ss_maxMessageSize s = 0 then DefaultMaxMessageSize else ss_maxMessageSize s)
     (sess_Reset cn isTLS remote local cfg sid s)"
  by (auto simp: sess_Reset_def resetTransactionState_def sess_ok_defs Let_def)

section \<open>Message data on the wire\<close>

text \<open>A line with its line feed, and the dot stuffing a client applies to it.\<close>

definition is_line :: "string \<Rightarrow> bool" where
  "is_line l \<longleftrightarrow> l \<noteq> [] \<and> last l = LF \<and> LF \<notin> set (butlast l)"

definition stuff :: "string \<Rightarrow> string" where
  "stuff l = (if HasPrefix l ''.'' then CHR ''.'' # l else l)"

lemma is_line_stuff: "is_line l \<Longrightarrow> is_line (stuff l)"
  by (auto simp: is_line_def stuff_def)

lemma is_line_terminator: "is_line terminator"
  by (simp add: is_line_def terminator_def)

lemma unstuff_stuff: "unstuff (stuff l) = l"
  by (cases l) (auto simp: unstuff_def stuff_def HasPrefix_def)

lemma stuff_not_terminator: "stuff l \<noteq> terminator"
  by (cases l) (auto simp: stuff_def HasPrefix_def terminator_def)

lemma ReadBytes_line:
  assumes "is_line l" "pending c = l @ rest"
  shows "\<exists>c'. conn_ReadBytes n c = (Some l, c') \<and> pending c' = rest"
proof -
  have "split_line (l @ rest) = Some (l, rest)"
    using assms(1) split_line_unique [of l rest] by (auto simp: is_line_def)
  then have "split_line (pending c) = Some (l, rest)" by (simp only: assms(2))
  then show ?thesis using conn_ReadBytes_stream [of n c] by (cases "conn_ReadBytes n c") simp
qed

definition on_wire :: "string list \<Rightarrow> string" where
  "on_wire ls = concat (map stuff ls) @ terminator"

lemma on_wire_Cons: "on_wire (l # ls) @ rest = stuff l @ on_wire ls @ rest"
  by (simp add: on_wire_def)

lemma drain_on_wire:
  "list_all is_line ls \<Longrightarrow> pending c = on_wire ls @ rest \<Longrightarrow>
     fst (drainUntilDataTerminator c) \<and> pending (snd (drainUntilDataTerminator c)) = rest"
proof (induction ls arbitrary: c)
  case Nil
  then show ?case using ReadBytes_line [OF is_line_terminator, of c rest sess_buffer]
    by (auto simp: on_wire_def drain_step(2))
next
  case (Cons l ls)
  then obtain c' where "conn_ReadBytes sess_buffer c = (Some (stuff l), c')" "pending c' = on_wire ls @ rest"
    using ReadBytes_line [OF is_line_stuff, of l c "on_wire ls @ rest" sess_buffer] by (auto simp only: on_wire_Cons list.pred_inject)
  then show ?case using Cons.IH [of c'] Cons.prems by (simp add: drain_step(2) stuff_not_terminator)
qed

lemma data_loop_on_wire:
  "list_all is_line ls \<Longrightarrow> pending c = on_wire ls @ rest \<Longrightarrow>
     fst (data_loop mx buf c) =
       (if ls = [] \<or> int (length buf + length (concat ls)) \<le> mx then DataOk (buf @ concat ls) else DataTooBig) \<and>
     pending (snd (data_loop mx buf c)) = rest"
proof (induction ls arbitrary: buf c)
  case Nil
  then show ?case using ReadBytes_line [OF is_line_terminator, of c rest sess_buffer]
    by (auto simp: on_wire_def data_step(2))
next
  case (Cons l ls)
  then obtain c' where c': "conn_ReadBytes sess_buffer c = (Some (stuff l), c')" "pending c' = on_wire ls @ rest"
    using ReadBytes_line [OF is_line_stuff, of l c "on_wire ls @ rest" sess_buffer] by (auto simp only: on_wire_Cons list.pred_inject)
  have step: "data_loop mx buf c =
      (if mx < int (length buf + length l)
       then (if fst (drainUntilDataTerminator c') then DataTooBig else DataErr, snd (drainUntilDataTerminator c'))
       else data_loop mx (buf @ l) c')"
    using c'(1) by (simp add: data_step(2) stuff_not_terminator unstuff_stuff)
  have ls: "list_all is_line ls" using Cons.prems(1) by simp
  show ?case
  proof (cases "mx < int (length buf + length l)")
    case True
    then show ?thesis using step drain_on_wire [OF ls c'(2)] by simp
  next
    case False
    then show ?thesis using step Cons.IH [OF ls c'(2), of "buf @ l"] by auto
  qed
qed

section \<open>Properties\<close>

text \<open>
  C7: Dot stuffing round trip and the size limit. A body sent as dot-stuffed lines and the
  terminator, in whatever chunks it arrives, is received as the lines without the stuffing when
  it is within the limit; when it is over the limit it is refused and nothing is kept. In both
  cases reading stops exactly after the terminator, so the next command is read in step. (Lines
  end at a line feed: the terminator is also recognised after a line without carriage return.)
\<close>

theorem data_transfer:
  assumes "list_all is_line ls" "pending c = on_wire ls @ rest"
  shows "fst (data_loop mx [] c) =
           (if ls = [] \<or> int (length (concat ls)) \<le> mx then DataOk (concat ls) else DataTooBig) \<and>
         pending (snd (data_loop mx [] c)) = rest"
  using data_loop_on_wire [OF assms, of mx "[]"] by simp

theorem data_transfer_witness:
  "fst (data_loop 100 [] (new_conn [''a'' @ [LF] @ ''..b'' @ CRLF @ ''.'', CRLF @ ''QUIT''])) =
     DataOk (''a'' @ [LF] @ ''.b'' @ CRLF) \<and>
   pending (snd (data_loop 100 [] (new_conn [''a'' @ [LF] @ ''..b'' @ CRLF @ ''.'', CRLF @ ''QUIT'']))) = ''QUIT'' \<and>
   fst (data_loop 1 [] (new_conn [''a'' @ [LF] @ ''..b'' @ CRLF @ ''.'', CRLF @ ''QUIT''])) = DataTooBig"
proof -
  let ?c = "new_conn [''a'' @ [LF] @ ''..b'' @ CRLF @ ''.'', CRLF @ ''QUIT'']"
  have l: "list_all is_line [''a'' @ [LF], ''.b'' @ CRLF]" by (simp add: is_line_def)
  have p: "pending ?c = on_wire [''a'' @ [LF], ''.b'' @ CRLF] @ ''QUIT''"
    by (simp add: new_conn_def on_wire_def stuff_def HasPrefix_def terminator_def)
  show ?thesis using data_transfer [OF l p, of 100] data_transfer [OF l p, of 1] by simp
qed

subsection \<open>Authentication\<close>

lemma ss_auth_conn_free: "conn_free ss_auth"
  by (simp add: conn_free_def)

lemmas auth_reply [simp] =
  conn_free_reply [OF ss_auth_conn_free] conn_free_plugin_reply [OF ss_auth_conn_free]

lemma auth_fields [simp]:
  "ss_auth (resetTransactionState s) = ss_auth s" "ss_auth (count_command a b s) = ss_auth s"
  by (simp_all add: resetTransactionState_def count_command_def)

lemma auth_handlers:
  "ss_auth (res_session (handleHelo e c d s w)) = ss_auth s"
  "ss_auth (res_session (handleMail e l s w)) = ss_auth s"
  "ss_auth (res_session (handleRcpt e l s w)) = ss_auth s"
  "ss_auth (res_session (handleRset e s w)) = ss_auth s"
  "ss_auth (res_session (deliver_data e dat s w)) = ss_auth s"
  by (auto simp: handleHelo_def handleMail_def handleRcpt_def handleRset_def deliver_data_def Let_def
      split: prod.splits option.splits send_result.splits)

lemma auth_transfer: "ss_auth (res_session (transfer_data e s w)) = ss_auth s"
  by (cases "data_loop (ss_maxMessageSize s) [] (ss_conn s)"; cases "fst (data_loop (ss_maxMessageSize s) [] (ss_conn s))")
    (auto simp: transfer_data_def auth_handlers split: prod.splits)

lemma auth_handleData: "ss_auth (res_session (handleData e s w)) = ss_auth s"
  by (auto simp: handleData_def receive_data_def auth_transfer dest!: writeResponse_pair
      split: prod.splits option.splits hres.splits)

lemma auth_handleStartTLS: "handleStartTLS e s w = (up, res) \<Longrightarrow> ss_auth (res_session res) \<Longrightarrow> ss_auth s"
  by (auto simp: handleStartTLS_def Let_def tls_upgrade_def split: prod.splits option.splits sum.splits if_splits)

text \<open>The credentials a client presented with an AUTH command and the lines after it.\<close>

definition third_arg :: "string \<Rightarrow> string" where
  "third_arg line = SplitN line (CHR '' '') 3 ! 2"

definition client_gave :: "session \<Rightarrow> string \<Rightarrow> string \<Rightarrow> string \<Rightarrow> bool" where
  "client_gave s line u p \<longleftrightarrow>
     (\<exists>cred z. DecodeString (third_arg line) = Some cred \<and> Split cred (CHR 0x00) = [z, u, p]) \<or>
     (\<exists>l b. pending (ss_conn s) = l @ b \<and> DecodeString (third_arg line) = Some u \<and> DecodeString (TrimSpace l) = Some p) \<or>
     (\<exists>k l b. pending (ss_conn s) = k @ l @ b \<and> DecodeString (TrimSpace k) = Some u \<and> DecodeString (TrimSpace l) = Some p)"

definition store_accepts :: "'w senv \<Rightarrow> string \<Rightarrow> string \<Rightarrow> 'w \<Rightarrow> bool" where
  "store_accepts e u p w \<longleftrightarrow> (\<exists>f. se_userStore e = Some f \<and> fst (f u p w) = (True, None))"

definition token_accepted :: "'w senv \<Rightarrow> string \<Rightarrow> 'w \<Rightarrow> bool" where
  "token_accepted e t w \<longleftrightarrow> (\<exists>f. se_jwtValidator e = Some f \<and> snd (fst (f t w)) = None)"

lemma check_password_auth:
  "ss_auth (res_session (check_password e u p s w)) \<Longrightarrow> ss_auth s \<or> store_accepts e u p w"
  by (auto simp: check_password_def store_accepts_def split: prod.splits option.splits if_splits)

lemma login_password_auth:
  assumes "ss_auth (res_session (login_password e u s w))" "\<not> ss_auth s"
  shows "\<exists>l b p. pending (ss_conn s) = l @ b \<and> DecodeString (TrimSpace l) = Some p \<and> store_accepts e u p w"
proof -
  obtain r s1 where wr: "writeResponse e 334 ''UGFzc3dvcmQ6'' s = (r, s1)"
    by (cases "writeResponse e 334 ''UGFzc3dvcmQ6'' s")
  note fr = writeResponse_pair [OF wr]
  obtain x c where rd: "conn_ReadBytes sess_buffer (ss_conn s1) = (x, c)"
    by (cases "conn_ReadBytes sess_buffer (ss_conn s1)")
  have "\<not> ss_auth s1" using fr assms(2) by auto
  then obtain l p where lp: "x = Some l" "DecodeString (TrimSpace l) = Some p"
      "ss_auth (res_session (check_password e u p (s1\<lparr>ss_conn := c\<rparr>) w))"
    using assms wr rd by (auto simp: login_password_def Let_def split: hres.splits option.splits)
  have "pending (ss_conn s) = l @ pending c"
    using conn_ReadBytes_Some [of sess_buffer "ss_conn s1" l c] rd lp(1) fr by auto
  then show ?thesis using lp check_password_auth [OF lp(3)] \<open>\<not> ss_auth s1\<close> by auto
qed

lemma handleAuthLogin_auth:
  assumes "ss_auth (res_session (handleAuthLogin e (SplitN line (CHR '' '') 3) s w))" "\<not> ss_auth s"
  shows "\<exists>u p. client_gave s line u p \<and> store_accepts e u p w"
proof (cases "length (SplitN line (CHR '' '') 3) = 3")
  case True
  then obtain u where u: "DecodeString (third_arg line) = Some u" "ss_auth (res_session (login_password e u s w))"
    using assms by (auto simp: handleAuthLogin_def third_arg_def split: option.splits)
  obtain l b p where "pending (ss_conn s) = l @ b" "DecodeString (TrimSpace l) = Some p" "store_accepts e u p w"
    using login_password_auth [OF u(2) assms(2)] by blast
  then have "client_gave s line u p \<and> store_accepts e u p w" using u(1) unfolding client_gave_def by blast
  then show ?thesis by blast
next
  case False
  obtain r s1 where wr: "writeResponse e 334 ''VXNlcm5hbWU6'' s = (r, s1)"
    by (cases "writeResponse e 334 ''VXNlcm5hbWU6'' s")
  note fr = writeResponse_pair [OF wr]
  obtain x c where rd: "conn_ReadBytes sess_buffer (ss_conn s1) = (x, c)"
    by (cases "conn_ReadBytes sess_buffer (ss_conn s1)")
  have na: "\<not> ss_auth s1" using fr assms(2) by auto
  then obtain k u where k: "x = Some k" "DecodeString (TrimSpace k) = Some u"
      "ss_auth (res_session (login_password e u (s1\<lparr>ss_conn := c\<rparr>) w))"
    using assms wr rd False by (auto simp: handleAuthLogin_def Let_def split: hres.splits option.splits if_splits)
  have "pending (ss_conn s) = k @ pending c"
    using conn_ReadBytes_Some [of sess_buffer "ss_conn s1" k c] rd k(1) fr by auto
  moreover obtain l b p where "pending c = l @ b" "DecodeString (TrimSpace l) = Some p" "store_accepts e u p w"
    using login_password_auth [OF k(3)] na by auto
  ultimately have "client_gave s line u p \<and> store_accepts e u p w"
    using k(2) unfolding client_gave_def by metis
  then show ?thesis by blast
qed

lemma handleAuthPlain_auth:
  assumes "ss_auth (res_session (handleAuthPlain e (SplitN line (CHR '' '') 3) s w))" "\<not> ss_auth s"
  shows "\<exists>u p. client_gave s line u p \<and> store_accepts e u p w"
proof -
  obtain cred where cred: "DecodeString (third_arg line) = Some cred" "length (Split cred (CHR 0x00)) = 3"
    "ss_auth (res_session (check_password e (Split cred (CHR 0x00) ! 1) (Split cred (CHR 0x00) ! 2) s w))"
    using assms by (auto simp: handleAuthPlain_def third_arg_def Let_def split: option.splits if_splits)
  then obtain z u p where "Split cred (CHR 0x00) = [z, u, p]"
    by (auto simp: numeral_3_eq_3 length_Suc_conv)
  then show ?thesis using cred check_password_auth [OF cred(3)] assms(2) by (auto simp: client_gave_def)
qed

lemma handleAuthSireToken_auth:
  assumes "ss_auth (res_session (handleAuthSireToken e (SplitN line (CHR '' '') 3) s w))" "\<not> ss_auth s"
  shows "\<exists>t. DecodeString (third_arg line) = Some t \<and> token_accepted e t w"
  using assms
  by (auto simp: handleAuthSireToken_def third_arg_def token_accepted_def split: option.splits if_splits prod.splits)

lemma handleAuth_auth:
  assumes "ss_auth (res_session (handleAuth e line s w))" "\<not> ss_auth s"
  shows "(ss_tls s \<or> ss_tlsConfig s = None) \<and> ss_state s = StateMail \<and>
     ((\<exists>u p. client_gave s line u p \<and> store_accepts e u p w) \<or>
      (\<exists>t. DecodeString (third_arg line) = Some t \<and> token_accepted e t w))"
  using assms handleAuthPlain_auth [of e line s w] handleAuthLogin_auth [of e line s w]
    handleAuthSireToken_auth [of e line s w]
  by (auto simp: handleAuth_def Let_def split: if_splits)

text \<open>
  C9: A session becomes authenticated only by an AUTH command in the mail state, over TLS
  whenever TLS is configured, with credentials of the client that the user store accepted or
  with a token of the client that the JWT validator accepted.
\<close>

theorem auth_needs_credentials:
  assumes "handle_line e raw s w = (nx, s', w')" "\<not> ss_auth s" "ss_auth s'"
  shows "(ss_tls s \<or> ss_tlsConfig s = None) \<and> ss_state s = StateMail \<and>
     ((\<exists>u p. client_gave s (TrimSpace raw) u p \<and> store_accepts e u p w) \<or>
      (\<exists>t. DecodeString (third_arg (TrimSpace raw)) = Some t \<and> token_accepted e t w))"
proof -
  have timed: "ss_auth (res_session (TimeCommand c x)) = ss_auth (res_session x)" for c x
    using TimeCommand_session [of c x] by auto
  have quit: "\<not> ss_auth (snd (writeResponse e 221 m (count_command a b s)))" for m a b
    using assms(2) conn_free_writeResponse [OF ss_auth_conn_free] by (metis auth_fields(2) prod.collapse)
  obtain up res where tls: "handleStartTLS e s w = (up, res)" by (cases "handleStartTLS e s w")
  have na: "\<not> ss_auth (res_session res)" using auth_handleStartTLS [OF tls] assms(2) by blast
  have "ss_auth (fst (snd (handle_line e raw s w)))" using assms by simp
  then have "ss_auth (res_session (handleAuth e (TrimSpace raw) s w))"
    using assms(2) quit na
    by (auto simp: handle_line_def Let_def timed auth_handlers auth_handleData tls case_prod_beta split: if_splits)
  from handleAuth_auth [OF this assms(2)] show ?thesis .
qed

definition plain_env :: "unit senv" where
  "plain_env = \<lparr>se_plugins = [], se_Enqueue = (\<lambda>_ _ w. (SendOk, w)),
     se_userStore = Some (\<lambda>u p w. ((u = ''ann'' \<and> p = ''pw'', None), w)), se_jwtValidator = None,
     se_CreateTLS = (\<lambda>_ w. (None, w)), se_Handshake = (\<lambda>_ w. (Inr [''EHLO x'' @ CRLF], w)),
     se_NewString = (\<lambda>w. (''id'', w)), se_Now = (\<lambda>w. (7, w)),
     se_ioErr = TextError ''io'', se_readErr = TextError ''EOF''\<rparr>"

definition blank_session :: session where
  "blank_session = \<lparr>ss_conn = new_conn [], ss_state = StateMail, ss_tlsConfig = None, ss_forceTLS = False,
     ss_tls = False, ss_auth = False, ss_helo = [], ss_sender = [], ss_recipients = [], ss_serverName = [],
     ss_remoteAddr = OtherAddr [], ss_localAddr = [], ss_ctx = [], ss_baseCtx = [], ss_sessionID = [],
     ss_localDomains = [''b.org''], ss_readTimeout = 0, ss_writeTimeout = 0, ss_idleTimeout = 0,
     ss_maxMessageSize = 0, ss_submitted = [], ss_counted = []\<rparr>"

theorem auth_needs_credentials_witness:
  "ss_auth (fst (snd (handle_line plain_env (''AUTH PLAIN AGFubgBwdw=='' @ CRLF) blank_session ()))) \<and>
   (\<exists>u p. client_gave blank_session ''AUTH PLAIN AGFubgBwdw=='' u p \<and> store_accepts plain_env u p ())"
proof -
  let ?line = "''AUTH PLAIN AGFubgBwdw=='' @ CRLF"
  obtain nx s' w' where h: "handle_line plain_env ?line blank_session () = (nx, s', w')"
    by (cases "handle_line plain_env ?line blank_session ()")
  have "ss_auth (fst (snd (handle_line plain_env ?line blank_session ())))" by code_simp
  then have a: "ss_auth s'" by (simp only: h fst_conv snd_conv)
  have na: "\<not> ss_auth blank_session" by (simp add: blank_session_def)
  have t: "TrimSpace ?line = ''AUTH PLAIN AGFubgBwdw==''" by code_simp
  have "\<not> token_accepted plain_env x ()" for x by (simp add: token_accepted_def plain_env_def)
  then show ?thesis using auth_needs_credentials [OF h na a, unfolded t] a unfolding h fst_conv snd_conv by blast
qed

subsection \<open>STARTTLS and reuse of sessions\<close>

lemma sys_op_buf: "sys_op (c\<lparr>rd_buf := b\<rparr>) = (fst (sys_op c), (snd (sys_op c))\<lparr>rd_buf := b\<rparr>)"
  by (cases "outcomes c") (simp_all add: sys_op_def)

lemma conn_write_buf: "conn_write t (c\<lparr>rd_buf := b\<rparr>) = (fst (conn_write t c), (snd (conn_write t c))\<lparr>rd_buf := b\<rparr>)"
  by (simp add: conn_write_def sys_op_buf case_prod_beta Let_def)

text \<open>
  C10: No command injection across STARTTLS. After an upgrade the session reads only what the
  handshake made of the bytes still on the socket, it is in the initial state, without HELO
  name, transaction or authentication; and the result is the same whatever plain text the old
  reader had buffered behind the STARTTLS command.
\<close>

theorem starttls_discards_plaintext:
  assumes "handleStartTLS e s w = (True, r, s', w')"
  shows "(\<exists>chunks w1. se_Handshake e (rd_in (ss_conn s)) w1 = (Inr chunks, w') \<and>
            rd_buf (ss_conn s') = [] \<and> rd_in (ss_conn s') = chunks) \<and>
         ss_tls s' \<and> \<not> ss_auth s' \<and> ss_state s' = StateInitial \<and> ss_helo s' = [] \<and> ss_sender s' = [] \<and>
         ss_recipients s' = [] \<and>
         handleStartTLS e (s\<lparr>ss_conn := (ss_conn s)\<lparr>rd_buf := b\<rparr>\<rparr>) w = (True, r, s', w')"
proof -
  obtain ok1 c1 where w1: "conn_write (''220 Ready to start TLS'' @ CRLF) (ss_conn s) = (ok1, c1)"
    by (cases "conn_write (''220 Ready to start TLS'' @ CRLF) (ss_conn s)")
  obtain ok2 c2 where o2: "sys_op c1 = (ok2, c2)" by (cases "sys_op c1")
  obtain ok3 c3 where o3: "sys_op c2 = (ok3, c3)" by (cases "sys_op c2")
  obtain cfg v1 chunks where st: "\<not> ss_tls s" "ss_tlsConfig s = Some cfg" "ok1" "ok2" "ok3"
      "se_CreateTLS e cfg w = (None, v1)" "se_Handshake e (rd_in c2) v1 = (Inr chunks, w')" "r = Ok"
      "s' = tls_upgrade chunks c3 (s\<lparr>ss_conn := c1\<rparr>)"
    using assms w1 o2 o3 by (auto simp: handleStartTLS_def Let_def split: option.splits if_splits prod.splits sum.splits)
  have rd: "rd_in c2 = rd_in (ss_conn s)" using conn_write_pair [OF w1] sys_op_pair [OF o2] by simp
  have b1: "conn_write (''220 Ready to start TLS'' @ CRLF) ((ss_conn s)\<lparr>rd_buf := b\<rparr>) = (ok1, c1\<lparr>rd_buf := b\<rparr>)"
    by (simp only: conn_write_buf w1 fst_conv snd_conv)
  have "tls_upgrade chunks (c3\<lparr>rd_buf := b\<rparr>) (s\<lparr>ss_conn := c1\<lparr>rd_buf := b\<rparr>\<rparr>) = s'"
    by (simp add: st(9) tls_upgrade_def resetTransactionState_def)
  then have "handleStartTLS e (s\<lparr>ss_conn := (ss_conn s)\<lparr>rd_buf := b\<rparr>\<rparr>) w = (True, r, s', w')"
    using st b1 o2 o3 by (simp add: handleStartTLS_def sys_op_buf)
  then show ?thesis using st(7,9) rd by (auto simp: tls_upgrade_def resetTransactionState_def)
qed

theorem starttls_discards_plaintext_witness:
  "\<exists>s'. handleStartTLS plain_env (blank_session\<lparr>ss_tlsConfig := Some \<lparr>CertFile = ''c'', KeyFile = ''k'', CAFile = []\<rparr>,
            ss_conn := (new_conn [])\<lparr>rd_buf := ''MAIL FROM:<a@b.c>'' @ CRLF\<rparr>\<rparr>) () = (True, Ok, s', ()) \<and>
     pending (ss_conn s') = ''EHLO x'' @ CRLF"
proof -
  let ?s = "blank_session\<lparr>ss_tlsConfig := Some \<lparr>CertFile = ''c'', KeyFile = ''k'', CAFile = []\<rparr>\<rparr>"
  obtain s' where h: "handleStartTLS plain_env ?s () = (True, Ok, s', ())"
    by (simp add: handleStartTLS_def plain_env_def blank_session_def conn_write_def sys_op_def new_conn_def)
  have "ss_conn ?s = new_conn []" by (simp add: blank_session_def)
  then show ?thesis
    using starttls_discards_plaintext [OF h, of "''MAIL FROM:<a@b.c>'' @ CRLF"]
    by (auto simp: plain_env_def)
qed

subsection \<open>Where the code departs from its intent\<close>

text \<open>
  The path of a MAIL command is cut off with a case-sensitive prefix although the verb is
  recognised in any case: with a lower-case verb the session stores the verb as part of the
  sender. The same holds for a recipient, which passes relay control with the verb in front.
\<close>

theorem lower_case_path:
  "ss_sender (res_session (handleMail (e\<lparr>se_plugins := []\<rparr>) ''mail from:<a@b.org>'' (s\<lparr>ss_state := StateMail\<rparr>) w)) =
     ''mail from:<a@b.org'' \<and>
   ss_recipients (res_session (handleRcpt (e\<lparr>se_plugins := []\<rparr>) ''rcpt to:<a@b.org>''
     (s\<lparr>ss_state := StateRcpt, ss_recipients := [], ss_localDomains := [''b.org'']\<rparr>) w)) = [''rcpt to:<a@b.org'']"
proof -
  have m: "HasPrefix (ToUpper ''mail from:<a@b.org>'') ''MAIL FROM:''"
    "path_arg ''MAIL FROM:'' ''mail from:<a@b.org>'' = ''mail from:<a@b.org''" "isValidEmail ''mail from:<a@b.org''"
    by code_simp+
  have r: "HasPrefix (ToUpper ''rcpt to:<a@b.org>'') ''RCPT TO:''"
    "path_arg ''RCPT TO:'' ''rcpt to:<a@b.org>'' = ''rcpt to:<a@b.org''" "isValidEmail ''rcpt to:<a@b.org''"
    "local_in [''b.org''] ''rcpt to:<a@b.org''"
    by code_simp+
  have cs: "conn_free ss_sender" "conn_free ss_recipients" by (simp_all add: conn_free_def)
  show ?thesis using m r
    by (simp add: Let_def handleMail_def handleRcpt_def isLocalRecipient_eq conn_free_reply [OF cs(1)] conn_free_reply [OF cs(2)])
qed

text \<open>
  Without a user store (authentication disabled in the configuration) a well-formed
  AUTH PLAIN command panics instead of being refused, although EHLO announces AUTH on every TLS
  connection.
\<close>

theorem auth_without_store_panics:
  "fst (handleAuth (e\<lparr>se_userStore := None\<rparr>) ''AUTH PLAIN AGFubgBwdw==''
     (s\<lparr>ss_tls := True, ss_state := StateMail\<rparr>) w) = Panic \<and>
   {''AUTH PLAIN LOGIN'', ''AUTH PLAIN LOGIN SIRE-TOKEN''} \<inter>
     set (ehlo_capabilities (e\<lparr>se_userStore := None\<rparr>) (s\<lparr>ss_tls := True\<rparr>)) \<noteq> {}"
proof -
  have p: "SplitN ''AUTH PLAIN AGFubgBwdw=='' (CHR '' '') 3 = [''AUTH'', ''PLAIN'', ''AGFubgBwdw=='']"
    "ToUpper ''PLAIN'' = ''PLAIN''"
    "DecodeString ''AGFubgBwdw=='' = Some [CHR 0x00, CHR ''a'', CHR ''n'', CHR ''n'', CHR 0x00, CHR ''p'', CHR ''w'']"
    by code_simp+
  have "fst (handleAuth (e\<lparr>se_userStore := None\<rparr>) ''AUTH PLAIN AGFubgBwdw==''
     (s\<lparr>ss_tls := True, ss_state := StateMail\<rparr>) w) = Panic"
    using p by (simp add: handleAuth_def handleAuthPlain_def check_password_def)
  then show ?thesis by (simp add: ehlo_capabilities_def)
qed

text \<open>
  A message refused by a content plugin is answered with the code twice (the error's text
  begins with its code), and the transaction is not reset: the session stays in the data state
  with its sender and recipients, so a further DATA command is accepted. RSET puts the session
  into the mail state even before any HELO or EHLO, so MAIL is then accepted without one.
\<close>

theorem rejection_keeps_transaction:
  "(let bad = BasePlugin\<lparr>OnMessage := \<lambda>_ _ _ w. (Some (NewError 550 ''5.7.1'' ''rejected''), w)\<rparr>;
        s' = res_session (deliver_data (e\<lparr>se_plugins := [bad]\<rparr>) dat (s\<lparr>ss_conn := new_conn ch\<rparr>) w)
    in last (sent (ss_conn s')) = ''550 550 5.7.1 rejected'' @ CRLF \<and> ss_state s' = ss_state s \<and>
       ss_recipients s' = ss_recipients s \<and> ss_sender s' = ss_sender s) \<and>
   ss_state (res_session (handleRset e s w)) = StateMail"
proof -
  have itoa: "Itoa 550 = ''550''" by code_simp
  have "conn_free ss_state" by (simp add: conn_free_def)
  then have "ss_state (res_session (handleRset e s w)) = StateMail"
    by (simp add: handleRset_def conn_free_reply resetTransactionState_def)
  then show ?thesis
    by (simp add: Let_def deliver_data_def plugin_reply_def NewError_def reply_def writeResponse_def sys_op_def
        conn_write_def new_conn_def smtp_Code_def smtpError_Error_def itoa)
qed

end
