(* ===== verification/Auth.thy ===== *)
theory Auth
  imports GoErrors
begin

text \<open>
  Authentication: the user store of \<open>internal/auth/store.go\<close>, the JWT authenticator of
  \<open>internal/auth/jwt.go\<close> and the construction of the store from the configuration
  (\<open>CreateAuthStore\<close> of \<open>internal/config/config.go\<close>). Package bcrypt and the JWT parser are
  libraries: they are arguments of the definitions, \<open>gen\<close> and \<open>cmp\<close> for the two bcrypt
  calls (None is a matching password), \<open>parse\<close> for the parser with its list of accepted
  algorithms and its key function.
\<close>

section \<open>The user store\<close>

record User =
  Username :: string
  PasswordHash :: string

record Store =
  users :: "string \<rightharpoonup> User"
  Enabled :: bool

definition ErrUserNotFound :: go_error where
  "ErrUserNotFound = TextError ''user not found''"

definition ErrInvalidCredentials :: go_error where
  "ErrInvalidCredentials = TextError ''invalid credentials''"

definition NewStore :: Store where
  "NewStore = \<lparr>users = Map.empty, Enabled = True\<rparr>"

definition AddUser ::
  "(string \<Rightarrow> go_error + string) \<Rightarrow> string \<Rightarrow> string \<Rightarrow> Store \<Rightarrow> go_error option \<times> Store" where
  "AddUser gen username password s =
     (case users s username of
        Some _ \<Rightarrow> (Some (TextError ''user already exists''), s)
      | None \<Rightarrow>
          (case gen password of
             Inl err \<Rightarrow> (Some err, s)
           | Inr hash \<Rightarrow>
               (None, s\<lparr>users := (users s)(username \<mapsto> \<lparr>Username = username, PasswordHash = hash\<rparr>)\<rparr>)))"

definition AddUserWithHash :: "string \<Rightarrow> string \<Rightarrow> Store \<Rightarrow> go_error option \<times> Store" where
  "AddUserWithHash username hash s =
     (case users s username of
        Some _ \<Rightarrow> (Some (TextError ''user already exists''), s)
      | None \<Rightarrow> (None, s\<lparr>users := (users s)(username \<mapsto> \<lparr>Username = username, PasswordHash = hash\<rparr>)\<rparr>))"

text \<open>
  The hashes that are compared are returned too: for an unknown user a dummy hash is compared,
  so that the work done does not tell whether the user exists.
\<close>

definition dummy_hash :: string where
  "dummy_hash = ''$2a$10$dummyhashtopreventtimingleak000000000000000000000''"

definition Authenticate_work ::
  "(string \<Rightarrow> string \<Rightarrow> go_error option) \<Rightarrow> string \<Rightarrow> string \<Rightarrow> Store \<Rightarrow> (bool \<times> go_error option) \<times> string list" where
  "Authenticate_work cmp username password s =
     (case users s username of
        None \<Rightarrow> ((False, Some ErrUserNotFound), [dummy_hash])
      | Some user \<Rightarrow>
          (case cmp (PasswordHash user) password of
             Some _ \<Rightarrow> ((False, Some ErrInvalidCredentials), [PasswordHash user])
           | None \<Rightarrow> ((True, None), [PasswordHash user])))"

definition Authenticate ::
  "(string \<Rightarrow> string \<Rightarrow> go_error option) \<Rightarrow> string \<Rightarrow> string \<Rightarrow> Store \<Rightarrow> bool \<times> go_error option" where
  "Authenticate cmp username password s = fst (Authenticate_work cmp username password s)"

definition IsEnabled :: "Store \<Rightarrow> bool" where
  "IsEnabled s = Enabled s"

definition SupportedMechanisms :: "string list" where
  "SupportedMechanisms = [''PLAIN'', ''LOGIN'']"

section \<open>The contract of the interface AuthStore\<close>

locale auth_store =
  fixes authenticate :: "string \<Rightarrow> string \<Rightarrow> 's \<Rightarrow> bool \<times> go_error option"
    and add :: "string \<Rightarrow> string \<Rightarrow> 's \<Rightarrow> go_error option \<times> 's"
    and known :: "'s \<Rightarrow> string set"
  assumes verdict: "authenticate u p s = (ok, err) \<Longrightarrow> ok \<longleftrightarrow> err = None"
    and unknown: "u \<notin> known s \<Longrightarrow> \<not> fst (authenticate u p s)"
    and add_new: "add u p s = (None, s') \<Longrightarrow> u \<notin> known s \<and> known s' = insert u (known s)"
    and add_err: "add u p s = (Some e, s') \<Longrightarrow> s' = s"
    and add_other: "u' \<noteq> u \<Longrightarrow> authenticate u' p' (snd (add u p s)) = authenticate u' p' s"
begin

definition add_all :: "(string \<times> string) list \<Rightarrow> 's \<Rightarrow> 's" where
  "add_all us s = fold (\<lambda>(u, p) s. snd (add u p s)) us s"

lemma add_all_simps [simp]:
  "add_all [] s = s" "add_all ((u, p) # us) s = add_all us (snd (add u p s))"
  by (simp_all add: add_all_def)

lemma add_known_same: "u \<in> known s \<Longrightarrow> snd (add u p s) = s"
  using add_new [of u p s] add_err [of u p s] by (cases "add u p s"; cases "fst (add u p s)") auto

lemma add_keeps_known: "known s \<subseteq> known (snd (add u p s))"
  using add_new [of u p s] add_err [of u p s] by (cases "add u p s"; cases "fst (add u p s)") auto

text \<open>Loading more users never changes the answer for a user already known.\<close>

lemma add_all_keeps: "u \<in> known s \<Longrightarrow> authenticate u p (add_all us s) = authenticate u p s"
proof (induction us arbitrary: s)
  case (Cons x us)
  obtain v q where x: "x = (v, q)" by (cases x)
  have "authenticate u p (snd (add v q s)) = authenticate u p s"
    using add_known_same [of v s q] add_other [of u v p q s] Cons.prems by (cases "v = u") auto
  then show ?case using Cons.IH [of "snd (add v q s)"] Cons.prems add_keeps_known [of s v q] x by auto
qed simp

lemma add_all_other:
  "u \<notin> fst ` set us \<Longrightarrow> authenticate u p (add_all us s) = authenticate u p s"
  by (induction us arbitrary: s) (auto simp: add_other)

lemma known_add: "known (snd (add u p s)) \<subseteq> insert u (known s)"
  using add_new [of u p s] add_err [of u p s] by (cases "add u p s"; cases "fst (add u p s)") auto

lemma known_add_all: "known (add_all us s) \<subseteq> fst ` set us \<union> known s"
proof (induction us arbitrary: s)
  case (Cons x us)
  show ?case using Cons [of "snd (add (fst x) (snd x) s)"] known_add [of "fst x" "snd x" s]
    by (cases x) auto
qed simp

end

interpretation st: auth_store "Authenticate cmp" "AddUser gen" "\<lambda>s. dom (users s)" for cmp gen
  by unfold_locales
    (auto simp: Authenticate_def Authenticate_work_def AddUser_def split: option.splits sum.splits)

section \<open>JWT tokens\<close>

text \<open>
  The header of a token as the key function sees it, and the parsed token: whether its claims
  are a \<open>MapClaims\<close>, its flag \<open>Valid\<close>, and the getters of the claims (None is an error of the
  getter; an absent expiry is \<open>Some None\<close>).
\<close>

record jwt_header =
  jh_alg :: string
  jh_hmac :: bool

record jwt_token =
  tk_MapClaims :: bool
  tk_Valid :: bool
  GetIssuer :: "string option"
  GetAudience :: "string list option"
  GetExpirationTime :: "time option option"
  GetSubject :: "string option"

type_synonym keyfunc = "jwt_header \<Rightarrow> go_error + string"

record JWTAuthenticator =
  keyFunc :: keyfunc
  issuer :: string
  audience :: string

definition ErrTokenExpired :: go_error where "ErrTokenExpired = TextError ''token expired''"
definition ErrTokenInvalid :: go_error where "ErrTokenInvalid = TextError ''token invalid''"
definition ErrInvalidIssuer :: go_error where "ErrInvalidIssuer = TextError ''invalid issuer''"
definition ErrInvalidAud :: go_error where "ErrInvalidAud = TextError ''invalid audience''"

definition NewJWTAuthenticator :: "keyfunc \<Rightarrow> string \<Rightarrow> string \<Rightarrow> JWTAuthenticator" where
  "NewJWTAuthenticator kf iss aud = \<lparr>keyFunc = kf, issuer = iss, audience = aud\<rparr>"

definition NewJWTAuthenticatorHMAC :: "string \<Rightarrow> string \<Rightarrow> string \<Rightarrow> JWTAuthenticator" where
  "NewJWTAuthenticatorHMAC secret iss aud =
     NewJWTAuthenticator
       (\<lambda>h. if \<not> jh_hmac h then Inl (TextError (''unexpected signing method: '' @ jh_alg h)) else Inr secret)
       iss aud"

definition valid_methods :: "string list" where
  "valid_methods = [''HS256'', ''HS384'', ''HS512'', ''RS256'', ''RS384'', ''RS512'', ''ES256'', ''ES384'', ''ES512'']"

definition ConstantTimeCompare :: "string \<Rightarrow> string \<Rightarrow> int" where
  "ConstantTimeCompare x y = (if x = y then 1 else 0)"

definition AuthenticateToken ::
  "(string list \<Rightarrow> keyfunc \<Rightarrow> string \<Rightarrow> go_error + jwt_token) \<Rightarrow> time \<Rightarrow> JWTAuthenticator \<Rightarrow> string
     \<Rightarrow> string \<times> go_error option" where
  "AuthenticateToken parse now j tokenString =
     (case parse valid_methods (keyFunc j) tokenString of
        Inl err \<Rightarrow> ([], Some (Wrapped [] ErrTokenInvalid ('': '' @ err_Error err)))
      | Inr token \<Rightarrow>
          if \<not> tk_MapClaims token \<or> \<not> tk_Valid token then ([], Some ErrTokenInvalid)
          else
            (case GetIssuer token of
               None \<Rightarrow> ([], Some ErrInvalidIssuer)
             | Some iss \<Rightarrow>
                 if ConstantTimeCompare iss (issuer j) \<noteq> 1 then ([], Some ErrInvalidIssuer)
                 else
                   (case GetAudience token of
                      None \<Rightarrow> ([], Some ErrInvalidAud)
                    | Some aud \<Rightarrow>
                        if \<not> list_ex (\<lambda>a. ConstantTimeCompare a (audience j) = 1) aud
                        then ([], Some ErrInvalidAud)
                        else
                          (case GetExpirationTime token of
                             Some (Some e) \<Rightarrow>
                               if e < now then ([], Some ErrTokenExpired)
                               else
                                 (case GetSubject token of
                                    None \<Rightarrow> ([], Some (Wrapped [] ErrTokenInvalid '': missing subject claim''))
                                  | Some sub \<Rightarrow>
                                      if sub = [] then ([], Some (Wrapped [] ErrTokenInvalid '': missing subject claim''))
                                      else (sub, None))
                           | _ \<Rightarrow> ([], Some ErrTokenExpired)))))"

section \<open>The store of a configuration\<close>

record AuthConfig =
  ac_Enabled :: bool
  ac_UsersFile :: string
  ac_AuthMethods :: "string list"

text \<open>
  \<open>CreateAuthStore\<close>: reading the file and the YAML decoder are arguments. A nil store is
  None; a user that cannot be added is skipped.
\<close>

definition CreateAuthStore ::
  "(string \<Rightarrow> go_error + string) \<Rightarrow> (string \<Rightarrow> go_error + (string \<times> string) list) \<Rightarrow>
   (string \<Rightarrow> go_error + string) \<Rightarrow> AuthConfig \<Rightarrow> go_error + Store option" where
  "CreateAuthStore readFile unmarshal gen c =
     (if \<not> ac_Enabled c then Inr None
      else if ac_UsersFile c = [] then Inr (Some NewStore)
      else
        (case readFile (ac_UsersFile c) of
           Inl err \<Rightarrow> Inl (Wrapped ''failed to read users file: '' err [])
         | Inr dat \<Rightarrow>
             (case unmarshal dat of
                Inl err \<Rightarrow> Inl (Wrapped ''failed to parse users file: '' err [])
              | Inr us \<Rightarrow> Inr (Some (fold (\<lambda>(u, p) s. snd (AddUser gen u p s)) us NewStore)))))"

section \<open>Properties\<close>

lemma Authenticate_iff:
  "fst (Authenticate cmp u p s) \<longleftrightarrow> (\<exists>user. users s u = Some user \<and> cmp (PasswordHash user) p = None)"
  by (auto simp: Authenticate_def Authenticate_work_def split: option.splits)

lemma AddUser_Authenticate:
  assumes "\<And>h. gen p = Inr h \<Longrightarrow> cmp h p = None" "AddUser gen u p s = (None, s')"
  shows "Authenticate cmp u p s' = (True, None)"
  using assms
  by (auto simp: AddUser_def Authenticate_def Authenticate_work_def split: option.splits sum.splits)

text \<open>
  C30: The store made from a configuration authenticates its users: where bcrypt accepts a
  password against its own hash, the user of the first entry for a name (whose password can be
  hashed) logs in with that entry's password, whatever entries come before for other names and
  after for any name; a later entry for the same name has no effect, and a name without entry is refused.
\<close>

theorem created_store_authenticates:
  assumes cfg: "ac_Enabled c" "ac_UsersFile c \<noteq> []" "readFile (ac_UsersFile c) = Inr dat"
    and us: "unmarshal dat = Inr (pre @ (u, p) # post)" "u \<notin> fst ` set pre"
    and bcrypt: "gen p = Inr h" "cmp h p = None"
  shows "\<exists>s. CreateAuthStore readFile unmarshal gen c = Inr (Some s) \<and>
     Authenticate cmp u p s = (True, None) \<and>
     (\<forall>q. fst (Authenticate cmp u q s) \<longleftrightarrow> cmp h q = None) \<and>
     (\<forall>v q. v \<notin> fst ` set (pre @ (u, p) # post) \<longrightarrow> \<not> fst (Authenticate cmp v q s))"
proof -
  let ?all = "\<lambda>us s. fold (\<lambda>(u, p) s. snd (AddUser gen u p s)) us s"
  have all: "?all us s = st.add_all gen us s" for us s by (simp add: st.add_all_def)
  let ?s1 = "?all pre NewStore" and ?s = "?all (pre @ (u, p) # post) NewStore"
  obtain s2 where s2: "AddUser gen u p ?s1 = (None, s2)" "users s2 u = Some \<lparr>Username = u, PasswordHash = h\<rparr>"
  proof -
    have "u \<notin> dom (users ?s1)"
      using st.known_add_all [of gen pre NewStore] us(2) unfolding all by (auto simp: NewStore_def)
    then have "users ?s1 u = None" by auto
    then show ?thesis using that bcrypt(1) by (simp add: AddUser_def)
  qed
  have s: "?s = st.add_all gen post s2" using s2(1) by (simp add: all)
  have auth: "Authenticate cmp u q ?s = Authenticate cmp u q s2" for q
    using st.add_all_keeps [of u s2 cmp q gen post] s2(2) unfolding s by auto
  have other: "\<not> fst (Authenticate cmp v q ?s)" if "v \<notin> fst ` set (pre @ (u, p) # post)" for v q
    using st.add_all_other [OF that, of cmp q gen NewStore] st.unknown [of v NewStore cmp q]
    by (simp only: all) (simp add: NewStore_def)
  have "CreateAuthStore readFile unmarshal gen c = Inr (Some ?s)"
    using cfg us(1) by (simp add: CreateAuthStore_def)
  moreover have "\<forall>q. fst (Authenticate cmp u q ?s) \<longleftrightarrow> cmp h q = None"
    unfolding auth Authenticate_iff using s2(2) by simp
  moreover have "Authenticate cmp u p ?s = (True, None)"
    unfolding auth using s2(2) bcrypt(2) by (simp add: Authenticate_def Authenticate_work_def)
  ultimately show ?thesis using other by (intro exI [of _ ?s]) auto
qed

definition sample_cmp :: "string \<Rightarrow> string \<Rightarrow> go_error option" where
  "sample_cmp h p = (if h = CHR ''$'' # p then None else Some (TextError ''mismatch''))"

theorem created_store_authenticates_witness:
  "\<exists>s. CreateAuthStore (\<lambda>_. Inr ''x'') (\<lambda>_. Inr [(''ann'', ''pw''), (''ann'', ''other'')])
         (\<lambda>p. Inr (CHR ''$'' # p)) \<lparr>ac_Enabled = True, ac_UsersFile = ''users.json'', ac_AuthMethods = []\<rparr> =
       Inr (Some s) \<and>
     Authenticate sample_cmp ''ann'' ''pw'' s = (True, None) \<and>
     \<not> fst (Authenticate sample_cmp ''ann'' ''other'' s) \<and> \<not> fst (Authenticate sample_cmp ''bob'' ''pw'' s)"
  using created_store_authenticates
    [where c = "\<lparr>ac_Enabled = True, ac_UsersFile = ''users.json'', ac_AuthMethods = []\<rparr>"
       and readFile = "\<lambda>_. Inr ''x''" and dat = "''x''" and pre = "[]" and u = "''ann''" and p = "''pw''"
       and post = "[(''ann'', ''other'')]" and gen = "\<lambda>p. Inr (CHR ''$'' # p)" and h = "''$pw''"
       and cmp = sample_cmp and unmarshal = "\<lambda>_. Inr [(''ann'', ''pw''), (''ann'', ''other'')]"]
  by (force simp: sample_cmp_def)

text \<open>
  A token is accepted, with its subject, exactly when the parser accepts it for one of the
  listed algorithms and the authenticator's key, its claims are a valid map, its issuer is the
  configured one, the configured audience is among its audiences, it has an expiry that has not
  passed, and its subject is not empty.
\<close>

theorem token_accepted_iff:
  "AuthenticateToken parse now j tok = (sub, None) \<longleftrightarrow>
     (\<exists>t e aud. parse valid_methods (keyFunc j) tok = Inr t \<and> tk_MapClaims t \<and> tk_Valid t \<and>
        GetIssuer t = Some (issuer j) \<and> GetAudience t = Some aud \<and> audience j \<in> set aud \<and>
        GetExpirationTime t = Some (Some e) \<and> now \<le> e \<and> GetSubject t = Some sub \<and> sub \<noteq> [])"
  by (auto simp: AuthenticateToken_def ConstantTimeCompare_def list_ex_iff
      split: sum.splits option.splits if_splits)

end
