(* ===== verification/Config.thy ===== *)
theory Config
  imports Auth
begin

text \<open>
  The configuration of \<open>internal/config/config.go\<close> and \<open>crypto.go\<close>: its records, defaults,
  loading, validation and the loading of keys. Reading files, file status, the YAML decoder and
  the PEM and key parsers are arguments.
\<close>

section \<open>Records\<close>

record ServerConfig =
  ListenAddr :: string
  Port :: int
  SubmissionPort :: int
  MaxConnections :: int
  ReadBufferSize :: int
  WriteBufferSize :: int
  ReadTimeout :: duration
  WriteTimeout :: duration
  IdleTimeout :: duration
  ShutdownTimeout :: duration
  MaxMessageSize :: int
  WorkerPoolSize :: int
  ConnectionBacklog :: int
  LocalDomains :: "string list"
  Hostname :: string

record LoggingConfig =
  lc_Level :: string
  lc_Format :: string
  lc_Output :: string
  lc_AddSource :: bool

record MetricsConfig =
  mc_Enabled :: bool
  mc_ListenAddr :: string
  mc_MetricsPath :: string

record PluginsConfig =
  pc_Enabled :: bool
  pc_Paths :: "string list"

record SecurityConfig =
  TLSEnabled :: bool
  TLSCertFile :: string
  TLSKeyFile :: string
  RateLimit :: int
  AllowedIPs :: "string list"
  BlockedIPs :: "string list"
  AllowedDomains :: "string list"
  BlockedDomains :: "string list"

record SMTPClientSettings =
  ConnectTimeout :: duration
  cl_MaxConnections :: int
  cl_IdleTimeout :: duration

record DKIMConfig =
  Selector :: string
  PrivateKeyPath :: string

record OutboundConfig =
  SMTPClient :: SMTPClientSettings
  DKIM :: "(string \<times> DKIMConfig) list"

record DNSConfig =
  CacheTTL :: duration
  MaxLookupsPerMsg :: int
  MaxCacheSize :: int

record DMARCReportingConfig =
  dr_Enabled :: bool
  ReportInterval :: duration
  StoragePath :: string

record Config =
  Server :: ServerConfig
  AuthSettings :: AuthConfig
  Logging :: LoggingConfig
  Metrics :: MetricsConfig
  PluginSettings :: PluginsConfig
  Security :: SecurityConfig
  Outbound :: OutboundConfig
  DNS :: DNSConfig
  DMARCReporting :: DMARCReportingConfig

section \<open>Defaults and loading\<close>

definition DefaultConfig :: Config where
  "DefaultConfig =
     \<lparr>Server = \<lparr>ListenAddr = ''0.0.0.0'', Port = 25, SubmissionPort = 587, MaxConnections = 1000,
        ReadBufferSize = 16 * 1024, WriteBufferSize = 16 * 1024, ReadTimeout = 5 * minute,
        WriteTimeout = 5 * minute, IdleTimeout = 10 * minute, ShutdownTimeout = 30 * second,
        MaxMessageSize = 32 * 1024 * 1024, WorkerPoolSize = 4, ConnectionBacklog = 128,
        LocalDomains = [], Hostname = []\<rparr>,
      AuthSettings = \<lparr>ac_Enabled = False, ac_UsersFile = ''users.json'', ac_AuthMethods = [''PLAIN'', ''LOGIN'']\<rparr>,
      Logging = \<lparr>lc_Level = ''info'', lc_Format = ''text'', lc_Output = ''stdout'', lc_AddSource = False\<rparr>,
      Metrics = \<lparr>mc_Enabled = True, mc_ListenAddr = ''0.0.0.0:9090'', mc_MetricsPath = ''/metrics''\<rparr>,
      PluginSettings = \<lparr>pc_Enabled = False, pc_Paths = []\<rparr>,
      Security = \<lparr>TLSEnabled = False, TLSCertFile = [], TLSKeyFile = [], RateLimit = 100,
        AllowedIPs = [], BlockedIPs = [], AllowedDomains = [], BlockedDomains = []\<rparr>,
      Outbound = \<lparr>SMTPClient = \<lparr>ConnectTimeout = 10 * second, cl_MaxConnections = 100, cl_IdleTimeout = 5 * minute\<rparr>,
        DKIM = []\<rparr>,
      DNS = \<lparr>CacheTTL = 0, MaxLookupsPerMsg = 0, MaxCacheSize = 0\<rparr>,
      DMARCReporting = \<lparr>dr_Enabled = False, ReportInterval = 0, StoragePath = []\<rparr>\<rparr>"

definition LoadConfig ::
  "(string \<Rightarrow> go_error + string) \<Rightarrow> (string \<Rightarrow> Config \<Rightarrow> go_error + Config) \<Rightarrow> string \<Rightarrow> go_error + Config" where
  "LoadConfig readFile unmarshal configFile =
     (if configFile = [] then Inr DefaultConfig
      else (case readFile configFile of
              Inl err \<Rightarrow> Inl (Wrapped ''failed to read config file: '' err [])
            | Inr dat \<Rightarrow>
                (case unmarshal dat DefaultConfig of
                   Inl err \<Rightarrow> Inl (Wrapped (''error parsing config file '' @ [CHR 0x27] @ configFile @ [CHR 0x27] @ '': '') err [])
                 | Inr cfg \<Rightarrow> Inr cfg)))"

text \<open>\<open>Validate\<close>; \<open>stat\<close> is the error of \<open>os.Stat\<close>.\<close>

definition Validate :: "(string \<Rightarrow> go_error option) \<Rightarrow> Config \<Rightarrow> go_error option" where
  "Validate stat c =
     (if Port (Server c) < 1 \<or> Port (Server c) > 65535
      then Some (TextError (''invalid port number: '' @ Itoa (Port (Server c))))
      else if SubmissionPort (Server c) < 1 \<or> SubmissionPort (Server c) > 65535
      then Some (TextError (''invalid submission port number: '' @ Itoa (SubmissionPort (Server c))))
      else if TLSEnabled (Security c) then
        (if TLSCertFile (Security c) = [] \<or> TLSKeyFile (Security c) = []
         then Some (TextError ''TLS enabled but certificate or key file not specified'')
         else (case stat (TLSCertFile (Security c)) of
                 Some err \<Rightarrow> Some (Wrapped ''TLS certificate file not found: '' err [])
               | None \<Rightarrow>
                   (case stat (TLSKeyFile (Security c)) of
                      Some err \<Rightarrow> Some (Wrapped ''TLS key file not found: '' err [])
                    | None \<Rightarrow> None)))
      else None)"

definition config_AuthStore where
  "config_AuthStore readFile unmarshal gen c = CreateAuthStore readFile unmarshal gen (AuthSettings c)"

text \<open>\<open>LoadPlugins\<close> never loads anything: the paths are only logged.\<close>

definition LoadPlugins :: "Config \<Rightarrow> 'plugin list" where
  "LoadPlugins c = []"

section \<open>Private keys\<close>

record pem_block =
  pem_Type :: string
  pem_Bytes :: string

text \<open>A parsed PKCS8 key: an RSA key, or the name of another type.\<close>

datatype 'key pkcs8 = RSAKey 'key | OtherKey string

definition LoadPrivateKey ::
  "(string \<Rightarrow> go_error + string) \<Rightarrow> (string \<Rightarrow> pem_block option) \<Rightarrow> (string \<Rightarrow> go_error + 'key) \<Rightarrow>
   (string \<Rightarrow> go_error + 'key pkcs8) \<Rightarrow> string \<Rightarrow> go_error + 'key" where
  "LoadPrivateKey readFile decodePEM parsePKCS1 parsePKCS8 path =
     (case readFile path of
        Inl err \<Rightarrow> Inl (Wrapped ''failed to read private key file: '' err [])
      | Inr keyData \<Rightarrow>
          (case decodePEM keyData of
             None \<Rightarrow> Inl (TextError (''failed to decode PEM block from file '' @ path))
           | Some block \<Rightarrow>
               if pem_Type block = ''RSA PRIVATE KEY'' then
                 (case parsePKCS1 (pem_Bytes block) of
                    Inl err \<Rightarrow> Inl (Wrapped ''failed to parse RSA private key: '' err [])
                  | Inr k \<Rightarrow> Inr k)
               else if pem_Type block = ''PRIVATE KEY'' then
                 (case parsePKCS8 (pem_Bytes block) of
                    Inl err \<Rightarrow> Inl (Wrapped ''failed to parse PKCS8 private key: '' err [])
                  | Inr (RSAKey k) \<Rightarrow> Inr k
                  | Inr (OtherKey t) \<Rightarrow> Inl (TextError (''unsupported private key type from PKCS8: '' @ t)))
               else Inl (TextError (''unsupported PEM block type: '' @ pem_Type block))))"

lemma Validate_ports:
  "Validate stat c = None \<Longrightarrow> Port (Server c) \<in> {1..65535} \<and> SubmissionPort (Server c) \<in> {1..65535}"
  by (auto simp: Validate_def split: if_splits)

end
