(* ===== verification/ServerLoop.thy ===== *)
theory ServerLoop
  imports SessionSafety Config
begin

text \<open>
  The server of \<open>internal/server/server.go\<close>: construction from the configuration, start, and
  the life of connections between the accept loop, the connection channel, the semaphore and
  the worker pool. A \<open>select\<close> with several ready cases may take any of them, so accepting a
  connection has a list of possible outcomes.
\<close>

section \<open>Construction\<close>

text \<open>\<open>strconv.Atoi\<close>: an optional sign and decimal digits in the range of int.\<close>

definition Atoi :: "string \<Rightarrow> int option" where
  "Atoi s =
     (let (neg, ds) = (case s of [] \<Rightarrow> (False, []) | c # r \<Rightarrow>
            if c = CHR ''-'' then (True, r) else if c = CHR ''+'' then (False, r) else (False, s))
      in if ds = [] \<or> \<not> list_all is_digit ds then None
         else (let n = int (digits_val 0 ds); v = if neg then - n else n
               in if - (2 ^ 63) \<le> v \<and> v < 2 ^ 63 then Some v else None))"

text \<open>The address to listen on and the port that is compared with the submission port.\<close>

definition listen_address :: "ServerConfig \<Rightarrow> string" where
  "listen_address c =
     (if Contains (ListenAddr c) '':'' then ListenAddr c
      else ListenAddr c @ '':'' @ Itoa (Port c))"

definition port_to_check :: "ServerConfig \<Rightarrow> int" where
  "port_to_check c =
     (if Contains (ListenAddr c) '':'' then
        (let portStr = last (Split (ListenAddr c) (CHR '':'')) in
         if portStr \<noteq> ''0'' then
           (case Atoi portStr of
              Some p \<Rightarrow> if Port c = 0 \<or> Port c = 25 then p else Port c
            | None \<Rightarrow> Port c)
         else Port c)
      else Port c)"

record server =
  sv_addr :: string
  sv_tlsConfig :: "TLSConfig option"
  sv_forceTLS :: bool
  sv_authStore :: "Store option"
  sv_config :: ServerConfig
  sv_listening :: bool
  sv_cancelled :: bool
  sv_chanClosed :: bool
  sv_connChan :: "nat list"
  sv_sem :: nat
  sv_idle :: nat
  sv_busy :: "nat list"
  sv_total :: nat
  sv_active :: int

text \<open>
  \<open>sv_total\<close> and \<open>sv_active\<close> are what this server adds to the counter and the gauge of connections of
  package metrics, which all servers of the process share.
\<close>

datatype new_result = NewOk server | NewErr go_error | NewPanic

text \<open>
  \<open>NewServerWithOptions\<close>. The results of creating the deliverer and the user store are
  arguments. A channel of negative size panics.
\<close>

definition forces_tls :: "Config \<Rightarrow> bool" where
  "forces_tls c \<longleftrightarrow> port_to_check (Server c) = SubmissionPort (Server c) \<and> port_to_check (Server c) \<noteq> 0"

definition lacks_tls :: "Config \<Rightarrow> bool" where
  "lacks_tls c \<longleftrightarrow> \<not> TLSEnabled (Security c) \<or> TLSCertFile (Security c) = [] \<or> TLSKeyFile (Security c) = []"

definition new_server :: "Config \<Rightarrow> TLSConfig option \<Rightarrow> Store option \<Rightarrow> server" where
  "new_server c tlsCfg authStore =
     \<lparr>sv_addr = listen_address (Server c), sv_tlsConfig = tlsCfg, sv_forceTLS = forces_tls c,
      sv_authStore = authStore, sv_config = Server c, sv_listening = False, sv_cancelled = False,
      sv_chanClosed = False, sv_connChan = [], sv_sem = 0, sv_idle = 0, sv_busy = [], sv_total = 0, sv_active = 0\<rparr>"

definition NewServerWithOptions ::
  "Config option \<Rightarrow> bool \<Rightarrow> bool \<Rightarrow> go_error option \<Rightarrow> go_error + Store option \<Rightarrow> new_result" where
  "NewServerWithOptions config hasQueue hasPlugins delivererErr authResult =
     (case config of
        None \<Rightarrow> NewErr (TextError ''config cannot be nil'')
      | Some c \<Rightarrow>
          if \<not> hasQueue then NewErr (TextError ''queue cannot be nil'')
          else if \<not> hasPlugins then NewErr (TextError ''plugin manager cannot be nil'')
          else (case delivererErr of
            Some err \<Rightarrow> NewErr (Wrapped ''failed to initialize outbound deliverer: '' err [])
          | None \<Rightarrow>
              if forces_tls c \<and> lacks_tls c
              then NewErr (TextError (''TLS configuration (enabled, cert, key) is required for submission port '' @
                     Itoa (SubmissionPort (Server c))))
              else
                (case (if TLSEnabled (Security c)
                       then (case NewTLSConfig (TLSCertFile (Security c)) (TLSKeyFile (Security c)) [] of
                               Inl err \<Rightarrow> Inl (Wrapped ''failed to load TLS cert/key: '' err [])
                             | Inr t \<Rightarrow> Inr (Some t))
                       else Inr None) of
                   Inl err \<Rightarrow> NewErr err
                 | Inr tlsCfg \<Rightarrow>
                     (case authResult of
                        Inl err \<Rightarrow> NewErr (Wrapped ''failed to create auth store: '' err [])
                      | Inr authStore \<Rightarrow>
                          if ConnectionBacklog (Server c) < 0 \<or> MaxConnections (Server c) < 0 then NewPanic
                          else NewOk (new_server c tlsCfg authStore)))))"

definition NewServer ::
  "Config option \<Rightarrow> bool \<Rightarrow> bool \<Rightarrow> go_error option \<Rightarrow> go_error + Store option \<Rightarrow> new_result" where
  "NewServer cfg hasQueue hasPlugins delivererErr authResult =
     NewServerWithOptions cfg hasQueue hasPlugins delivererErr authResult"

text \<open>
  \<open>Start\<close>; \<open>createTLS\<close> is the error of \<open>CreateTLSConfig\<close>, \<open>listen\<close> the error or address of the
  listener, given whether it is a TLS listener.
\<close>

definition server_Start ::
  "(TLSConfig \<Rightarrow> go_error option) \<Rightarrow> (bool \<Rightarrow> string \<Rightarrow> go_error + string) \<Rightarrow> server \<Rightarrow> go_error option \<times> server" where
  "server_Start createTLS listen s =
     (case (if sv_forceTLS s \<or> sv_tlsConfig s \<noteq> None
            then (case sv_tlsConfig s of
                    None \<Rightarrow> Some (TextError ''cannot start TLS: server.tlsConfig is nil, but TLS is required (forceTLS=true)'')
                  | Some t \<Rightarrow> map_option (\<lambda>err. Wrapped ''failed to create *tls.Config: '' err []) (createTLS t))
            else None) of
        Some err \<Rightarrow> (Some err, s)
      | None \<Rightarrow>
          (case listen (sv_forceTLS s) (sv_addr s) of
             Inl err \<Rightarrow> (Some (Wrapped (''failed to start listener on '' @ sv_addr s @ '': '') err []), s)
           | Inr addr \<Rightarrow>
               (None, s\<lparr>sv_addr := addr, sv_listening := True, sv_idle := nat (WorkerPoolSize (sv_config s))\<rparr>)))"

definition server_Addr :: "server \<Rightarrow> string" where
  "server_Addr s = sv_addr s"

section \<open>Connections\<close>

text \<open>
  A connection that the listener returned. A slot of the semaphore is taken, then the
  connection goes to a waiting worker or into the channel; with neither ready it is closed and
  the slot given back. While the server shuts down, closing is possible in any case.
\<close>

definition release_slot :: "server \<Rightarrow> server" where
  "release_slot s = s\<lparr>sv_sem := sv_sem s - 1, sv_active := sv_active s - 1\<rparr>"

definition acceptConnection :: "nat \<Rightarrow> server \<Rightarrow> server list" where
  "acceptConnection conn s =
     (if int (sv_sem s) < MaxConnections (sv_config s) then
        (let s1 = s\<lparr>sv_sem := sv_sem s + 1, sv_total := sv_total s + 1, sv_active := sv_active s + 1\<rparr>;
             sends = (if sv_connChan s = [] \<and> 0 < sv_idle s
                      then [s1\<lparr>sv_idle := sv_idle s - 1, sv_busy := conn # sv_busy s\<rparr>]
                      else if int (length (sv_connChan s)) < ConnectionBacklog (sv_config s)
                      then [s1\<lparr>sv_connChan := sv_connChan s @ [conn]\<rparr>] else [])
         in sends @ (if sv_cancelled s \<or> sends = [] then [release_slot s1] else []))
      else [s])"

text \<open>A worker takes the next connection of the channel, and is done with it, panic or not.\<close>

definition worker_take :: "server \<Rightarrow> server option" where
  "worker_take s =
     (case sv_connChan s of
        [] \<Rightarrow> None
      | c # cs \<Rightarrow> if 0 < sv_idle s
                 then Some (s\<lparr>sv_connChan := cs, sv_idle := sv_idle s - 1, sv_busy := c # sv_busy s\<rparr>) else None)"

definition worker_finish :: "nat \<Rightarrow> server \<Rightarrow> server option" where
  "worker_finish c s =
     (if c \<in> set (sv_busy s)
      then Some ((release_slot s)\<lparr>sv_busy := remove1 c (sv_busy s), sv_idle := sv_idle s + 1\<rparr>) else None)"

definition server_cancel :: "server \<Rightarrow> server" where
  "server_cancel s = s\<lparr>sv_cancelled := True\<rparr>"

definition accept_exit :: "server \<Rightarrow> server" where
  "accept_exit s = s\<lparr>sv_chanClosed := True\<rparr>"

inductive sv_step :: "server \<Rightarrow> server \<Rightarrow> bool" where
  accept: "sv_listening s \<Longrightarrow> \<not> sv_chanClosed s \<Longrightarrow> s' \<in> set (acceptConnection conn s) \<Longrightarrow> sv_step s s'"
| take_conn: "worker_take s = Some s' \<Longrightarrow> sv_step s s'"
| finish: "worker_finish c s = Some s' \<Longrightarrow> sv_step s s'"
| cancel: "sv_step s (server_cancel s)"
| exit: "sv_cancelled s \<Longrightarrow> sv_step s (accept_exit s)"

inductive_cases sv_stepE: "sv_step s s'"

inductive sv_reach :: "server \<Rightarrow> server \<Rightarrow> bool" for s0 where
  start: "sv_reach s0 s0"
| step: "sv_reach s0 s \<Longrightarrow> sv_step s s' \<Longrightarrow> sv_reach s0 s'"

section \<open>Invariant of the connection slots\<close>

definition slots_ok :: "ServerConfig \<Rightarrow> server \<Rightarrow> bool" where
  "slots_ok c s \<longleftrightarrow> sv_config s = c \<and>
     sv_sem s = length (sv_connChan s) + length (sv_busy s) \<and> int (sv_sem s) \<le> MaxConnections c \<and>
     sv_active s = int (sv_sem s) \<and> int (length (sv_connChan s)) \<le> ConnectionBacklog c \<and>
     int (sv_idle s + length (sv_busy s)) = max 0 (WorkerPoolSize c)"

lemma acceptConnection_ok: "slots_ok c s \<Longrightarrow> s' \<in> set (acceptConnection conn s) \<Longrightarrow> slots_ok c s'"
  by (auto simp: slots_ok_def acceptConnection_def release_slot_def Let_def split: if_splits)

lemma worker_take_ok: "slots_ok c s \<Longrightarrow> worker_take s = Some s' \<Longrightarrow> slots_ok c s'"
  by (auto simp: slots_ok_def worker_take_def split: list.splits if_splits)

lemma worker_finish_ok: "slots_ok c s \<Longrightarrow> worker_finish x s = Some s' \<Longrightarrow> slots_ok c s'"
proof -
  assume s: "slots_ok c s" and f: "worker_finish x s = Some s'"
  then have x: "x \<in> set (sv_busy s)" and s': "s' = (release_slot s)\<lparr>sv_busy := remove1 x (sv_busy s), sv_idle := sv_idle s + 1\<rparr>"
    by (auto simp: worker_finish_def split: if_splits)
  obtain n where "length (sv_busy s) = Suc n" using x by (cases "sv_busy s") auto
  then show ?thesis using s x unfolding s' by (auto simp: slots_ok_def release_slot_def length_remove1)
qed

lemma sv_step_ok: "sv_step s s' \<Longrightarrow> slots_ok c s \<Longrightarrow> slots_ok c s'"
  by (induction rule: sv_step.induct)
    (auto dest: acceptConnection_ok worker_take_ok worker_finish_ok simp: server_cancel_def accept_exit_def,
     auto simp: slots_ok_def)

lemma sv_reach_ok: "sv_reach s0 s \<Longrightarrow> slots_ok c s0 \<Longrightarrow> slots_ok c s"
  by (induction rule: sv_reach.induct) (auto intro: sv_step_ok)

lemma started_ok:
  assumes "NewServerWithOptions (Some c) q p d a = NewOk s" "server_Start ct ls s = (None, s0)"
  shows "slots_ok (Server c) s0"
  using assms
  by (auto simp: NewServerWithOptions_def new_server_def server_Start_def slots_ok_def Let_def
      split: if_splits option.splits sum.splits)

section \<open>The session of a connection\<close>

text \<open>
  What \<open>connectionWorker\<close> makes of a pooled session: \<open>Reset\<close>, then the server's settings. The
  listener is a TLS listener exactly when the server forces TLS.
\<close>

definition open_session :: "server \<Rightarrow> conn \<Rightarrow> net_addr \<Rightarrow> string \<Rightarrow> string \<Rightarrow> session \<Rightarrow> session" where
  "open_session sv cn remote local sid s =
     (sess_Reset cn (sv_forceTLS sv) remote local (sv_tlsConfig sv) sid s)
       \<lparr>ss_forceTLS := sv_forceTLS sv, ss_readTimeout := ReadTimeout (sv_config sv),
        ss_writeTimeout := WriteTimeout (sv_config sv), ss_idleTimeout := IdleTimeout (sv_config sv),
        ss_maxMessageSize := MaxMessageSize (sv_config sv), ss_localDomains := LocalDomains (sv_config sv)\<rparr>"

lemma open_session_ok:
  "sess_ok (LocalDomains (sv_config sv), sv_tlsConfig sv, sv_forceTLS sv, MaxMessageSize (sv_config sv))
     (open_session sv cn remote local sid s)"
  by (auto simp: open_session_def sess_Reset_def resetTransactionState_def sess_ok_defs Let_def)

section \<open>Properties\<close>

text \<open>
  C1: Relay control and limits. Whatever a client does on a connection, every message the
  session gives to the queue has a sender and at least one recipient, all of them addresses;
  each recipient is in one of the server's domains unless the session was authenticated; and
  the data is within the configured message size.
\<close>

theorem relay_control:
  "set (ss_submitted (res_session (Handle e (open_session sv cn remote local sid s0) w))) \<subseteq>
     {(m, authenticated). To m \<noteq> [] \<and> isValidEmail (From m) \<and>
        set (To m) \<subseteq> {r. isValidEmail r \<and> (authenticated \<or> local_in (LocalDomains (sv_config sv)) r)} \<and>
        int (length (Data m)) \<le> max 0 (MaxMessageSize (sv_config sv))}"
proof -
  obtain r s' w' where h: "Handle e (open_session sv cn remote local sid s0) w = (r, s', w')"
    by (cases "Handle e (open_session sv cn remote local sid s0) w")
  have "sess_inv s'"
    "sess_fixed s' = (LocalDomains (sv_config sv), sv_tlsConfig sv, sv_forceTLS sv, MaxMessageSize (sv_config sv))"
    using Handle_ok [OF open_session_ok h] by (simp_all only: sess_ok_def)
  then have "list_all (submitted_ok (LocalDomains (sv_config sv)) (MaxMessageSize (sv_config sv))) (ss_submitted s')"
    unfolding sess_inv_def sess_fixed_def list_all_iff by simp
  then show ?thesis unfolding h fst_conv snd_conv list_all_iff submitted_ok_def by auto
qed

text \<open>
  C31: A pooled session keeps nothing of its previous connection: what the worker makes of it
  does not depend on what it was used for before.
\<close>

theorem pooled_session_clean:
  "open_session sv cn remote local sid s = open_session sv cn remote local sid s'"
  by (simp add: open_session_def sess_Reset_def resetTransactionState_def Let_def)

text \<open>
  C14: Connection slots. In every state of a started server the semaphore holds exactly one slot
  for each connection that waits or is being handled, never more than the configured maximum;
  the gauge of active connections equals it; the channel stays within the backlog; and no
  worker is lost. So no slot leaks, whatever the order of accepts, rejections, panics and
  shutdown.
\<close>

theorem connection_slots:
  assumes "NewServerWithOptions (Some c) q p d a = NewOk s" "server_Start ct ls s = (None, s0)" "sv_reach s0 s'"
  shows "sv_sem s' = length (sv_connChan s') + length (sv_busy s') \<and>
         int (sv_sem s') \<le> MaxConnections (Server c) \<and> sv_active s' = int (sv_sem s') \<and>
         int (length (sv_connChan s')) \<le> ConnectionBacklog (Server c) \<and>
         int (sv_idle s' + length (sv_busy s')) = max 0 (WorkerPoolSize (Server c))"
  using sv_reach_ok [OF assms(3) started_ok [OF assms(1,2)]] by (simp add: slots_ok_def)

theorem connection_slots_witness:
  "\<exists>s s0 s'. NewServerWithOptions (Some DefaultConfig) True True None (Inr None) = NewOk s \<and>
     server_Start (\<lambda>_. None) (\<lambda>_ a. Inr a) s = (None, s0) \<and> sv_reach s0 s' \<and> sv_busy s' = [7] \<and> sv_sem s' = 1"
proof -
  have pc: "port_to_check (Server DefaultConfig) = 25"
    by (simp add: port_to_check_def DefaultConfig_def HasPrefix_def)
  let ?s = "new_server DefaultConfig None None"
  have new: "NewServerWithOptions (Some DefaultConfig) True True None (Inr None) = NewOk ?s"
    using pc by (simp add: NewServerWithOptions_def forces_tls_def) (simp add: DefaultConfig_def)
  obtain s0 where st: "server_Start (\<lambda>_. None) (\<lambda>_ a. Inr a) ?s = (None, s0)"
    and s0: "sv_connChan s0 = []" "sv_idle s0 = 4" "sv_listening s0" "\<not> sv_chanClosed s0" "sv_sem s0 = 0" "sv_busy s0 = []"
    "sv_config s0 = Server DefaultConfig"
    using pc by (simp add: server_Start_def new_server_def forces_tls_def) (simp add: DefaultConfig_def)
  let ?s' = "s0\<lparr>sv_sem := 1, sv_total := sv_total s0 + 1, sv_active := sv_active s0 + 1, sv_idle := 3, sv_busy := [7]\<rparr>"
  have "?s' \<in> set (acceptConnection 7 s0)"
    using s0 by (simp add: acceptConnection_def DefaultConfig_def Let_def)
  then have r: "sv_reach s0 ?s'" using s0 by (intro step [OF start] accept) auto
  show ?thesis using connection_slots [OF new st r] new st r by (intro exI conjI) (assumption, auto)
qed

end
