(* ===== verification/ServerStop.thy ===== *)
theory ServerStop
  imports ServerLoop Processor
begin

text \<open>
  The accept loop of the server as a whole, and its shutdown: \<open>acceptConnections\<close> and \<open>Stop\<close> of
  \<open>internal/server/server.go\<close>. After the accept loop has closed the connection channel, the workers
  empty it.
\<close>

section \<open>The accept loop\<close>

text \<open>What \<open>Accept\<close> returns: a connection, a time-out of the deadline, or another error.\<close>

datatype accept_event = NewConn nat | AcceptTimeout | AcceptErr

text \<open>
  One pass. \<open>late\<close> says that the context is cancelled while \<open>Accept\<close> waits. Errors do not end the
  loop unless the server shuts down.
\<close>

definition accept_pass :: "bool \<Rightarrow> accept_event \<Rightarrow> server \<Rightarrow> server list" where
  "accept_pass late ev s =
     (if sv_cancelled s \<or> \<not> sv_listening s then [accept_exit s]
      else
        (let s1 = (if late then server_cancel s else s) in
         (case ev of
            AcceptTimeout \<Rightarrow> [s1]
          | AcceptErr \<Rightarrow> if sv_cancelled s1 then [accept_exit s1] else [s1]
          | NewConn c \<Rightarrow> acceptConnection c s1)))"

text \<open>A pass is made of the steps of the server.\<close>

lemma accept_pass_steps:
  assumes "s' \<in> set (accept_pass late ev s)" "sv_listening s" "\<not> sv_chanClosed s"
  shows "sv_reach s s'"
proof (cases "sv_cancelled s")
  case True
  then have "s' = accept_exit s" using assms(1) by (simp add: accept_pass_def)
  then show ?thesis using sv_reach.step [OF sv_reach.start sv_step.exit [OF True]] by simp
next
  case False
  define s1 where "s1 = (if late then server_cancel s else s)"
  have s1: "sv_reach s s1"
    using sv_reach.step [OF sv_reach.start sv_step.cancel] sv_reach.start by (simp add: s1_def)
  have cl: "sv_listening s1" "\<not> sv_chanClosed s1" using assms(2,3) by (simp_all add: s1_def server_cancel_def)
  have in1: "s' \<in> set (case ev of AcceptTimeout \<Rightarrow> [s1] | AcceptErr \<Rightarrow> if sv_cancelled s1 then [accept_exit s1] else [s1]
      | NewConn c \<Rightarrow> acceptConnection c s1)"
    using assms(1,2) False by (simp add: accept_pass_def Let_def flip: s1_def)
  show ?thesis
  proof (cases ev)
    case (NewConn c)
    then have "s' \<in> set (acceptConnection c s1)" using in1 by simp
    then show ?thesis using sv_reach.step [OF s1 sv_step.accept [OF cl]] by blast
  next
    case AcceptErr
    then show ?thesis using in1 s1 sv_reach.step [OF s1 sv_step.exit] by (auto split: if_splits)
  next
    case AcceptTimeout
    then show ?thesis using in1 s1 by simp
  qed
qed

section \<open>Shutdown\<close>

text \<open>The steps that are left once the channel is closed: a worker takes a connection or is done with one.\<close>

definition drain_step :: "server \<Rightarrow> server \<Rightarrow> bool" where
  "drain_step s s' \<longleftrightarrow> worker_take s = Some s' \<or> (\<exists>c. worker_finish c s = Some s')"

text \<open>All workers are done and there is nothing to take: \<open>wg.Wait\<close> returns.\<close>

definition drained :: "server \<Rightarrow> bool" where
  "drained s \<longleftrightarrow> sv_connChan s = [] \<and> sv_busy s = []"

text \<open>
  \<open>Stop\<close>: cancel, wait until the server is drained or the timeout is over, then stop the
  processor. It does not return when the processor had been stopped before: closing its channel
  again panics.
\<close>

inductive server_Stop :: "server \<Rightarrow> QueueProcessor \<Rightarrow> bool \<Rightarrow> server \<Rightarrow> QueueProcessor \<Rightarrow> bool" where
  clean: "sv_reach (server_cancel s) s' \<Longrightarrow> sv_chanClosed s' \<Longrightarrow> drained s' \<Longrightarrow> processor_Stop p = Some p' \<Longrightarrow>
     server_Stop s p True s' p'"
| timeout: "sv_reach (server_cancel s) s' \<Longrightarrow> processor_Stop p = Some p' \<Longrightarrow> server_Stop s p False s' p'"

definition work :: "server \<Rightarrow> nat" where
  "work s = 2 * length (sv_connChan s) + length (sv_busy s)"

lemma drain_step_work: "drain_step s s' \<Longrightarrow> work s = Suc (work s')"
proof -
  assume "drain_step s s'"
  then consider "worker_take s = Some s'" | c where "worker_finish c s = Some s'" by (auto simp: drain_step_def)
  then show ?thesis
  proof cases
    case 1
    then show ?thesis by (auto simp: work_def worker_take_def split: list.splits if_splits)
  next
    case 2
    then have "c \<in> set (sv_busy s)" "sv_connChan s' = sv_connChan s" "sv_busy s' = remove1 c (sv_busy s)"
      by (auto simp: worker_finish_def release_slot_def split: if_splits)
    then show ?thesis using length_pos_if_in_set [of c "sv_busy s"] by (auto simp: work_def length_remove1)
  qed
qed

lemma drain_step_sv: "drain_step s s' \<Longrightarrow> sv_step s s'"
  by (auto simp: drain_step_def intro: sv_step.intros)

lemma drain_frame: "drain_step s s' \<Longrightarrow> sv_chanClosed s' = sv_chanClosed s \<and> sv_cancelled s' = sv_cancelled s"
  by (auto simp: drain_step_def worker_take_def worker_finish_def release_slot_def split: list.splits if_splits)

lemma closed_step:
  assumes "sv_step s s'" "sv_chanClosed s" "sv_cancelled s"
  shows "s' = s \<or> drain_step s s'"
  using assms by (cases rule: sv_step.cases) (auto simp: drain_step_def server_cancel_def accept_exit_def)

lemma drain_progress:
  assumes "slots_ok c s" "0 < WorkerPoolSize c" "\<not> drained s"
  shows "\<exists>s'. drain_step s s'"
proof (cases "sv_busy s")
  case Nil
  then have "0 < sv_idle s" "sv_connChan s \<noteq> []" using assms by (auto simp: slots_ok_def drained_def)
  then show ?thesis by (auto simp: drain_step_def worker_take_def split: list.splits)
next
  case (Cons x xs)
  then show ?thesis by (auto simp: drain_step_def worker_finish_def)
qed

lemma drain_run: "(drain_step ^^ n) s s' \<Longrightarrow> work s = n + work s' \<and> sv_reach s s'"
proof (induction n arbitrary: s')
  case (Suc n)
  then obtain t where t: "(drain_step ^^ n) s t" "drain_step t s'" by auto
  then show ?case using Suc.IH [OF t(1)] drain_step_work [OF t(2)] drain_step_sv [OF t(2)] by (auto intro: sv_reach.step)
qed (auto intro: sv_reach.start)

section \<open>Properties\<close>

text \<open>
  C22: A shutdown drains the server. Once the accept loop of a started server with workers has
  closed the connection channel, the only steps left are workers taking and finishing
  connections; there are at most twice as many of them as connections were waiting, plus those
  being handled; and when no such step is possible any more, every connection has been handled
  and every slot of the semaphore is free again. So \<open>Stop\<close> returns cleanly as soon as the
  sessions have ended.
\<close>

theorem shutdown_drains:
  assumes "NewServerWithOptions (Some c) q p d a = NewOk s" "server_Start ct ls s = (None, s0)" "sv_reach s0 s1"
    "sv_chanClosed s1" "sv_cancelled s1" "0 < WorkerPoolSize (Server c)" "(drain_step ^^ n) s1 s2"
  shows "n \<le> 2 * length (sv_connChan s1) + length (sv_busy s1) \<and>
    (\<forall>s3. sv_step s2 s3 \<longrightarrow> s3 = s2 \<or> drain_step s2 s3) \<and>
    ((\<nexists>s3. drain_step s2 s3) \<longrightarrow> sv_connChan s2 = [] \<and> sv_busy s2 = [] \<and> sv_sem s2 = 0)"
proof -
  note run = drain_run [OF assms(7)]
  have ok1: "slots_ok (Server c) s1" using sv_reach_ok [OF assms(3) started_ok [OF assms(1,2)]] .
  have ok2: "slots_ok (Server c) s2" using sv_reach_ok [OF _ ok1] run by blast
  have "sv_chanClosed s2 \<and> sv_cancelled s2" using assms(7,4,5)
  proof (induction n arbitrary: s2)
    case (Suc n)
    then show ?case using drain_frame by auto
  qed simp
  moreover have "sv_connChan s2 = [] \<and> sv_busy s2 = [] \<and> sv_sem s2 = 0" if "\<nexists>s3. drain_step s2 s3"
    using drain_progress [OF ok2 assms(6)] that ok2 by (auto simp: drained_def slots_ok_def)
  ultimately show ?thesis using run closed_step by (auto simp: work_def)
qed

theorem shutdown_drains_witness:
  "\<exists>s0 s1 s2. sv_reach s0 s1 \<and> sv_busy s1 = [7] \<and> sv_chanClosed s1 \<and> (drain_step ^^ 1) s1 s2 \<and> sv_busy s2 = [] \<and> sv_sem s2 = 0"
proof -
  have pc: "port_to_check (Server DefaultConfig) = 25"
    by (simp add: port_to_check_def DefaultConfig_def HasPrefix_def)
  let ?s = "new_server DefaultConfig None None"
  have new: "NewServerWithOptions (Some DefaultConfig) True True None (Inr None) = NewOk ?s"
    using pc by (simp add: NewServerWithOptions_def forces_tls_def) (simp add: DefaultConfig_def)
  obtain s0 where st: "server_Start (\<lambda>_. None) (\<lambda>_ a. Inr a) ?s = (None, s0)"
    and s0: "sv_connChan s0 = []" "sv_idle s0 = 4" "sv_listening s0" "\<not> sv_chanClosed s0" "sv_sem s0 = 0" "sv_busy s0 = []"
    "sv_config s0 = Server DefaultConfig"
    using pc by (simp add: server_Start_def new_server_def forces_tls_def) (simp add: DefaultConfig_def)
  let ?a = "s0\<lparr>sv_sem := 1, sv_total := sv_total s0 + 1, sv_active := sv_active s0 + 1, sv_idle := 3, sv_busy := [7]\<rparr>"
  let ?s1 = "accept_exit (server_cancel ?a)"
  have "?a \<in> set (acceptConnection 7 s0)"
    using s0 by (simp add: acceptConnection_def DefaultConfig_def Let_def)
  then have "sv_reach s0 ?a" using s0 by (intro sv_reach.step [OF sv_reach.start] sv_step.accept) auto
  then have "sv_reach s0 (server_cancel ?a)" by (rule sv_reach.step) (rule sv_step.cancel)
  then have r: "sv_reach s0 ?s1" by (rule sv_reach.step) (simp add: sv_step.exit server_cancel_def)
  have c1: "sv_chanClosed ?s1" "sv_cancelled ?s1" "sv_busy ?s1 = [7]" by (simp_all add: accept_exit_def server_cancel_def)
  have w: "0 < WorkerPoolSize (Server DefaultConfig)" by (simp add: DefaultConfig_def)
  let ?s2 = "(release_slot ?s1)\<lparr>sv_busy := [], sv_idle := sv_idle ?s1 + 1\<rparr>"
  have "drain_step ?s1 ?s2" using c1 by (auto simp: drain_step_def worker_finish_def intro!: exI [of _ 7])
  then have d: "(drain_step ^^ 1) ?s1 ?s2" by (simp only: relpowp_1)
  have "sv_connChan ?s2 = []" using s0 by (simp add: accept_exit_def server_cancel_def release_slot_def)
  then have n: "\<nexists>s3. drain_step ?s2 s3" by (auto simp: drain_step_def worker_take_def worker_finish_def)
  show ?thesis using shutdown_drains [OF new st r c1(1,2) w d] n r c1 d by blast
qed

end
