(* ===== verification/Metrics.thy ===== *)
theory Metrics
  imports Complex_Main PluginAPI
begin

text \<open>
  The collectors of \<open>internal/metrics/metrics.go\<close> and the functions that record into them. The
  Prometheus library is not part of the program: a collector is the options it is created with
  (but for the help text), and a function is the list of the calls it makes on collectors. What
  the library accepts is stated as its documentation has it.
\<close>

section \<open>Collectors\<close>

datatype buckets = DefBuckets | ExponentialBuckets rat rat nat | Buckets "rat list"

datatype collector_kind = Counter | Gauge | Histogram buckets

record collector =
  co_Subsystem :: string
  co_Name :: string
  co_kind :: collector_kind
  co_labels :: "string list"

definition namespace :: string where
  "namespace = ''smtpd''"

subsection \<open>Connections, commands, authentication and TLS\<close>

definition ConnectionsTotal :: collector where
  "ConnectionsTotal = \<lparr>co_Subsystem = ''server'', co_Name = ''connections_total'', co_kind = Counter, co_labels = []\<rparr>"

definition ConnectionsActive :: collector where
  "ConnectionsActive = \<lparr>co_Subsystem = ''server'', co_Name = ''connections_active'', co_kind = Gauge, co_labels = []\<rparr>"

definition CommandsProcessedTotal :: collector where
  "CommandsProcessedTotal = \<lparr>co_Subsystem = ''server'', co_Name = ''commands_processed_total'', co_kind = Counter,
     co_labels = [''command'', ''result'']\<rparr>"

definition CommandProcessingTime :: collector where
  "CommandProcessingTime = \<lparr>co_Subsystem = ''server'', co_Name = ''command_processing_time_seconds'',
     co_kind = Histogram DefBuckets, co_labels = [''command'']\<rparr>"

definition AuthAttemptsTotal :: collector where
  "AuthAttemptsTotal = \<lparr>co_Subsystem = ''auth'', co_Name = ''attempts_total'', co_kind = Counter,
     co_labels = [''method'', ''result'']\<rparr>"

definition TLSConnectionsTotal :: collector where
  "TLSConnectionsTotal = \<lparr>co_Subsystem = ''server'', co_Name = ''tls_connections_total'', co_kind = Counter, co_labels = []\<rparr>"

definition TLSHandshakeTime :: collector where
  "TLSHandshakeTime = \<lparr>co_Subsystem = ''server'', co_Name = ''tls_handshake_time_seconds'',
     co_kind = Histogram DefBuckets, co_labels = []\<rparr>"

definition TLSHandshakesTotal :: collector where
  "TLSHandshakesTotal = \<lparr>co_Subsystem = ''server'', co_Name = ''tls_handshakes_total'', co_kind = Counter,
     co_labels = [''result'']\<rparr>"

definition TLSVersionsTotal :: collector where
  "TLSVersionsTotal = \<lparr>co_Subsystem = ''server'', co_Name = ''tls_versions_total'', co_kind = Counter,
     co_labels = [''version'']\<rparr>"

subsection \<open>Messages, delivery, queue and plugins\<close>

definition MessagesReceivedTotal :: collector where
  "MessagesReceivedTotal = \<lparr>co_Subsystem = ''server'', co_Name = ''messages_received_total'', co_kind = Counter, co_labels = []\<rparr>"

definition MessageSizeBytes :: collector where
  "MessageSizeBytes = \<lparr>co_Subsystem = ''server'', co_Name = ''message_size_bytes'',
     co_kind = Histogram (ExponentialBuckets 1024 2 10), co_labels = []\<rparr>"

definition DeliveryAttemptsTotal :: collector where
  "DeliveryAttemptsTotal = \<lparr>co_Subsystem = ''delivery'', co_Name = ''attempts_total'', co_kind = Counter,
     co_labels = [''remote_domain'']\<rparr>"

definition DeliveryResultsTotal :: collector where
  "DeliveryResultsTotal = \<lparr>co_Subsystem = ''delivery'', co_Name = ''results_total'', co_kind = Counter,
     co_labels = [''remote_domain'', ''result'']\<rparr>"

definition DeliveryTimeSeconds :: collector where
  "DeliveryTimeSeconds = \<lparr>co_Subsystem = ''delivery'', co_Name = ''time_seconds'',
     co_kind = Histogram (ExponentialBuckets (1 / 10) 2 10), co_labels = [''remote_domain'', ''result'']\<rparr>"

definition QueueSizeReady :: collector where
  "QueueSizeReady = \<lparr>co_Subsystem = ''queue'', co_Name = ''size_ready'', co_kind = Gauge, co_labels = []\<rparr>"

definition QueueSizeRetry :: collector where
  "QueueSizeRetry = \<lparr>co_Subsystem = ''queue'', co_Name = ''size_retry'', co_kind = Gauge, co_labels = []\<rparr>"

definition MessageRetryCount :: collector where
  "MessageRetryCount = \<lparr>co_Subsystem = ''queue'', co_Name = ''message_retry_count'',
     co_kind = Histogram (Buckets [1, 2, 3, 5, 8, 13, 21, 34]), co_labels = []\<rparr>"

definition MessageTimeInQueueSeconds :: collector where
  "MessageTimeInQueueSeconds = \<lparr>co_Subsystem = ''queue'', co_Name = ''message_time_in_queue_seconds'',
     co_kind = Histogram (ExponentialBuckets 60 2 10), co_labels = []\<rparr>"

definition PluginProcessingTimeSeconds :: collector where
  "PluginProcessingTimeSeconds = \<lparr>co_Subsystem = ''plugin'', co_Name = ''processing_time_seconds'',
     co_kind = Histogram (ExponentialBuckets (1 / 1000) 2 10), co_labels = [''plugin'', ''hook'']\<rparr>"

definition PluginResultsTotal :: collector where
  "PluginResultsTotal = \<lparr>co_Subsystem = ''plugin'', co_Name = ''results_total'', co_kind = Counter,
     co_labels = [''plugin'', ''hook'', ''result'']\<rparr>"

definition RateLimitHitsTotal :: collector where
  "RateLimitHitsTotal = \<lparr>co_Subsystem = ''ratelimit'', co_Name = ''hits_total'', co_kind = Counter, co_labels = [''type'']\<rparr>"

subsection \<open>Message status, bounces, rejections, deferrals and the log\<close>

definition MessageStatusTotal :: collector where
  "MessageStatusTotal = \<lparr>co_Subsystem = ''message'', co_Name = ''status_total'', co_kind = Counter, co_labels = [''status'']\<rparr>"

definition MessageStatusByDomain :: collector where
  "MessageStatusByDomain = \<lparr>co_Subsystem = ''message'', co_Name = ''status_by_domain_total'', co_kind = Counter,
     co_labels = [''status'', ''domain'']\<rparr>"

definition MessageStatusBySize :: collector where
  "MessageStatusBySize = \<lparr>co_Subsystem = ''message'', co_Name = ''status_by_size_bytes'',
     co_kind = Histogram (ExponentialBuckets 1024 2 10), co_labels = [''status'']\<rparr>"

definition MessageStatusByTime :: collector where
  "MessageStatusByTime = \<lparr>co_Subsystem = ''message'', co_Name = ''status_by_time_seconds'',
     co_kind = Histogram (ExponentialBuckets (1 / 10) 2 10), co_labels = [''status'']\<rparr>"

definition BounceReasonTotal :: collector where
  "BounceReasonTotal = \<lparr>co_Subsystem = ''bounce'', co_Name = ''reason_total'', co_kind = Counter, co_labels = [''reason'']\<rparr>"

definition BounceTimeToBounce :: collector where
  "BounceTimeToBounce = \<lparr>co_Subsystem = ''bounce'', co_Name = ''time_to_bounce_seconds'',
     co_kind = Histogram (ExponentialBuckets 60 2 10), co_labels = []\<rparr>"

definition RejectionReasonTotal :: collector where
  "RejectionReasonTotal = \<lparr>co_Subsystem = ''rejection'', co_Name = ''reason_total'', co_kind = Counter, co_labels = [''reason'']\<rparr>"

definition DeferralReasonTotal :: collector where
  "DeferralReasonTotal = \<lparr>co_Subsystem = ''deferral'', co_Name = ''reason_total'', co_kind = Counter, co_labels = [''reason'']\<rparr>"

definition DeferralRetryCount :: collector where
  "DeferralRetryCount = \<lparr>co_Subsystem = ''deferral'', co_Name = ''retry_count'',
     co_kind = Histogram (Buckets [1, 2, 3, 5, 8, 13, 21, 34]), co_labels = []\<rparr>"

definition logMessages :: collector where
  "logMessages = \<lparr>co_Subsystem = ''log'', co_Name = ''messages_total'', co_kind = Counter, co_labels = [''level'']\<rparr>"

lemmas collector_defs =
  ConnectionsTotal_def ConnectionsActive_def CommandsProcessedTotal_def CommandProcessingTime_def AuthAttemptsTotal_def
  TLSConnectionsTotal_def TLSHandshakeTime_def TLSHandshakesTotal_def TLSVersionsTotal_def MessagesReceivedTotal_def
  MessageSizeBytes_def DeliveryAttemptsTotal_def DeliveryResultsTotal_def DeliveryTimeSeconds_def QueueSizeReady_def
  QueueSizeRetry_def MessageRetryCount_def MessageTimeInQueueSeconds_def PluginProcessingTimeSeconds_def
  PluginResultsTotal_def RateLimitHitsTotal_def MessageStatusTotal_def MessageStatusByDomain_def MessageStatusBySize_def
  MessageStatusByTime_def BounceReasonTotal_def BounceTimeToBounce_def RejectionReasonTotal_def DeferralReasonTotal_def
  DeferralRetryCount_def logMessages_def

subsection \<open>Registration\<close>

text \<open>\<open>promauto\<close> registers a collector when it is created, in the order of the declarations.\<close>

definition auto_registered :: "collector list" where
  "auto_registered =
     [ConnectionsTotal, ConnectionsActive, AuthAttemptsTotal, TLSHandshakesTotal, TLSVersionsTotal,
      MessagesReceivedTotal, MessageSizeBytes, DeliveryAttemptsTotal, DeliveryResultsTotal, DeliveryTimeSeconds,
      QueueSizeReady, QueueSizeRetry, MessageRetryCount, MessageTimeInQueueSeconds,
      PluginProcessingTimeSeconds, PluginResultsTotal, RateLimitHitsTotal,
      MessageStatusTotal, MessageStatusByDomain, MessageStatusBySize, MessageStatusByTime,
      BounceReasonTotal, BounceTimeToBounce, RejectionReasonTotal, DeferralReasonTotal, DeferralRetryCount, logMessages]"

text \<open>\<open>init\<close> registers the others.\<close>

definition init_registered :: "collector list" where
  "init_registered = [CommandsProcessedTotal, CommandProcessingTime, TLSConnectionsTotal, TLSHandshakeTime]"

definition registered :: "collector list" where
  "registered = auto_registered @ init_registered"

section \<open>Recording\<close>

text \<open>
  A sample is a time in seconds, made from a duration, or a whole number. Collectors without labels are called directly; the
  others through \<open>WithLabelValues\<close>.
\<close>

datatype sample = Seconds duration | Number int

datatype call =
    CInc collector "string list"
  | CDec collector
  | CSet collector sample
  | CObserve collector "string list" sample

definition RecordAuth :: "string \<Rightarrow> string \<Rightarrow> call list" where
  "RecordAuth method result = [CInc AuthAttemptsTotal [method, result]]"

definition RecordTLSConnection :: "duration \<Rightarrow> call list" where
  "RecordTLSConnection d = [CInc TLSConnectionsTotal [], CObserve TLSHandshakeTime [] (Seconds d)]"

definition RecordMessageSize :: "int \<Rightarrow> call list" where
  "RecordMessageSize sz = [CObserve MessageSizeBytes [] (Number sz)]"

definition RecordRateLimitHit :: "string \<Rightarrow> call list" where
  "RecordRateLimitHit limitType = [CInc RateLimitHitsTotal [limitType]]"

definition RecordMessageTimeInQueue :: "duration \<Rightarrow> call list" where
  "RecordMessageTimeInQueue d = [CObserve MessageTimeInQueueSeconds [] (Seconds d)]"

definition RecordMessageRetryCount :: "int \<Rightarrow> call list" where
  "RecordMessageRetryCount retries = [CObserve MessageRetryCount [] (Number retries)]"

definition UpdateQueueSizes :: "int \<Rightarrow> int \<Rightarrow> call list" where
  "UpdateQueueSizes readySize retrySize = [CSet QueueSizeReady (Number readySize), CSet QueueSizeRetry (Number retrySize)]"

definition RecordMessageStatus :: "string \<Rightarrow> int \<Rightarrow> duration \<Rightarrow> call list" where
  "RecordMessageStatus status sz d =
     [CInc MessageStatusTotal [status], CObserve MessageStatusBySize [status] (Number sz),
      CObserve MessageStatusByTime [status] (Seconds d)]"

definition RecordMessageStatusByDomain :: "string \<Rightarrow> string \<Rightarrow> call list" where
  "RecordMessageStatusByDomain status domain = [CInc MessageStatusByDomain [status, domain]]"

definition RecordBounce :: "string \<Rightarrow> duration \<Rightarrow> call list" where
  "RecordBounce reason timeToBounce = [CInc BounceReasonTotal [reason], CObserve BounceTimeToBounce [] (Seconds timeToBounce)]"

definition RecordRejection :: "string \<Rightarrow> call list" where
  "RecordRejection reason = [CInc RejectionReasonTotal [reason]]"

definition RecordDeferral :: "string \<Rightarrow> int \<Rightarrow> call list" where
  "RecordDeferral reason retryCount = [CInc DeferralReasonTotal [reason], CObserve DeferralRetryCount [] (Number retryCount)]"

definition RecordLogMessage :: "string \<Rightarrow> call list" where
  "RecordLogMessage level = [CInc logMessages [level]]"

definition RecordTLSHandshake :: "string \<Rightarrow> call list" where
  "RecordTLSHandshake result = [CInc TLSHandshakesTotal [result]]"

definition RecordTLSVersion :: "string \<Rightarrow> call list" where
  "RecordTLSVersion version = [CInc TLSVersionsTotal [version]]"

definition RecordConnection :: "call list" where
  "RecordConnection = [CInc ConnectionsTotal [], CInc ConnectionsActive []]"

definition RecordConnectionClosed :: "call list" where
  "RecordConnectionClosed = [CDec ConnectionsActive]"

definition RecordDeliveryTime :: "string \<Rightarrow> string \<Rightarrow> duration \<Rightarrow> call list" where
  "RecordDeliveryTime remoteDomain result d = [CObserve DeliveryTimeSeconds [remoteDomain, result] (Seconds d)]"

definition RecordPluginProcessingTime :: "string \<Rightarrow> string \<Rightarrow> duration \<Rightarrow> call list" where
  "RecordPluginProcessingTime pluginName hook d = [CObserve PluginProcessingTimeSeconds [pluginName, hook] (Seconds d)]"

definition RecordPluginResult :: "string \<Rightarrow> string \<Rightarrow> string \<Rightarrow> call list" where
  "RecordPluginResult pluginName hook result = [CInc PluginResultsTotal [pluginName, hook, result]]"

definition RecordCommand :: "string \<Rightarrow> call list" where
  "RecordCommand command = [CInc CommandsProcessedTotal [command, ''success'']]"

definition RecordAuthAttempt :: "string \<Rightarrow> string \<Rightarrow> call list" where
  "RecordAuthAttempt method result = [CInc AuthAttemptsTotal [method, result]]"

text \<open>The calls of \<open>TimeCommand\<close> after the command, whose error decides the result.\<close>

definition TimeCommand_calls :: "string \<Rightarrow> go_error option \<Rightarrow> duration \<Rightarrow> call list" where
  "TimeCommand_calls command err d =
     (let result = (if err \<noteq> None then ''failure'' else ''success'') in
      [CInc CommandsProcessedTotal [command, result], CObserve CommandProcessingTime [command] (Seconds d)])"

text \<open>The two gauges are read through \<open>Write\<close>, an operation of the library that may fail (None).\<close>

definition GetConnectionsActive :: "(collector \<Rightarrow> int option) \<Rightarrow> int" where
  "GetConnectionsActive written = (case written ConnectionsActive of None \<Rightarrow> 0 | Some v \<Rightarrow> v)"

definition GetQueueSizeReady :: "(collector \<Rightarrow> int option) \<Rightarrow> int" where
  "GetQueueSizeReady written = (case written QueueSizeReady of None \<Rightarrow> 0 | Some v \<Rightarrow> v)"

text \<open>
  The type \<open>Metrics\<close>. It embeds the base plugin, but its \<open>OnMessage\<close> returns a context as well,
  so it does not implement the plugin interface, and the interface has no hooks for the start and end of a
  session: these are functions on their own.
\<close>

definition metrics_Name :: string where
  "metrics_Name = ''Metrics Collector''"

definition metrics_OnSessionStart :: "ctx \<Rightarrow> SessionInfo \<Rightarrow> (ctx \<times> go_error option) \<times> call list" where
  "metrics_OnSessionStart c si = ((c, None), RecordConnection)"

definition metrics_OnSessionEnd :: "ctx \<Rightarrow> SessionInfo \<Rightarrow> (ctx \<times> go_error option) \<times> call list" where
  "metrics_OnSessionEnd c si = ((c, None), RecordConnectionClosed)"

definition metrics_OnMessage :: "ctx \<Rightarrow> SessionInfo \<Rightarrow> MessageInfo \<Rightarrow> (ctx \<times> go_error option) \<times> call list" where
  "metrics_OnMessage c si m = ((c, None), RecordMessageSize (int (length (mi_Data m))))"

lemmas record_defs =
  RecordAuth_def RecordTLSConnection_def RecordMessageSize_def RecordRateLimitHit_def RecordMessageTimeInQueue_def
  RecordMessageRetryCount_def UpdateQueueSizes_def RecordMessageStatus_def RecordMessageStatusByDomain_def RecordBounce_def
  RecordRejection_def RecordDeferral_def RecordLogMessage_def RecordTLSHandshake_def RecordTLSVersion_def RecordConnection_def
  RecordConnectionClosed_def RecordDeliveryTime_def RecordPluginProcessingTime_def RecordPluginResult_def RecordCommand_def
  RecordAuthAttempt_def TimeCommand_calls_def

section \<open>What the library accepts\<close>

text \<open>\<open>utf8.ValidString\<close>: the bytes that continue a rune, and the bounds of the first of them.\<close>

definition utf8_first :: "char \<Rightarrow> (nat \<times> nat \<times> nat) option" where
  "utf8_first c =
     (let b = of_char c :: nat in
      if b < 0x80 then Some (0, 0, 0)
      else if b < 0xC2 then None
      else if b < 0xE0 then Some (1, 0x80, 0xBF)
      else if b = 0xE0 then Some (2, 0xA0, 0xBF)
      else if b = 0xED then Some (2, 0x80, 0x9F)
      else if b < 0xF0 then Some (2, 0x80, 0xBF)
      else if b = 0xF0 then Some (3, 0x90, 0xBF)
      else if b < 0xF4 then Some (3, 0x80, 0xBF)
      else if b = 0xF4 then Some (3, 0x80, 0x8F)
      else None)"

definition in_bounds :: "nat \<Rightarrow> nat \<Rightarrow> char \<Rightarrow> bool" where
  "in_bounds lo hi c \<longleftrightarrow> lo \<le> of_char c \<and> of_char c \<le> hi"

fun ValidString :: "string \<Rightarrow> bool" where
  "ValidString [] = True"
| "ValidString (c # s) =
     (case utf8_first c of
        None \<Rightarrow> False
      | Some (n, lo, hi) \<Rightarrow>
          n \<le> length s \<and> list_all (in_bounds lo hi) (take 1 (take n s)) \<and>
          list_all (in_bounds 0x80 0xBF) (drop 1 (take n s)) \<and> ValidString (drop n s))"

text \<open>
  A collector can be created and registered when its name and its labels are identifiers, its
  buckets increase, a histogram does not use the reserved label, and its full name is new.
\<close>

definition metric_ident :: "string \<Rightarrow> bool" where
  "metric_ident s \<longleftrightarrow> s \<noteq> [] \<and> \<not> is_digit (hd s) \<and> list_all (\<lambda>c. is_alnum c \<or> c = CHR ''_'') s"

definition fq_name :: "collector \<Rightarrow> string" where
  "fq_name c = namespace @ ''_'' @ co_Subsystem c @ ''_'' @ co_Name c"

fun buckets_ok :: "buckets \<Rightarrow> bool" where
  "buckets_ok DefBuckets = True"
| "buckets_ok (ExponentialBuckets start factor n) = (1 \<le> n \<and> 0 < start \<and> 1 < factor)"
| "buckets_ok (Buckets bs) = sorted_wrt (<) bs"

definition collector_ok :: "collector \<Rightarrow> bool" where
  "collector_ok c \<longleftrightarrow> metric_ident (fq_name c) \<and> list_all metric_ident (co_labels c) \<and> distinct (co_labels c) \<and>
     (case co_kind c of Histogram b \<Rightarrow> buckets_ok b \<and> ''le'' \<notin> set (co_labels c) | _ \<Rightarrow> True)"

text \<open>
  A call is accepted when the collector has the operation and there is a value for each label;
  \<open>WithLabelValues\<close> panics otherwise, and also when a value is not valid UTF-8.
\<close>

fun call_collector :: "call \<Rightarrow> collector" where
  "call_collector (CInc c ls) = c"
| "call_collector (CDec c) = c"
| "call_collector (CSet c v) = c"
| "call_collector (CObserve c ls v) = c"

fun call_values :: "call \<Rightarrow> string list" where
  "call_values (CInc c ls) = ls"
| "call_values (CDec c) = []"
| "call_values (CSet c v) = []"
| "call_values (CObserve c ls v) = ls"

fun has_operation :: "call \<Rightarrow> bool" where
  "has_operation (CInc c ls) = (co_kind c \<in> {Counter, Gauge})"
| "has_operation (CDec c) = (co_kind c = Gauge)"
| "has_operation (CSet c v) = (co_kind c = Gauge)"
| "has_operation (CObserve c ls v) = (case co_kind c of Histogram _ \<Rightarrow> True | _ \<Rightarrow> False)"

definition call_accepted :: "call \<Rightarrow> bool" where
  "call_accepted c \<longleftrightarrow> call_collector c \<in> set registered \<and> has_operation c \<and>
     length (call_values c) = length (co_labels (call_collector c)) \<and> list_all ValidString (call_values c)"

section \<open>Every call of the package\<close>

text \<open>The calls that the functions of the package can make, with any arguments.\<close>

inductive recorded :: "call list \<Rightarrow> bool" where
  "recorded (RecordAuth method result)"
| "recorded (RecordTLSConnection d)"
| "recorded (RecordMessageSize sz)"
| "recorded (RecordRateLimitHit limitType)"
| "recorded (RecordMessageTimeInQueue d)"
| "recorded (RecordMessageRetryCount retries)"
| "recorded (UpdateQueueSizes readySize retrySize)"
| "recorded (RecordMessageStatus status sz d)"
| "recorded (RecordMessageStatusByDomain status domain)"
| "recorded (RecordBounce reason d)"
| "recorded (RecordRejection reason)"
| "recorded (RecordDeferral reason retries)"
| "recorded (RecordLogMessage level)"
| "recorded (RecordTLSHandshake result)"
| "recorded (RecordTLSVersion version)"
| "recorded RecordConnection"
| "recorded RecordConnectionClosed"
| "recorded (RecordDeliveryTime remoteDomain result d)"
| "recorded (RecordPluginProcessingTime pluginName hook d)"
| "recorded (RecordPluginResult pluginName hook result)"
| "recorded (RecordCommand command)"
| "recorded (RecordAuthAttempt method result)"
| "recorded (TimeCommand_calls command err d)"

lemma registered_members:
  "set registered = {ConnectionsTotal, ConnectionsActive, AuthAttemptsTotal, TLSHandshakesTotal, TLSVersionsTotal,
      MessagesReceivedTotal, MessageSizeBytes, DeliveryAttemptsTotal, DeliveryResultsTotal, DeliveryTimeSeconds,
      QueueSizeReady, QueueSizeRetry, MessageRetryCount, MessageTimeInQueueSeconds,
      PluginProcessingTimeSeconds, PluginResultsTotal, RateLimitHitsTotal,
      MessageStatusTotal, MessageStatusByDomain, MessageStatusBySize, MessageStatusByTime,
      BounceReasonTotal, BounceTimeToBounce, RejectionReasonTotal, DeferralReasonTotal, DeferralRetryCount, logMessages,
      CommandsProcessedTotal, CommandProcessingTime, TLSConnectionsTotal, TLSHandshakeTime}"
  by (simp only: registered_def auto_registered_def init_registered_def set_append list.simps Un_insert_left Un_empty_left)

lemma recorded_fits:
  assumes "recorded cs" "c \<in> set cs"
  shows "call_collector c \<in> set registered \<and> has_operation c \<and> length (call_values c) = length (co_labels (call_collector c))"
proof
  show "call_collector c \<in> set registered"
    using assms by (cases rule: recorded.cases) (auto simp: record_defs Let_def registered_members)
  show "has_operation c \<and> length (call_values c) = length (co_labels (call_collector c))"
    using assms by (cases rule: recorded.cases) (auto simp: record_defs Let_def collector_defs)
qed

lemma registered_names: "distinct (map fq_name registered)"
  by (simp add: registered_def auto_registered_def init_registered_def fq_name_def collector_defs)

lemma registered_ok: "c \<in> set registered \<Longrightarrow> collector_ok c"
  unfolding registered_members
  by (elim insertE emptyE; simp add: collector_ok_def metric_ident_def fq_name_def namespace_def collector_defs
      is_alnum_def is_lower_def is_upper_def is_digit_def)

text \<open>
  C32: The package is used as the library requires. All collectors can be created and registered
  (the full names differ, names and labels are identifiers, buckets increase), and a
  call that a function of the package makes, on whatever arguments, is on a registered collector that has
  the operation and with the right number of labels; so it is accepted exactly when the label
  values are valid UTF-8.
\<close>

theorem metrics_calls_fit:
  assumes "recorded cs" "c \<in> set cs"
  shows "distinct (map fq_name registered) \<and> list_all collector_ok registered \<and>
     (call_accepted c \<longleftrightarrow> list_all ValidString (call_values c))"
  using recorded_fits [OF assms] registered_names registered_ok by (simp add: call_accepted_def list_all_iff)

theorem metrics_calls_fit_witness:
  "CInc AuthAttemptsTotal [''PLAIN'', ''success''] \<in> set (RecordAuth ''PLAIN'' ''success'') \<and>
   call_accepted (CInc AuthAttemptsTotal [''PLAIN'', ''success''])"
proof -
  have "recorded (RecordAuth ''PLAIN'' ''success'')" by (rule recorded.intros)
  moreover have c: "CInc AuthAttemptsTotal [''PLAIN'', ''success''] \<in> set (RecordAuth ''PLAIN'' ''success'')"
    by (simp add: RecordAuth_def)
  ultimately have "call_accepted (CInc AuthAttemptsTotal [''PLAIN'', ''success'']) \<longleftrightarrow>
      list_all ValidString [''PLAIN'', ''success'']"
    using metrics_calls_fit by fastforce
  then show ?thesis using c by (simp add: utf8_first_def)
qed

end
