(* ===== verification/MailFlow.thy ===== *)
theory MailFlow
  imports SessionSafety Processor Metrics
begin

text \<open>
  A message on its way from the session through the queue to the worker: what the session
  acknowledges is in the queue, and what the worker records of it.
\<close>

section \<open>From the session to the queue\<close>

text \<open>
  The world of a running server as far as the session sees it: the queue, and the clock from
  which plugins, identifiers and time stamps are drawn. The session's call of \<open>Enqueue\<close> is
  answered by the queue.
\<close>

record world =
  wd_queue :: Queue
  wd_clock :: time

definition queue_backed :: "world senv \<Rightarrow> bool" where
  "queue_backed e \<longleftrightarrow> (\<forall>c m w w'. se_Enqueue e c m w = (SendOk, w') \<longrightarrow>
     (\<exists>now. (SendOk, wd_queue w') \<in> set (Enqueue now None m (wd_queue w))))"

lemma Enqueue_SendOk:
  assumes "(SendOk, q') \<in> set (Enqueue now None m q)"
  shows "\<exists>t. m\<lparr>NextAttemptAt := t\<rparr> \<in># held q'"
proof -
  have "(if IsZero (NextAttemptAt m) then m\<lparr>NextAttemptAt := now\<rparr> else m) \<in># held q'"
    using assms by (auto simp: Enqueue_def Enqueue_check_def Enqueue_select_def held_def split: if_splits)
  moreover have "m = m\<lparr>NextAttemptAt := NextAttemptAt m\<rparr>" by simp
  ultimately show ?thesis by metis
qed

lemma deliver_data_queued:
  assumes "queue_backed e" "ss_state s = StateData"
    "deliver_data e dat s w = (r, s', w')" "ss_state s' = StateMail"
  shows "\<exists>m. m \<in># held (wd_queue w') \<and> From m = ss_sender s \<and> To m = ss_recipients s \<and> Data m = dat"
proof -
  have st: "conn_free ss_state" by (simp add: conn_free_def)
  let ?msg = "\<lambda>i t. \<lparr>ID = i, From = ss_sender s, To = ss_recipients s, Data = dat, CreatedAt = t,
      RetryCount = 0, NextAttemptAt = 0\<rparr>"
  have res: "ss_state (res_session (deliver_data e dat s w)) = StateMail"
    "snd (snd (deliver_data e dat s w)) = w'" using assms by simp_all
  have "\<exists>i t w3 w4. se_Enqueue e (ss_ctx s) (?msg i t) w3 = (SendOk, w4) \<and> w' = w4"
    using res assms(2)
    by (auto simp: deliver_data_def Let_def conn_free_reply [OF st] conn_free_plugin_reply [OF st]
        split: prod.splits option.splits send_result.splits)
      (auto simp: reply_def Let_def split: prod.splits)
  then obtain i t w3 where enq: "se_Enqueue e (ss_ctx s) (?msg i t) w3 = (SendOk, w')" by blast
  obtain now where "(SendOk, wd_queue w') \<in> set (Enqueue now None (?msg i t) (wd_queue w3))"
    using assms(1) enq unfolding queue_backed_def by blast
  from Enqueue_SendOk [OF this] obtain t' where "(?msg i t)\<lparr>NextAttemptAt := t'\<rparr> \<in># held (wd_queue w')" by blast
  then show ?thesis by (intro exI [of _ "(?msg i t)\<lparr>NextAttemptAt := t'\<rparr>"]) simp
qed

text \<open>A reply writes one line with its code, or the connection is broken and nothing is written.\<close>

lemma reply_sends:
  assumes "reply e code m s w = (r, s', w')"
  shows "w' = w \<and> (sent (ss_conn s') = sent (ss_conn s) \<or>
    sent (ss_conn s') = sent (ss_conn s) @ [Itoa code @ '' '' @ m @ CRLF])"
  using assms
  by (auto simp: reply_def writeResponse_def conn_write_def sys_op_def Let_def split: prod.splits if_splits list.splits)

lemma ReadBytes_sent: "conn_ReadBytes n c = (x, c') \<Longrightarrow> sent c' = sent c"
  by (auto simp: conn_ReadBytes_def split: prod.splits)

lemma drain_sent: "sent (snd (drainUntilDataTerminator c)) = sent c"
proof (induction c rule: drainUntilDataTerminator.induct)
  case (1 c)
  obtain x c' where rd: "conn_ReadBytes sess_buffer c = (x, c')" by (cases "conn_ReadBytes sess_buffer c")
  show ?case
  proof (cases x)
    case (Some l)
    then show ?thesis using rd "1.IH" [OF rd [symmetric] Some] ReadBytes_sent [OF rd] by (auto simp: drain_step(2))
  qed (use rd ReadBytes_sent [OF rd] in \<open>simp add: drain_step(1)\<close>)
qed

lemma data_loop_sent: "sent (snd (data_loop mx buf c)) = sent c"
proof (induction mx buf c rule: data_loop.induct)
  case (1 mx buf c)
  obtain x c' where rd: "conn_ReadBytes sess_buffer c = (x, c')" by (cases "conn_ReadBytes sess_buffer c")
  show ?case
  proof (cases x)
    case (Some l)
    then show ?thesis
      using rd "1.IH" [OF rd [symmetric] Some] ReadBytes_sent [OF rd] drain_sent [of c'] by (auto simp: data_step(2))
  qed (use rd ReadBytes_sent [OF rd] in \<open>simp add: data_step(1)\<close>)
qed

lemma sys_op_sent: "sys_op c = (ok, c') \<Longrightarrow> sent c' = sent c"
  by (auto simp: sys_op_def split: list.splits)

lemma first_reject_hook:
  "first_reject hook ps w = (Some (n, err), w') \<Longrightarrow> \<exists>p \<in> set ps. \<exists>w1. fst (hook p w1) = Some err"
proof (induction ps arbitrary: w)
  case (Cons p ps)
  obtain x w1 where h: "hook p w = (x, w1)" by (cases "hook p w")
  show ?case
  proof (cases x)
    case None
    then show ?thesis using Cons h by auto
  next
    case (Some err')
    then have "fst (hook p w) = Some err" using Cons.prems h by simp
    then show ?thesis by auto
  qed
qed simp

text \<open>
  A plugin that refuses a message with an SMTP error of its own gives its code to the client. No
  plugin refuses with the code of success.
\<close>

definition refusals_refuse :: "'w senv \<Rightarrow> bool" where
  "refusals_refuse e \<longleftrightarrow> (\<forall>p \<in> set (se_plugins e). \<forall>c i m w err.
     fst (OnMessage p c i m w) = Some err \<longrightarrow> is_SmtpError err \<longrightarrow> smtp_Code err \<noteq> 250)"

text \<open>After the data, only a message that the queue took is answered with code 250.\<close>

lemma deliver_data_250:
  assumes "refusals_refuse e" "deliver_data e dat s w = (r, s', w')"
    and ack: "sent (ss_conn s') = sent (ss_conn s) @ [''250 '' @ t]"
  shows "\<exists>m w3. se_Enqueue e (ss_ctx s) m w3 = (SendOk, w') \<and> From m = ss_sender s \<and> To m = ss_recipients s \<and>
    Data m = dat \<and> ss_state s' = StateMail \<and> ss_sender s' = [] \<and> ss_recipients s' = []"
proof -
  have no: "\<not> reply e code m s1 w1 = (r, s', w')" if "code \<noteq> 250" "ss_conn s1 = ss_conn s" for code m s1 w1
    using reply_sends [of e code m s1 w1 r s' w'] reply_code_250 [of code "m @ CRLF" t] ack that by auto
  have refused: False if "first_reject (\<lambda>p. OnMessage p (ss_ctx s) (sessionInfo s) mi) (se_plugins e) w = (Some (n, err), w1)"
    "plugin_reply e err 554 d s w1 = (r, s', w')" for mi n err w1 d
    using first_reject_hook [OF that(1)] that(2) assms(1) no [of "smtp_Code err"] no [of 554]
    by (fastforce simp: plugin_reply_def refusals_refuse_def split: if_splits)
  have ok: "ss_state s' = ss_state s1 \<and> ss_sender s' = ss_sender s1 \<and> ss_recipients s' = ss_recipients s1 \<and> w' = w1"
    if "reply e 250 m s1 w1 = (r, s', w')" for m s1 w1
    using reply_frame [of e 250 m s1 w1] reply_sends [OF that] that by auto
  obtain x w1 where fr: "first_reject (\<lambda>p. OnMessage p (ss_ctx s) (sessionInfo s)
      \<lparr>mi_From = ss_sender s, mi_To = ss_recipients s, mi_Data = dat\<rparr>) (se_plugins e) w = (x, w1)" by fastforce
  have x: "x = None" using fr assms(2) refused by (cases x) (auto simp: deliver_data_def)
  obtain i w2 now w3 where dr: "se_NewString e w1 = (i, w2)" "se_Now e w2 = (now, w3)" by fastforce
  define m where "m = \<lparr>ID = i, From = ss_sender s, To = ss_recipients s, Data = dat, CreatedAt = now, RetryCount = 0, NextAttemptAt = 0\<rparr>"
  define s1 where "s1 = s\<lparr>ss_submitted := ss_submitted s @ [(m, ss_auth s)]\<rparr>"
  obtain q w4 where enq: "se_Enqueue e (ss_ctx s) m w3 = (q, w4)" by fastforce
  have rest: "(case q of SendPanic \<Rightarrow> (Panic, s1, w4)
      | SendErr _ \<Rightarrow> reply e 451 ''Internal server error: Failed to queue message'' s1 w4
      | SendOk \<Rightarrow> reply e 250 ''OK: message queued'' (resetTransactionState (s1\<lparr>ss_state := StateMail\<rparr>)) w4) = (r, s', w')"
    using assms(2) fr enq x dr by (cases q) (simp_all add: deliver_data_def m_def s1_def)
  have q: "q = SendOk" using rest no [of 451 s1] ack by (cases q) (auto simp: s1_def)
  show ?thesis using enq ok [of "''OK: message queued''" "resetTransactionState (s1\<lparr>ss_state := StateMail\<rparr>)" w4] rest
    by (intro exI [of _ m] exI [of _ w3]) (simp add: q m_def resetTransactionState_def)
qed

text \<open>
  C2: An acknowledged message is queued. When the session answers a data transfer with a reply
  of code 250 on the connection, the transfer was complete, and the queue has taken a message with
  the transaction's sender and recipients and exactly the data received; the session is back in
  the mail state with an empty transaction. A refusal of the queue or of a plugin is never
  acknowledged.
\<close>

theorem acknowledged_is_queued:
  assumes "queue_backed e" "refusals_refuse e"
    and "transfer_data e s w = (r, s', w')" "sent (ss_conn s') = sent (ss_conn s) @ [''250 '' @ t]"
  shows "\<exists>dat m. fst (data_loop (ss_maxMessageSize s) [] (ss_conn s)) = DataOk dat \<and>
    m \<in># held (wd_queue w') \<and> From m = ss_sender s \<and> To m = ss_recipients s \<and> Data m = dat \<and>
    ss_state s' = StateMail \<and> ss_sender s' = [] \<and> ss_recipients s' = []"
proof -
  obtain x c where dl: "data_loop (ss_maxMessageSize s) [] (ss_conn s) = (x, c)"
    by (cases "data_loop (ss_maxMessageSize s) [] (ss_conn s)")
  have c: "sent c = sent (ss_conn s)" using data_loop_sent [of "ss_maxMessageSize s" "[]" "ss_conn s"] by (simp add: dl)
  have big: "x \<noteq> DataTooBig"
  proof
    assume "x = DataTooBig"
    then have "reply e 552 ''Message size exceeds fixed maximum message size''
        (resetTransactionState (s\<lparr>ss_conn := c, ss_state := StateMail\<rparr>)) w = (r, s', w')"
      using assms(3) by (simp add: transfer_data_def dl)
    from reply_sends [OF this] show False
      using assms(4) c reply_code_250 [of 552 _ t] by (auto simp: resetTransactionState_def)
  qed
  obtain dat c' where x: "x = DataOk dat" and op: "sys_op c = (True, c')"
    and dd: "deliver_data e dat (s\<lparr>ss_conn := c'\<rparr>) w = (r, s', w')"
    using assms(3,4) big c sys_op_sent [of c]
    by (cases x) (auto simp: transfer_data_def dl split: prod.splits if_splits)
  obtain m w3 where enq: "se_Enqueue e (ss_ctx s) m w3 = (SendOk, w')" and
    m: "From m = ss_sender s" "To m = ss_recipients s" "Data m = dat" and
    st: "ss_state s' = StateMail" "ss_sender s' = []" "ss_recipients s' = []"
    using deliver_data_250 [OF assms(2) dd] assms(4) c sys_op_sent [OF op] by auto
  obtain now where "(SendOk, wd_queue w') \<in> set (Enqueue now None m (wd_queue w3))"
    using assms(1) enq unfolding queue_backed_def by blast
  from Enqueue_SendOk [OF this] obtain u where "m\<lparr>NextAttemptAt := u\<rparr> \<in># held (wd_queue w')" by blast
  then show ?thesis using m st dl x by (intro exI [of _ dat] exI [of _ "m\<lparr>NextAttemptAt := u\<rparr>"]) simp
qed

definition queue_env :: "world senv" where
  "queue_env = \<lparr>se_plugins = [],
     se_Enqueue = (\<lambda>_ m w. (case Enqueue (wd_clock w) None m (wd_queue w) of
        [] \<Rightarrow> (SendErr DeadlineExceeded, w)
      | (r, q) # _ \<Rightarrow> (r, w\<lparr>wd_queue := q\<rparr>))),
     se_userStore = None, se_jwtValidator = None,
     se_CreateTLS = (\<lambda>_ w. (None, w)), se_Handshake = (\<lambda>_ w. (Inr [], w)),
     se_NewString = (\<lambda>w. (''id'', w)), se_Now = (\<lambda>w. (wd_clock w, w)),
     se_ioErr = TextError ''io'', se_readErr = TextError ''EOF''\<rparr>"

definition ready_session :: "string \<Rightarrow> session" where
  "ready_session a = blank_session\<lparr>ss_state := StateData, ss_sender := a, ss_recipients := [''b@b.org'']\<rparr>"

definition fresh_world :: world where
  "fresh_world = \<lparr>wd_queue = NewQueue 1, wd_clock = 5\<rparr>"

lemma queue_env_backed: "queue_backed queue_env"
  unfolding queue_backed_def
  by (auto simp: queue_env_def split: list.splits prod.splits) (metis list.set_intros(1))

lemma ready_session_acknowledged:
  "ss_state (fst (snd (deliver_data queue_env dat (ready_session a) fresh_world))) = StateMail"
  by (simp add: deliver_data_def queue_env_def ready_session_def fresh_world_def blank_session_def Enqueue_def Enqueue_check_def
      Enqueue_select_def NewQueue_def reply_def writeResponse_def sys_op_def conn_write_def new_conn_def
      resetTransactionState_def IsZero_def)

definition data_session :: session where
  "data_session = (ready_session ''a@a.org'')\<lparr>ss_conn := new_conn [''hello'' @ CRLF @ ''.'', CRLF], ss_maxMessageSize := 100\<rparr>"

theorem acknowledged_is_queued_witness:
  "\<exists>m. m \<in># held (wd_queue (snd (snd (transfer_data queue_env data_session fresh_world)))) \<and>
     From m = ''a@a.org'' \<and> To m = [''b@b.org''] \<and> Data m = ''hello'' @ CRLF"
proof -
  let ?x = "transfer_data queue_env data_session fresh_world"
  obtain r s' w' where d: "?x = (r, s', w')" by (cases ?x)
  have dl: "fst (data_loop (ss_maxMessageSize data_session) [] (ss_conn data_session)) = DataOk (''hello'' @ CRLF)"
    by code_simp
  have "sent (ss_conn (fst (snd ?x))) = sent (ss_conn data_session) @ [''250 '' @ ''OK: message queued'' @ CRLF]"
    by code_simp
  then have ack: "sent (ss_conn s') = sent (ss_conn data_session) @ [''250 '' @ ''OK: message queued'' @ CRLF]"
    by (simp add: d)
  have pl: "refusals_refuse queue_env" by (simp add: refusals_refuse_def queue_env_def)
  have sd: "ss_sender data_session = ''a@a.org''" "ss_recipients data_session = [''b@b.org'']"
    by (simp_all add: data_session_def ready_session_def)
  from acknowledged_is_queued [OF queue_env_backed pl d ack] show ?thesis by (auto simp: d sd dl)
qed

section \<open>From the queue to the metrics\<close>

text \<open>The statuses that a pass of the worker records are calls of \<open>RecordMessageStatusByDomain\<close>.\<close>

definition status_calls :: "(string \<times> string) list \<Rightarrow> call list" where
  "status_calls st = concat (map (\<lambda>(status, domain). RecordMessageStatusByDomain status domain) st)"

text \<open>\<open>WithLabelValues\<close> of the library does not return on values that are not valid UTF-8.\<close>

definition refuses_invalid :: "(call \<Rightarrow> bool) \<Rightarrow> bool" where
  "refuses_invalid returns \<longleftrightarrow> (\<forall>c. returns c \<longrightarrow> list_all ValidString (call_values c))"

lemma Trim_angle:
  assumes "a \<noteq> []" "hd a \<notin> set cs" "last a \<notin> set cs" "x \<in> set cs" "y \<in> set cs"
  shows "Trim (x # a @ [y]) cs = a"
proof -
  obtain h t where a: "a = h # t" using assms(1) by (cases a) auto
  have "hd (rev a) \<notin> set cs" using assms(1,3) by (simp add: hd_rev)
  then have r: "dropWhile (\<lambda>c. c \<in> set cs) (rev a) = rev a" by (cases "rev a") auto
  have "dropWhile (\<lambda>c. c \<in> set cs) (x # a @ [y]) = a @ [y]" using assms(2,4) by (simp add: a)
  then show ?thesis using assms(5) r by (simp add: Trim_def)
qed

lemma path_arg_angle:
  assumes "a \<noteq> []" "hd a \<notin> set ''<>''" "last a \<notin> set ''<>''"
  shows "path_arg p (p @ ''<'' @ a @ ''>'') = a"
proof -
  have "lead_space (''<'' @ a @ ''>'') = 0" "trail_space (''<'' @ a @ ''>'') = 0"
    by (simp_all add: lead_space_def trail_space_def ascii_space_def is_ascii_def)
  then have "TrimSpace (''<'' @ a @ ''>'') = ''<'' @ a @ ''>''"
    unfolding TrimSpace_def by (metis trim_left.simps trim_right.simps)
  then show ?thesis using Trim_angle [OF assms, of "CHR ''<''" "CHR ''>''"] by (simp add: path_arg_def)
qed

lemma handleMail_accepts:
  assumes "se_plugins e = []" "ss_state s = StateMail" "isValidEmail a" "hd a \<notin> set ''<>''" "last a \<notin> set ''<>''"
    "handleMail e (''MAIL FROM:<'' @ a @ ''>'') s w = (r, s1, w1)"
  shows "ss_state s1 = StateRcpt \<and> ss_sender s1 = a"
proof -
  define raw where "raw = ''MAIL FROM:<'' @ a @ ''>''"
  have "a \<noteq> []" using assms(3) by (auto simp: isValidEmail_def)
  then have arg: "path_arg ''MAIL FROM:'' raw = a"
    using path_arg_angle [OF _ assms(4,5), of "''MAIL FROM:''"] by (simp add: raw_def)
  have pre: "HasPrefix (ToUpper raw) ''MAIL FROM:''"
    by (simp add: raw_def HasPrefix_def upc_def is_lower_def)
  have st: "conn_free ss_state" "conn_free ss_sender" by (simp_all add: conn_free_def)
  have "ss_state (res_session (handleMail e raw s w)) = StateRcpt" "ss_sender (res_session (handleMail e raw s w)) = a"
    using assms(1-3) by (simp_all add: handleMail_def arg pre Let_def conn_free_reply [OF st(1)] conn_free_reply [OF st(2)])
  then show ?thesis using assms(6) by (simp add: raw_def)
qed

text \<open>The delivery ended otherwise than by its time limit or the end of the context.\<close>

definition delivery_done :: "go_error option \<Rightarrow> bool" where
  "delivery_done res = (case res of None \<Rightarrow> True | Some e \<Rightarrow> \<not> errors_Is e Canceled \<and> \<not> errors_Is e DeadlineExceeded)"

lemma process_msg_status:
  assumes "(nx, q', st) \<in> set (process_msg ie m q)" "NextAttemptAt m \<le> ie_now ie" "delivery_done (ie_deliver ie m)"
  shows "\<exists>status. st = [(status, From m)]"
  using assms
  by (auto simp: process_msg_def after_delivery_def delivery_done_def split: option.splits if_splits prod.splits)

text \<open>
  C34: One message can stop the program. Without plugins, the session accepts a sender address
  that is not valid UTF-8. When a transaction with this sender is acknowledged, the queue holds a
  message with it, and every worker that has delivered the message, or failed to, records its
  status with the sender as a label value. The Prometheus library panics on such a value, and no
  worker recovers from a panic.
\<close>

theorem invalid_sender_panics:
  assumes "refuses_invalid returns" "\<not> ValidString a" "isValidEmail a" "hd a \<notin> set ''<>''" "last a \<notin> set ''<>''"
    and mail: "se_plugins e = []" "ss_state s = StateMail" "handleMail e (''MAIL FROM:<'' @ a @ ''>'') s w = (r, s1, w1)"
    and data: "queue_backed e" "ss_state s2 = StateData" "ss_sender s2 = ss_sender s1"
      "deliver_data e dat s2 w2 = (r', s3, w3)" "ss_state s3 = StateMail"
  shows "ss_state s1 = StateRcpt \<and>
    (\<exists>m. m \<in># held (wd_queue w3) \<and> From m = a \<and>
       (\<forall>ie q nx q' st. NextAttemptAt m \<le> ie_now ie \<longrightarrow> delivery_done (ie_deliver ie m) \<longrightarrow>
          (nx, q', st) \<in> set (process_msg ie m q) \<longrightarrow> \<not> list_all returns (status_calls st)))"
proof -
  have s1: "ss_state s1 = StateRcpt" "ss_sender s1 = a"
    using handleMail_accepts [OF mail(1,2) assms(3-5) mail(3)] by simp_all
  obtain m where m: "m \<in># held (wd_queue w3)" "From m = a"
    using deliver_data_queued [OF data(1,2,4,5)] data(3) s1(2) by auto
  have "\<not> list_all returns (status_calls st)"
    if due: "NextAttemptAt m \<le> ie_now ie" "delivery_done (ie_deliver ie m)" "(nx, q', st) \<in> set (process_msg ie m q)" for ie q nx q' st
  proof -
    obtain status where "st = [(status, a)]" using process_msg_status [OF due(3,1,2)] m(2) by auto
    then show ?thesis using assms(1,2)
      by (auto simp: status_calls_def RecordMessageStatusByDomain_def refuses_invalid_def)
  qed
  then show ?thesis using s1(1) m by blast
qed

definition bad_sender :: string where
  "bad_sender = CHR 0xFF # ''@x.org''"

theorem invalid_sender_panics_witness:
  "\<exists>m. m \<in># held (wd_queue (snd (snd (deliver_data queue_env ''hello'' (ready_session bad_sender) fresh_world)))) \<and>
     From m = bad_sender \<and>
     (\<forall>ie q nx q' st. NextAttemptAt m \<le> ie_now ie \<longrightarrow> delivery_done (ie_deliver ie m) \<longrightarrow>
        (nx, q', st) \<in> set (process_msg ie m q) \<longrightarrow> \<not> list_all call_accepted (status_calls st))"
proof -
  let ?s = "blank_session\<lparr>ss_state := StateMail\<rparr>"
  have lib: "refuses_invalid call_accepted" by (simp add: refuses_invalid_def call_accepted_def)
  have bad: "\<not> ValidString bad_sender" "isValidEmail bad_sender" "hd bad_sender \<notin> set ''<>''" "last bad_sender \<notin> set ''<>''"
    by (simp_all add: bad_sender_def utf8_first_def isValidEmail_def HasPrefix_def)
  have e: "se_plugins queue_env = []" "ss_state ?s = StateMail" by (simp_all add: queue_env_def)
  obtain r s1 w1 where mail: "handleMail queue_env (''MAIL FROM:<'' @ bad_sender @ ''>'') ?s fresh_world = (r, s1, w1)"
    by (cases "handleMail queue_env (''MAIL FROM:<'' @ bad_sender @ ''>'') ?s fresh_world")
  obtain r' s3 w3 where data: "deliver_data queue_env ''hello'' (ready_session bad_sender) fresh_world = (r', s3, w3)"
    by (cases "deliver_data queue_env ''hello'' (ready_session bad_sender) fresh_world")
  have s3: "ss_state s3 = StateMail" using ready_session_acknowledged [of "''hello''" bad_sender] by (simp add: data)
  have s2: "ss_state (ready_session bad_sender) = StateData" "ss_sender (ready_session bad_sender) = ss_sender s1"
    using handleMail_accepts [OF e bad(2-4) mail] by (simp_all add: ready_session_def)
  show ?thesis using invalid_sender_panics [OF lib bad e mail queue_env_backed s2 data s3] data by simp
qed

end
