(* ===== verification/Inbound.thy ===== *)
theory Inbound
  imports NetIO
begin

text \<open>
  The inbound receiver of \<open>pkg/inbound/server.go\<close>: construction, the parsers of hosts and
  paths, the replies to errors, the session with its command loop, and the admission of
  connections in \<open>Serve\<close>. The backend, the clock, the state of the transaction's context, the
  DATA semaphore and the TLS handshake are operations on a world \<open>'w\<close>; \<open>net.ParseIP\<close> is an
  argument. Deadlines only decide when a read fails, and reads fail where the input ends.
\<close>

section \<open>Configuration\<close>

record Envelope =
  env_From :: string
  env_Recipients :: "string list"
  env_RemoteIP :: "8 word list"
  env_Helo :: string
  env_TLS :: bool

record in_config =
  ic_Hostname :: string
  ic_TLS :: bool
  ic_MaxMessageBytes :: int
  ic_MaxRecipients :: int
  ic_MaxConnections :: int
  ic_MaxData :: int
  ic_MaxConnectionsPerIP :: int
  ic_ConnectionsPerMinute :: int
  ic_MaxTrackedIPs :: int
  ic_IdleTimeout :: duration
  ic_TransactionTimeout :: duration

definition validLabel :: "string \<Rightarrow> bool" where
  "validLabel label \<longleftrightarrow> label \<noteq> [] \<and> length label \<le> 63 \<and> hd label \<noteq> CHR ''-'' \<and> last label \<noteq> CHR ''-'' \<and>
     list_all (\<lambda>c. is_alnum c \<or> c = CHR ''-'') label"

definition validHost :: "(string \<Rightarrow> 8 word list option) \<Rightarrow> string \<Rightarrow> bool" where
  "validHost parseIP s =
     (if s = [] \<or> length s > 255 then False
      else if HasPrefix s ''['' \<and> HasSuffix s '']''
      then parseIP (TrimPrefix (take (length s - 2) (drop 1 s)) ''IPv6:'') \<noteq> None
      else list_all validLabel (Split (TrimSuffix s ''.'') (CHR ''.'')))"

definition default_if_zero :: "int \<Rightarrow> int \<Rightarrow> int" where
  "default_if_zero d x = (if x = 0 then d else x)"

definition in_New :: "(string \<Rightarrow> 8 word list option) \<Rightarrow> bool \<Rightarrow> in_config \<Rightarrow> go_error + in_config" where
  "in_New parseIP hasBackend c =
     (if \<not> hasBackend \<or> \<not> validHost parseIP (ic_Hostname c)
      then Inl (TextError ''inbound: backend and valid hostname required'')
      else if ic_MaxConnectionsPerIP c < 0 \<or> ic_ConnectionsPerMinute c < 0 \<or> ic_MaxTrackedIPs c < 0 \<or>
              ic_MaxMessageBytes c < 0 \<or> ic_MaxRecipients c < 0 \<or> ic_MaxConnections c < 0 \<or> ic_MaxData c < 0 \<or>
              ic_IdleTimeout c < 0 \<or> ic_TransactionTimeout c < 0
      then Inl (TextError ''inbound: negative limit'')
      else Inr (c\<lparr>ic_MaxConnectionsPerIP := default_if_zero 10 (ic_MaxConnectionsPerIP c),
                  ic_ConnectionsPerMinute := default_if_zero 60 (ic_ConnectionsPerMinute c),
                  ic_MaxTrackedIPs := default_if_zero 10000 (ic_MaxTrackedIPs c),
                  ic_MaxMessageBytes := default_if_zero (25 * 2 ^ 20) (ic_MaxMessageBytes c),
                  ic_MaxRecipients := default_if_zero 100 (ic_MaxRecipients c),
                  ic_MaxConnections := default_if_zero 100 (ic_MaxConnections c),
                  ic_MaxData := default_if_zero 10 (ic_MaxData c),
                  ic_IdleTimeout := default_if_zero minute (ic_IdleTimeout c),
                  ic_TransactionTimeout := default_if_zero (5 * minute) (ic_TransactionTimeout c)\<rparr>))"

section \<open>Parsers and replies\<close>

definition replyError :: "go_error \<Rightarrow> string" where
  "replyError err =
     (case errors_As is_SmtpError err of
        Some e \<Rightarrow>
          if 400 \<le> smtp_Code e \<and> smtp_Code e \<le> 599 \<and> length (smtp_Message e) \<le> 400 \<and>
             HasPrefix (smtp_Message e) (Itoa (smtp_Code e) @ '' '') \<and> \<not> ContainsAny (smtp_Message e) CRLF
          then smtp_Message e else ''451 Temporary local failure''
      | None \<Rightarrow> ''451 Temporary local failure'')"

definition local_chars :: string where
  "local_chars = ''!#$%&'' @ [CHR 0x27] @ ''*+-/=?^_'' @ [CHR 0x60] @ ''{|}~.''"

definition path :: "(string \<Rightarrow> 8 word list option) \<Rightarrow> string \<Rightarrow> string \<Rightarrow> bool \<Rightarrow> string option" where
  "path parseIP arg prefix allowEmpty =
     (if \<not> HasPrefix (ToUpper arg) (prefix @ '':<'') \<or> \<not> HasSuffix arg ''>'' then None
      else
        (let v = take (length arg - 1 - (length prefix + 2)) (drop (length prefix + 2) arg) in
         if v = [] then (if allowEmpty then Some [] else None)
         else if length v > 254 \<or> length (filter (\<lambda>c. c = CHR ''@'') v) \<noteq> 1 then None
         else
           (let (a, b) = Cut v (CHR ''@'') in
            if a = [] \<or> HasPrefix a ''.'' \<or> HasSuffix a ''.'' \<or> Contains a ''..'' \<or> \<not> validHost parseIP b then None
            else if \<not> list_all (\<lambda>c. is_alnum c \<or> c \<in> set local_chars) a then None
            else Some v)))"

text \<open>\<open>mailPath\<close>: the sender, or the reply that refuses it.\<close>

definition mailPath :: "(string \<Rightarrow> 8 word list option) \<Rightarrow> string \<Rightarrow> int \<Rightarrow> string + string" where
  "mailPath parseIP arg limit =
     (case IndexByte arg (CHR ''>'') of
        None \<Rightarrow> Inl ''501 Invalid sender''
      | Some end_ \<Rightarrow>
          (case path parseIP (take (end_ + 1) arg) ''FROM'' True of
             None \<Rightarrow> Inl ''501 Invalid sender''
           | Some sender \<Rightarrow>
               (let tail = drop (end_ + 1) arg in
                if tail = [] then Inr sender
                else if \<not> HasPrefix tail '' '' then Inl ''501 Invalid MAIL parameters''
                else
                  (case Fields tail of
                     [p] \<Rightarrow>
                       if \<not> HasPrefix (ToUpper p) ''SIZE='' then Inl ''555 Unsupported MAIL parameters''
                       else
                         (let value = drop 5 p in
                          if value = [] \<or> \<not> list_all is_digit value then Inl ''501 Invalid SIZE''
                          else (case ParseUint64 value of
                                  None \<Rightarrow> Inl ''552 Declared message size exceeds limit''
                                | Some sz \<Rightarrow>
                                    if int sz > limit then Inl ''552 Declared message size exceeds limit''
                                    else Inr sender))
                   | _ \<Rightarrow> Inl ''555 Unsupported MAIL parameters''))))"

section \<open>The session\<close>

text \<open>
  Events of a session, in order: answers of the backend (the error after looking at the
  transaction's context too), replies that were sent, and the DATA semaphore.
\<close>

datatype in_event =
    EvCheck Envelope string "go_error option"
  | EvAccept Envelope string "go_error option"
  | EvReply string
  | EvAcquire
  | EvRelease

record in_session =
  is_conn :: conn
  is_env :: Envelope
  is_mail :: bool
  is_started :: time
  is_log :: "in_event list"

record 'w in_world =
  iw_parseIP :: "string \<Rightarrow> 8 word list option"
  iw_CheckRecipient :: "Envelope \<Rightarrow> string \<Rightarrow> 'w \<Rightarrow> go_error option \<times> 'w"
  iw_Accept :: "Envelope \<Rightarrow> string \<Rightarrow> 'w \<Rightarrow> go_error option \<times> 'w"
  iw_txErr :: "'w \<Rightarrow> go_error option \<times> 'w"
  iw_acquire :: "'w \<Rightarrow> bool \<times> 'w"
  iw_release :: "'w \<Rightarrow> 'w"
  iw_Now :: "'w \<Rightarrow> time \<times> 'w"
  iw_Handshake :: "string list \<Rightarrow> 'w \<Rightarrow> string list option \<times> 'w"

abbreviation in_buffer :: nat where "in_buffer \<equiv> 4096"

definition is_note :: "in_event \<Rightarrow> in_session \<Rightarrow> in_session" where
  "is_note ev s = s\<lparr>is_log := is_log s @ [ev]\<rparr>"

definition in_reset :: "in_session \<Rightarrow> in_session" where
  "in_reset s = s\<lparr>is_started := 0, is_env := (is_env s)\<lparr>env_From := [], env_Recipients := []\<rparr>, is_mail := False\<rparr>"

definition in_send :: "string \<Rightarrow> in_session \<Rightarrow> bool \<times> in_session" where
  "in_send msg s =
     (let (ok, c) = conn_write (msg @ CRLF) (is_conn s); s1 = s\<lparr>is_conn := c\<rparr>
      in (ok, if ok then is_note (EvReply msg) s1 else s1))"

definition readLine :: "nat \<Rightarrow> conn \<Rightarrow> string option \<times> conn" where
  "readLine mx c =
     (case conn_ReadSlice in_buffer c of
        (None, c') \<Rightarrow> (None, c')
      | (Some line, c') \<Rightarrow>
          if length line > mx \<or> length line < 2 \<or> line ! (length line - 2) \<noteq> CR then (None, c')
          else (Some line, c'))"

text \<open>A command answers and goes on when the answer could be sent.\<close>

definition answer :: "string \<Rightarrow> in_session \<Rightarrow> 'w \<Rightarrow> bool \<times> in_session \<times> 'w" where
  "answer msg s w = (let (ok, s') = in_send msg s in (ok, s', w))"

definition ehlo_reply :: "in_config \<Rightarrow> string \<Rightarrow> bool \<Rightarrow> string" where
  "ehlo_reply cfg cmd tls =
     (if cmd = ''EHLO''
      then ''250-'' @ ic_Hostname cfg @ CRLF @ ''250-SIZE '' @ Itoa (ic_MaxMessageBytes cfg) @
           (if ic_TLS cfg \<and> \<not> tls then CRLF @ ''250-STARTTLS'' else []) @ CRLF @ ''250 HELP''
      else ''250 '' @ ic_Hostname cfg)"

definition in_helo :: "in_config \<Rightarrow> 'w in_world \<Rightarrow> string \<Rightarrow> string \<Rightarrow> in_session \<Rightarrow> 'w \<Rightarrow> bool \<times> in_session \<times> 'w" where
  "in_helo cfg b cmd arg s w =
     (if \<not> validHost (iw_parseIP b) arg then answer ''501 Invalid greeting'' s w
      else
        (let s1 = in_reset s; s2 = s1\<lparr>is_env := (is_env s1)\<lparr>env_Helo := arg\<rparr>\<rparr>
         in answer (ehlo_reply cfg cmd (env_TLS (is_env s2))) s2 w))"

definition in_starttls :: "in_config \<Rightarrow> 'w in_world \<Rightarrow> string \<Rightarrow> in_session \<Rightarrow> 'w \<Rightarrow> bool \<times> in_session \<times> 'w" where
  "in_starttls cfg b arg s w =
     (if arg \<noteq> [] then answer ''501 Unexpected arguments'' s w
      else if \<not> ic_TLS cfg \<or> env_TLS (is_env s) \<or> env_Helo (is_env s) = [] then answer ''503 STARTTLS unavailable'' s w
      else if rd_buf (is_conn s) \<noteq> []
      then (let (_, s', w') = answer ''554 Pipelining across STARTTLS prohibited'' s w in (False, s', w'))
      else
        (let (ok, s1) = in_send ''220 Ready for TLS'' s in
         if \<not> ok then (False, s1, w)
         else
           (let s2 = in_reset s1 in
            (case iw_Handshake b (rd_in (is_conn s2)) w of
               (None, w1) \<Rightarrow> (False, s2, w1)
             | (Some chunks, w1) \<Rightarrow>
                 (True, s2\<lparr>is_conn := (is_conn s2)\<lparr>rd_buf := [], rd_in := chunks\<rparr>,
                           is_env := \<lparr>env_From = [], env_Recipients = [], env_RemoteIP = env_RemoteIP (is_env s2),
                                      env_Helo = [], env_TLS = True\<rparr>\<rparr>, w1)))))"

definition in_mail :: "in_config \<Rightarrow> 'w in_world \<Rightarrow> string \<Rightarrow> in_session \<Rightarrow> 'w \<Rightarrow> bool \<times> in_session \<times> 'w" where
  "in_mail cfg b arg s w =
     (if env_Helo (is_env s) = [] \<or> is_mail s then answer ''503 Bad sequence'' s w
      else (case mailPath (iw_parseIP b) arg (ic_MaxMessageBytes cfg) of
        Inl failure \<Rightarrow> answer failure s w
      | Inr from \<Rightarrow>
          (let s1 = in_reset s; (now, w1) = iw_Now b w;
               s2 = s1\<lparr>is_env := (is_env s1)\<lparr>env_From := from\<rparr>, is_mail := True, is_started := now\<rparr>;
               (ok, s3) = in_send ''250 Sender accepted'' s2
           in (ok, if ok then s3 else in_reset s3, w1))))"

definition in_rcpt :: "in_config \<Rightarrow> 'w in_world \<Rightarrow> string \<Rightarrow> in_session \<Rightarrow> 'w \<Rightarrow> bool \<times> in_session \<times> 'w" where
  "in_rcpt cfg b arg s w =
     (if \<not> is_mail s then answer ''503 MAIL required'' s w
      else (case path (iw_parseIP b) arg ''TO'' False of
        None \<Rightarrow> answer ''501 Invalid recipient or unsupported parameters'' s w
      | Some to \<Rightarrow>
          if int (length (env_Recipients (is_env s))) \<ge> ic_MaxRecipients cfg
          then answer ''452 Too many recipients'' s w
          else
            (let (err, w1) = iw_CheckRecipient b (is_env s) to w;
                 (err', w2) = (case err of None \<Rightarrow> iw_txErr b w1 | Some e \<Rightarrow> (Some e, w1));
                 s1 = is_note (EvCheck (is_env s) to err') s
             in (case err' of
                   Some e \<Rightarrow> answer (replyError e) s1 w2
                 | None \<Rightarrow>
                     answer ''250 Recipient accepted''
                       (s1\<lparr>is_env := (is_env s1)\<lparr>env_Recipients := env_Recipients (is_env s1) @ [to]\<rparr>\<rparr>) w2))))"

text \<open>The loop that reads the data; None is a failure of framing, size or reading.\<close>

definition in_terminator :: string where
  "in_terminator = ''.'' @ CRLF"

definition in_unstuff :: "string \<Rightarrow> string" where
  "in_unstuff l = (if hd l = CHR ''.'' then drop 1 l else l)"

lemma readLine_less: "readLine mx c = (Some l, c') \<Longrightarrow> length (pending c') < length (pending c)"
  using conn_ReadSlice_less [of in_buffer c l c'] by (auto simp: readLine_def split: option.splits prod.splits if_splits)

function in_data_loop :: "int \<Rightarrow> string \<Rightarrow> conn \<Rightarrow> string option \<times> conn" where
  "in_data_loop limit dat c =
     (case readLine 1001 c of
        (None, c') \<Rightarrow> (None, c')
      | (Some l, c') \<Rightarrow>
          if l = in_terminator then (Some dat, c')
          else if length (in_unstuff l) > 1000 \<or> int (length dat) + int (length (in_unstuff l)) > limit then (None, c')
          else in_data_loop limit (dat @ in_unstuff l) c')"
  by pat_completeness auto
termination
  by (relation "measure (\<lambda>(m, b, c). length (pending c))") (auto dest: readLine_less [OF sym])

declare in_data_loop.simps [simp del]

definition in_commit :: "'w in_world \<Rightarrow> string \<Rightarrow> in_session \<Rightarrow> 'w \<Rightarrow> go_error option \<times> in_session \<times> 'w" where
  "in_commit b dat s w =
     (let (err, w1) = iw_txErr b w in
      (case err of
         Some e \<Rightarrow> (Some e, s, w1)
       | None \<Rightarrow>
           (let (err2, w2) = iw_Accept b (is_env s) dat w1;
                (err3, w3) = (case err2 of None \<Rightarrow> iw_txErr b w2 | Some e \<Rightarrow> (Some e, w2))
            in (err3, is_note (EvAccept (is_env s) dat err3) s, w3))))"

definition in_data :: "in_config \<Rightarrow> 'w in_world \<Rightarrow> string \<Rightarrow> in_session \<Rightarrow> 'w \<Rightarrow> bool \<times> in_session \<times> 'w" where
  "in_data cfg b arg s w =
     (if arg \<noteq> [] then answer ''501 Unexpected arguments'' s w
      else if \<not> is_mail s \<or> env_Recipients (is_env s) = [] then answer ''503 Recipient required'' s w
      else
        (let (got, w1) = iw_acquire b w in
         if \<not> got then answer ''452 DATA capacity exceeded'' s w1
         else
           (let (ok, s2) = in_send ''354 End with <CRLF>.<CRLF>'' (is_note EvAcquire s) in
            if \<not> ok then (False, is_note EvRelease s2, iw_release b w1)
            else
              (case in_data_loop (ic_MaxMessageBytes cfg) [] (is_conn s2) of
                 (None, c) \<Rightarrow>
                   (let (_, s3) = in_send ''552 Message size or framing limit exceeded''
                                    (is_note EvRelease (s2\<lparr>is_conn := c\<rparr>))
                    in (False, s3, iw_release b w1))
               | (Some dat, c) \<Rightarrow>
                   (let (err, s3, w3) = in_commit b dat (s2\<lparr>is_conn := c\<rparr>) w1;
                        s4 = is_note EvRelease s3;
                        (ok5, s5) = in_send (case err of Some e \<Rightarrow> replyError e | None \<Rightarrow> ''250 Message accepted'') s4
                    in (ok5, if ok5 then in_reset s5 else s5, iw_release b w3))))))"

definition in_rset :: "string \<Rightarrow> in_session \<Rightarrow> 'w \<Rightarrow> bool \<times> in_session \<times> 'w" where
  "in_rset arg s w = (if arg \<noteq> [] then answer ''501 Unexpected arguments'' s w else answer ''250 Reset'' (in_reset s) w)"

text \<open>A pass of the session's loop: whether it goes on.\<close>

definition in_command :: "in_config \<Rightarrow> 'w in_world \<Rightarrow> string \<Rightarrow> in_session \<Rightarrow> 'w \<Rightarrow> bool \<times> in_session \<times> 'w" where
  "in_command cfg b line s w =
     (let cmd = ToUpper (fst (Cut line (CHR '' ''))); arg = snd (Cut line (CHR '' '')) in
      if cmd = ''EHLO'' \<or> cmd = ''HELO'' then in_helo cfg b cmd arg s w
      else if cmd = ''STARTTLS'' then in_starttls cfg b arg s w
      else if cmd = ''MAIL'' then in_mail cfg b arg s w
      else if cmd = ''RCPT'' then in_rcpt cfg b arg s w
      else if cmd = ''DATA'' then in_data cfg b arg s w
      else if cmd = ''RSET'' then in_rset arg s w
      else if cmd = ''NOOP'' then answer ''250 OK'' s w
      else if cmd = ''QUIT'' then (let (_, s', w') = answer ''221 Bye'' s w in (False, s', w'))
      else answer ''502 Command not implemented'' s w)"

definition in_once :: "in_config \<Rightarrow> 'w in_world \<Rightarrow> in_session \<Rightarrow> 'w \<Rightarrow> bool \<times> in_session \<times> 'w" where
  "in_once cfg b s w =
     (case readLine 512 (is_conn s) of
        (None, c) \<Rightarrow> (False, s\<lparr>is_conn := c\<rparr>, w)
      | (Some raw, c) \<Rightarrow> in_command cfg b (take (length raw - 2) raw) (s\<lparr>is_conn := c\<rparr>) w)"

end
