(* ===== verification/InboundProps.thy ===== *)
theory InboundProps
  imports Inbound
begin

text \<open>
  The command loop of the inbound session, that it ends, and what it guarantees: the
  acknowledgement of a message follows its durable acceptance, recipients were checked, limits
  hold, the DATA semaphore is balanced, and message framing is strict.
\<close>

section \<open>Frames\<close>

abbreviation res_sess :: "bool \<times> in_session \<times> 'w \<Rightarrow> in_session" where
  "res_sess x \<equiv> fst (snd x)"

lemma in_send_frame:
  assumes "in_send msg s = (ok, s')"
  shows "\<exists>c. rd_buf c = rd_buf (is_conn s) \<and> rd_in c = rd_in (is_conn s) \<and>
    s' = s\<lparr>is_conn := c, is_log := is_log s @ (if ok then [EvReply msg] else [])\<rparr>"
proof -
  obtain o1 c where w: "conn_write (msg @ CRLF) (is_conn s) = (o1, c)" by (cases "conn_write (msg @ CRLF) (is_conn s)")
  then have "rd_buf c = rd_buf (is_conn s)" "rd_in c = rd_in (is_conn s)"
    using conn_write_frame [of "msg @ CRLF" "is_conn s"] by simp_all
  then show ?thesis using assms w by (intro exI [of _ c]) (auto simp: in_send_def is_note_def Let_def)
qed

definition in_no_growth :: "in_session \<Rightarrow> in_session \<Rightarrow> bool" where
  "in_no_growth s s' \<longleftrightarrow> env_TLS (is_env s') = env_TLS (is_env s) \<and>
     length (pending (is_conn s')) \<le> length (pending (is_conn s))"

definition in_upgraded :: "in_session \<Rightarrow> in_session \<Rightarrow> bool" where
  "in_upgraded s s' \<longleftrightarrow> \<not> env_TLS (is_env s) \<and> env_TLS (is_env s')"

lemma in_growth_refl [simp]: "in_no_growth s s"
  by (simp add: in_no_growth_def)

lemma in_growth_fields [simp]:
  "in_no_growth s (in_reset t) = in_no_growth s t" "in_no_growth s (is_note ev t) = in_no_growth s t"
  by (simp_all add: in_no_growth_def in_reset_def is_note_def)

lemma in_growth_send: "in_send msg t = (ok, t') \<Longrightarrow> in_no_growth s t' = in_no_growth s t"
  using in_send_frame [of msg t ok t'] by (auto simp: in_no_growth_def)

lemma in_growth_send' [simp]: "in_no_growth s (snd (in_send msg t)) = in_no_growth s t"
  using in_growth_send [of msg t] by (cases "in_send msg t") auto

lemma in_growth_answer [simp]: "in_no_growth s (res_sess (answer msg t w)) = in_no_growth s t"
  by (simp add: answer_def case_prod_beta Let_def)

lemma readLine_le: "readLine mx c = (x, c') \<Longrightarrow> length (pending c') \<le> length (pending c)"
proof -
  assume rl: "readLine mx c = (x, c')"
  obtain r b ch where sl: "read_slice in_buffer (rd_buf c) (rd_in c) = (r, b, ch)"
    by (cases "read_slice in_buffer (rd_buf c) (rd_in c)")
  have "read_data r @ b @ concat ch = pending c"
    using read_slice_correct [of in_buffer "rd_buf c" "rd_in c"] sl by (simp add: read_slice_post_def)
  moreover have "rd_buf c' = b" "rd_in c' = ch"
    using rl sl by (auto simp: readLine_def conn_ReadSlice_def split: option.splits read_result.splits if_splits)
  ultimately show ?thesis by (metis le_add2 length_append)
qed

lemma in_data_loop_step:
  "readLine 1001 c = (None, c') \<Longrightarrow> in_data_loop lim dat c = (None, c')"
  "readLine 1001 c = (Some l, c') \<Longrightarrow> in_data_loop lim dat c =
     (if l = in_terminator then (Some dat, c')
      else if length (in_unstuff l) > 1000 \<or> int (length dat) + int (length (in_unstuff l)) > lim then (None, c')
      else in_data_loop lim (dat @ in_unstuff l) c')"
  by (subst in_data_loop.simps, simp)+

lemma in_data_loop_le: "in_data_loop lim dat c = (x, c') \<Longrightarrow> length (pending c') \<le> length (pending c)"
proof (induction lim dat c rule: in_data_loop.induct)
  case (1 lim dat c)
  obtain y d where rl: "readLine 1001 c = (y, d)" by (cases "readLine 1001 c")
  show ?case
  proof (cases y)
    case None
    then show ?thesis using rl "1.prems" readLine_le [OF rl] by (simp add: in_data_loop_step(1))
  next
    case (Some l)
    then show ?thesis using rl "1.prems" "1.IH" [OF rl [symmetric] Some] readLine_le [OF rl]
      by (auto simp: in_data_loop_step(2) split: if_splits)
  qed
qed

lemma in_no_growth_conn:
  "length (pending c) \<le> length (pending (is_conn t)) \<Longrightarrow> in_no_growth s t \<Longrightarrow> in_no_growth s (t\<lparr>is_conn := c\<rparr>)"
  by (auto simp: in_no_growth_def)

lemma in_no_growth_env: "env_TLS e = env_TLS (is_env t) \<Longrightarrow> in_no_growth s (t\<lparr>is_env := e\<rparr>) = in_no_growth s t"
  "in_no_growth s (t\<lparr>is_mail := m\<rparr>) = in_no_growth s t" "in_no_growth s (t\<lparr>is_started := x\<rparr>) = in_no_growth s t"
  by (simp_all add: in_no_growth_def)

lemma in_commit_session: "fst (snd (in_commit b dat s w)) = s \<or>
    (\<exists>e. fst (snd (in_commit b dat s w)) = is_note (EvAccept (is_env s) dat e) s)"
  by (auto simp: in_commit_def case_prod_beta Let_def split: option.splits)

lemma in_handlers_growth:
  "in_no_growth s (res_sess (in_helo cfg b cmd arg s w))"
  "in_no_growth s (res_sess (in_mail cfg b arg s w))"
  "in_no_growth s (res_sess (in_rcpt cfg b arg s w))"
  "in_no_growth s (res_sess (in_rset arg s w))"
proof -
  show "in_no_growth s (res_sess (in_helo cfg b cmd arg s w))"
    by (simp add: in_helo_def Let_def in_no_growth_env)
  show "in_no_growth s (res_sess (in_mail cfg b arg s w))"
    by (auto simp: in_mail_def Let_def in_no_growth_env case_prod_beta split: sum.splits)
  show "in_no_growth s (res_sess (in_rcpt cfg b arg s w))"
    by (auto simp: in_rcpt_def Let_def in_no_growth_env case_prod_beta split: option.splits)
  show "in_no_growth s (res_sess (in_rset arg s w))"
    by (simp add: in_rset_def)
qed

lemma in_data_growth: "in_no_growth s (res_sess (in_data cfg b arg s w))"
proof -
  let ?s2 = "snd (in_send ''354 End with <CRLF>.<CRLF>'' (is_note EvAcquire s))"
  obtain x c where dl: "in_data_loop (ic_MaxMessageBytes cfg) [] (is_conn ?s2) = (x, c)"
    by (cases "in_data_loop (ic_MaxMessageBytes cfg) [] (is_conn ?s2)")
  have g: "in_no_growth s (?s2\<lparr>is_conn := c\<rparr>)" using in_data_loop_le [OF dl] by (intro in_no_growth_conn) simp_all
  have commit: "in_no_growth s (fst (snd (in_commit b d (?s2\<lparr>is_conn := c\<rparr>) w1)))" for d w1
    using in_commit_session [of b d "?s2\<lparr>is_conn := c\<rparr>" w1] g by auto
  show ?thesis using g dl commit
    by (auto simp: in_data_def case_prod_beta Let_def split: option.splits)
qed

lemma in_starttls_growth:
  "in_no_growth s (res_sess (in_starttls cfg b arg s w)) \<or> in_upgraded s (res_sess (in_starttls cfg b arg s w))"
  by (auto simp: in_starttls_def case_prod_beta Let_def in_upgraded_def split: option.splits prod.splits)

lemma in_command_growth:
  "in_no_growth s (res_sess (in_command cfg b l s w)) \<or> in_upgraded s (res_sess (in_command cfg b l s w))"
  using in_starttls_growth [of s cfg b _ w]
  by (auto simp: in_command_def Let_def in_handlers_growth in_data_growth case_prod_beta)

definition in_measure :: "in_session \<Rightarrow> nat \<times> nat" where
  "in_measure s = (if env_TLS (is_env s) then 0 else 1, length (pending (is_conn s)))"

lemma in_once_less:
  assumes "in_once cfg b s w = (True, s', w')"
  shows "(in_measure s', in_measure s) \<in> less_than <*lex*> less_than"
proof -
  obtain raw c where rl: "readLine 512 (is_conn s) = (Some raw, c)"
    and cmd: "in_command cfg b (take (length raw - 2) raw) (s\<lparr>is_conn := c\<rparr>) w = (True, s', w')"
    using assms by (auto simp: in_once_def split: prod.splits option.splits)
  show ?thesis
    using readLine_less [OF rl] in_command_growth [of "s\<lparr>is_conn := c\<rparr>" cfg b "take (length raw - 2) raw" w] cmd
    by (auto simp: in_measure_def in_no_growth_def in_upgraded_def)
qed

section \<open>The loop\<close>

function in_loop :: "in_config \<Rightarrow> 'w in_world \<Rightarrow> in_session \<Rightarrow> 'w \<Rightarrow> in_session \<times> 'w" where
  "in_loop cfg b s w =
     (case in_once cfg b s w of
        (True, s', w') \<Rightarrow> in_loop cfg b s' w'
      | (False, s', w') \<Rightarrow> (s', w'))"
  by pat_completeness auto
termination
  by (relation "inv_image (less_than <*lex*> less_than) (\<lambda>(cfg, b, s, w). in_measure s)")
    (auto dest: in_once_less [OF sym])

declare in_loop.simps [simp del]

definition in_start :: "conn \<Rightarrow> 8 word list \<Rightarrow> in_session" where
  "in_start c ip = \<lparr>is_conn = c, is_env = \<lparr>env_From = [], env_Recipients = [], env_RemoteIP = ip, env_Helo = [],
     env_TLS = False\<rparr>, is_mail = False, is_started = 0, is_log = []\<rparr>"

text \<open>\<open>(*Server).session\<close>: the greeting and the loop.\<close>

definition in_session_run :: "in_config \<Rightarrow> 'w in_world \<Rightarrow> conn \<Rightarrow> 8 word list \<Rightarrow> 'w \<Rightarrow> in_session \<times> 'w" where
  "in_session_run cfg b c ip w =
     (let (ok, s) = in_send (''220 '' @ ic_Hostname cfg @ '' ESMTP'') (in_start c ip)
      in if ok then in_loop cfg b s w else (s, w))"

lemma in_loop_invariant:
  assumes "\<And>s w r s' w'. I s w \<Longrightarrow> in_once cfg b s w = (r, s', w') \<Longrightarrow> I s' w'" and "I s w"
    and "in_loop cfg b s w = (s', w')"
  shows "I s' w'"
  using assms
proof (induction cfg b s w rule: in_loop.induct)
  case (1 cfg b s w)
  obtain r t v where once: "in_once cfg b s w = (r, t, v)" by (cases "in_once cfg b s w")
  then have t: "I t v" using "1.prems" by blast
  show ?case
  proof (cases r)
    case True
    then have "in_loop cfg b t v = (s', w')" using "1.prems"(3) once by (simp add: in_loop.simps [of cfg b s w])
    then show ?thesis using "1.IH" [OF once [symmetric] _ refl _ t] True "1.prems"(1) by blast
  next
    case False
    then show ?thesis using "1.prems"(3) once t by (simp add: in_loop.simps [of cfg b s w])
  qed
qed

section \<open>The log of a session\<close>

definition ack :: in_event where
  "ack = EvReply ''250 Message accepted''"

text \<open>Every acknowledgement follows a successful acceptance, with only the semaphore in between.\<close>

definition acks_ok :: "in_event list \<Rightarrow> bool" where
  "acks_ok log \<longleftrightarrow> (\<forall>pre post. log = pre @ ack # post \<longrightarrow> (\<exists>l e d. pre = l @ [EvAccept e d None, EvRelease]))"

definition checked :: "in_event list \<Rightarrow> string set" where
  "checked log = {to. \<exists>e. EvCheck e to None \<in> set log}"

text \<open>What is handed to the backend, given the log before it.\<close>

definition accept_ok :: "in_config \<Rightarrow> in_event list \<Rightarrow> Envelope \<Rightarrow> string \<Rightarrow> bool" where
  "accept_ok cfg before e d \<longleftrightarrow> env_Recipients e \<noteq> [] \<and> set (env_Recipients e) \<subseteq> checked before \<and>
     int (length (env_Recipients e)) \<le> ic_MaxRecipients cfg \<and> int (length d) \<le> max 0 (ic_MaxMessageBytes cfg)"

definition accepts_ok :: "in_config \<Rightarrow> in_event list \<Rightarrow> bool" where
  "accepts_ok cfg log \<longleftrightarrow> (\<forall>pre e d r post. log = pre @ EvAccept e d r # post \<longrightarrow> accept_ok cfg pre e d)"

definition balance :: "in_event list \<Rightarrow> int" where
  "balance log = int (length (filter (\<lambda>x. x = EvAcquire) log)) - int (length (filter (\<lambda>x. x = EvRelease) log))"

lemma snoc_split:
  "log @ [x] = pre @ y # post \<longleftrightarrow> (post = [] \<and> pre = log \<and> x = y) \<or> (\<exists>post'. post = post' @ [x] \<and> log = pre @ y # post')"
  by (cases post rule: rev_cases) auto

lemma acks_snoc:
  "acks_ok (log @ [x]) \<longleftrightarrow> acks_ok log \<and> (x = ack \<longrightarrow> (\<exists>l e d. log = l @ [EvAccept e d None, EvRelease]))"
  unfolding acks_ok_def snoc_split by blast

lemma accepts_snoc:
  "accepts_ok cfg (log @ [x]) \<longleftrightarrow> accepts_ok cfg log \<and> (\<forall>e d r. x = EvAccept e d r \<longrightarrow> accept_ok cfg log e d)"
  unfolding accepts_ok_def snoc_split by blast

lemma balance_snoc:
  "balance (log @ [x]) = balance log + (if x = EvAcquire then 1 else if x = EvRelease then - 1 else 0)"
  by (auto simp: balance_def)

lemma checked_snoc: "checked log \<subseteq> checked (log @ [x])"
  by (auto simp: checked_def)

lemma log_Nil [simp]: "acks_ok []" "accepts_ok cfg []" "balance [] = 0"
  by (auto simp: acks_ok_def accepts_ok_def balance_def)

text \<open>The invariant of a session between two commands.\<close>

definition in_inv :: "in_config \<Rightarrow> in_session \<Rightarrow> bool" where
  "in_inv cfg s \<longleftrightarrow> acks_ok (is_log s) \<and> accepts_ok cfg (is_log s) \<and> balance (is_log s) = 0 \<and>
     set (env_Recipients (is_env s)) \<subseteq> checked (is_log s) \<and>
     (env_Recipients (is_env s) = [] \<or> int (length (env_Recipients (is_env s))) \<le> ic_MaxRecipients cfg)"

lemma in_inv_conn [simp]:
  "in_inv cfg (s\<lparr>is_conn := c\<rparr>) = in_inv cfg s" "in_inv cfg (s\<lparr>is_mail := m\<rparr>) = in_inv cfg s"
  "in_inv cfg (s\<lparr>is_started := t\<rparr>) = in_inv cfg s"
  by (simp_all add: in_inv_def)

lemma in_inv_reset: "in_inv cfg s \<Longrightarrow> in_inv cfg (in_reset s)"
  by (simp add: in_inv_def in_reset_def)

lemma in_inv_send:
  assumes "in_inv cfg s" "msg \<noteq> ''250 Message accepted''"
  shows "in_inv cfg (snd (in_send msg s))"
proof -
  obtain ok s' where sd: "in_send msg s = (ok, s')" by (cases "in_send msg s")
  have "EvReply msg \<noteq> ack" using assms(2) by (simp add: ack_def)
  then have "in_inv cfg (s\<lparr>is_conn := c, is_log := is_log s @ [EvReply msg]\<rparr>)" for c
    using assms(1) checked_snoc [of "is_log s" "EvReply msg"]
    by (simp add: in_inv_def acks_snoc accepts_snoc balance_snoc) blast
  then show ?thesis using in_send_frame [OF sd] assms(1) by (auto simp: sd)
qed

lemma in_inv_answer: "in_inv cfg s \<Longrightarrow> msg \<noteq> ''250 Message accepted'' \<Longrightarrow> in_inv cfg (res_sess (answer msg s w))"
  using in_inv_send by (simp add: answer_def case_prod_beta Let_def)

section \<open>Replies to errors\<close>

lemma replyError_not_ok: "replyError e \<noteq> ''250 '' @ m"
proof
  assume eq: "replyError e = ''250 '' @ m"
  have "\<exists>code. 400 \<le> code \<and> HasPrefix (replyError e) (Itoa code @ '' '')"
  proof (cases "replyError e = ''451 Temporary local failure''")
    case True
    have "HasPrefix ''451 Temporary local failure'' (Itoa 451 @ '' '')" by code_simp
    then show ?thesis unfolding True by (intro exI [of _ 451]) simp
  next
    case False
    then show ?thesis by (auto simp: replyError_def split: option.splits if_splits)
  qed
  then obtain code x where code: "400 \<le> code" "replyError e = (Itoa code @ '' '') @ x" using HasPrefixE by blast
  have "code = 250" by (rule reply_code_250 [of code x m]) (use code(2) eq in simp)
  then show False using code(1) by simp
qed

lemma replyError_not_ack: "replyError e \<noteq> ''250 Message accepted''"
  using replyError_not_ok [of e "''Message accepted''"] by simp

section \<open>Every command keeps the invariant\<close>

lemma mailPath_failure: "mailPath p arg lim = Inl f \<Longrightarrow> f \<noteq> ''250 Message accepted''"
  by (auto simp: mailPath_def Let_def split: option.splits if_splits list.splits)

lemma hostname_no_space:
  assumes "validHost p h" "\<not> HasPrefix h ''[''"
  shows "CHR '' '' \<notin> set h"
proof
  assume sp: "CHR '' '' \<in> set h"
  have ls: "list_all validLabel (Split (TrimSuffix h ''.'') (CHR ''.''))"
    using assms by (simp add: validHost_def split: if_splits)
  have "CHR '' '' \<in> set (TrimSuffix h ''.'')"
  proof (cases "HasSuffix h ''.''")
    case True
    then obtain t where "h = t @ ''.''" using HasSuffixE by blast
    then show ?thesis using sp by (auto simp: TrimSuffix_def HasSuffix_def)
  qed (use sp in \<open>simp add: TrimSuffix_def\<close>)
  then obtain w where "w \<in> set (Split (TrimSuffix h ''.'') (CHR ''.''))" "CHR '' '' \<in> set w"
    using Split_covers [of "CHR '' ''" "TrimSuffix h ''.''" "CHR ''.''"] by auto
  then have "is_alnum (CHR '' '') \<or> CHR '' '' = CHR ''-''" using ls by (auto simp: list_all_iff validLabel_def)
  then show False by (simp add: is_alnum_def is_lower_def is_upper_def is_digit_def)
qed

lemma ehlo_reply_not_ack:
  assumes "validHost p (ic_Hostname cfg)"
  shows "ehlo_reply cfg cmd t \<noteq> ''250 Message accepted''"
proof
  assume eq: "ehlo_reply cfg cmd t = ''250 Message accepted''"
  then have h: "ic_Hostname cfg = ''Message accepted''" by (auto simp: ehlo_reply_def split: if_splits)
  have "\<not> HasPrefix ''Message accepted'' ''[''" by (simp add: HasPrefix_def)
  then show False using hostname_no_space [OF assms] by (simp add: h)
qed

lemma in_helo_inv:
  assumes s: "in_inv cfg s" and h: "validHost p (ic_Hostname cfg)"
  shows "in_inv cfg (res_sess (in_helo cfg b cmd arg s w))"
proof -
  have "in_inv cfg ((in_reset s)\<lparr>is_env := (is_env (in_reset s))\<lparr>env_Helo := arg\<rparr>\<rparr>)"
    using in_inv_reset [OF s] by (simp add: in_inv_def)
  then show ?thesis using s ehlo_reply_not_ack [OF h]
    by (auto simp: in_helo_def Let_def intro!: in_inv_answer)
qed

lemma in_mail_inv: "in_inv cfg s \<Longrightarrow> in_inv cfg (res_sess (in_mail cfg b arg s w))"
proof -
  assume s: "in_inv cfg s"
  have "in_inv cfg ((in_reset s)\<lparr>is_env := (is_env (in_reset s))\<lparr>env_From := f\<rparr>, is_mail := m, is_started := t\<rparr>)" for f m t
    using in_inv_reset [OF s] by (simp add: in_inv_def)
  then show ?thesis using s
    by (auto simp: in_mail_def Let_def case_prod_beta split: sum.splits
        intro!: in_inv_answer in_inv_send in_inv_reset dest: mailPath_failure)
qed

lemma in_rcpt_inv: "in_inv cfg s \<Longrightarrow> in_inv cfg (res_sess (in_rcpt cfg b arg s w))"
proof -
  assume s: "in_inv cfg s"
  have note1: "in_inv cfg (is_note (EvCheck e to r) s)" for e to r
    using s checked_snoc [of "is_log s" "EvCheck e to r"]
    by (simp add: in_inv_def is_note_def acks_snoc accepts_snoc balance_snoc ack_def) blast
  have "to \<in> checked (is_log (is_note (EvCheck e to None) s))" for e to
    by (auto simp: checked_def is_note_def)
  then have "in_inv cfg ((is_note (EvCheck e to None) s)\<lparr>is_env := (is_env s)\<lparr>env_Recipients := env_Recipients (is_env s) @ [to]\<rparr>\<rparr>)"
    if "int (length (env_Recipients (is_env s))) < ic_MaxRecipients cfg" for e to
    using note1 [of e to None] that by (auto simp: in_inv_def is_note_def)
  moreover have "is_env (is_note ev s) = is_env s" for ev by (simp add: is_note_def)
  ultimately show ?thesis using s note1
    by (auto simp: in_rcpt_def Let_def case_prod_beta replyError_not_ack split: option.splits intro!: in_inv_answer)
qed

lemma in_rset_inv: "in_inv cfg s \<Longrightarrow> in_inv cfg (res_sess (in_rset arg s w))"
  by (auto simp: in_rset_def intro!: in_inv_answer in_inv_reset)

lemma in_starttls_inv: "in_inv cfg s \<Longrightarrow> in_inv cfg (res_sess (in_starttls cfg b arg s w))"
proof -
  assume s: "in_inv cfg s"
  let ?t = "in_reset (snd (in_send ''220 Ready for TLS'' s))"
  have t: "in_inv cfg ?t" using s by (intro in_inv_reset in_inv_send) auto
  then have "in_inv cfg (?t\<lparr>is_conn := c, is_env := \<lparr>env_From = [], env_Recipients = [], env_RemoteIP = i, env_Helo = h,
      env_TLS = x\<rparr>\<rparr>)" for c i h x
    by (simp add: in_inv_def)
  then show ?thesis using s t
    by (auto simp: in_starttls_def Let_def case_prod_beta split: option.splits
        intro!: in_inv_answer in_inv_send)
qed

lemma in_data_bound:
  "in_data_loop lim dat c = (Some d, c') \<Longrightarrow> int (length dat) \<le> max 0 lim \<Longrightarrow> int (length d) \<le> max 0 lim"
proof (induction lim dat c rule: in_data_loop.induct)
  case (1 lim dat c)
  obtain y c1 where rl: "readLine 1001 c = (y, c1)" by (cases "readLine 1001 c")
  show ?case
  proof (cases y)
    case None
    then show ?thesis using rl "1.prems" by (simp add: in_data_loop_step(1))
  next
    case (Some l)
    then show ?thesis using rl "1.prems" "1.IH" [OF rl [symmetric] Some]
      by (auto simp: in_data_loop_step(2) split: if_splits)
  qed
qed

text \<open>While the semaphore is held: the invariant with one acquisition more than releases.\<close>

definition in_held :: "in_config \<Rightarrow> in_session \<Rightarrow> bool" where
  "in_held cfg s \<longleftrightarrow> acks_ok (is_log s) \<and> accepts_ok cfg (is_log s) \<and> balance (is_log s) = 1 \<and>
     env_Recipients (is_env s) \<noteq> [] \<and> set (env_Recipients (is_env s)) \<subseteq> checked (is_log s) \<and>
     int (length (env_Recipients (is_env s))) \<le> ic_MaxRecipients cfg"

lemma in_held_acquire:
  "in_inv cfg s \<Longrightarrow> env_Recipients (is_env s) \<noteq> [] \<Longrightarrow> in_held cfg (is_note EvAcquire s)"
  using checked_snoc [of "is_log s" EvAcquire]
  by (auto simp: in_inv_def in_held_def is_note_def acks_snoc accepts_snoc balance_snoc ack_def)

lemma in_held_release: "in_held cfg s \<Longrightarrow> in_inv cfg (is_note EvRelease s)"
  using checked_snoc [of "is_log s" EvRelease]
  by (auto simp: in_inv_def in_held_def is_note_def acks_snoc accepts_snoc balance_snoc ack_def)

lemma in_held_send: "in_held cfg s \<Longrightarrow> in_held cfg (snd (in_send ''354 End with <CRLF>.<CRLF>'' s))"
proof -
  assume s: "in_held cfg s"
  obtain ok s' where sd: "in_send ''354 End with <CRLF>.<CRLF>'' s = (ok, s')"
    by (cases "in_send ''354 End with <CRLF>.<CRLF>'' s")
  have "in_held cfg (s\<lparr>is_conn := c, is_log := is_log s @ [EvReply ''354 End with <CRLF>.<CRLF>'']\<rparr>)" for c
    using s checked_snoc [of "is_log s" "EvReply ''354 End with <CRLF>.<CRLF>''"]
    by (auto simp: in_held_def acks_snoc accepts_snoc balance_snoc ack_def)
  moreover have "in_held cfg (s\<lparr>is_conn := c\<rparr>)" for c using s by (simp add: in_held_def)
  ultimately show ?thesis using in_send_frame [OF sd] by (auto simp: sd)
qed

lemma in_held_accept:
  assumes "in_held cfg s" "int (length d) \<le> max 0 (ic_MaxMessageBytes cfg)"
  shows "in_held cfg (is_note (EvAccept (is_env s) d r) s)"
  using assms checked_snoc [of "is_log s" "EvAccept (is_env s) d r"]
  by (auto simp: in_held_def is_note_def acks_snoc accepts_snoc balance_snoc ack_def accept_ok_def)

text \<open>The reply after the commit: an acknowledgement only when the last event was an acceptance.\<close>

lemma in_inv_ack:
  assumes "in_inv cfg (is_note EvRelease (is_note (EvAccept e d None) s))"
  shows "in_inv cfg (snd (in_send ''250 Message accepted'' (is_note EvRelease (is_note (EvAccept e d None) s))))"
proof -
  let ?t = "is_note EvRelease (is_note (EvAccept e d None) s)"
  obtain ok s' where sd: "in_send ''250 Message accepted'' ?t = (ok, s')" by (cases "in_send ''250 Message accepted'' ?t")
  have "\<exists>l e d. is_log ?t = l @ [EvAccept e d None, EvRelease]" by (simp add: is_note_def)
  then have "in_inv cfg (?t\<lparr>is_conn := c, is_log := is_log ?t @ [EvReply ''250 Message accepted'']\<rparr>)" for c
    using assms checked_snoc [of "is_log ?t" "EvReply ''250 Message accepted''"]
    unfolding in_inv_def by (simp add: acks_snoc accepts_snoc balance_snoc) blast
  then show ?thesis using in_send_frame [OF sd] assms by (auto simp: sd)
qed

lemma in_commit_inv:
  assumes "in_held cfg s" "int (length d) \<le> max 0 (ic_MaxMessageBytes cfg)" "in_commit b d s w = (err, s', w')"
  shows "in_inv cfg (snd (in_send (case err of Some e \<Rightarrow> replyError e | None \<Rightarrow> ''250 Message accepted'')
           (is_note EvRelease s')))"
proof (cases err)
  case None
  then have "s' = is_note (EvAccept (is_env s) d None) s"
    using assms(3) by (auto simp: in_commit_def case_prod_beta Let_def split: option.splits)
  then show ?thesis using None in_inv_ack in_held_release in_held_accept [OF assms(1,2)] by simp
next
  case (Some e)
  have "in_held cfg s'"
    using in_commit_session [of b d s w] in_held_accept [OF assms(1,2)] assms(1,3) by auto
  then show ?thesis using Some by (auto intro!: in_inv_send in_held_release simp: replyError_not_ack)
qed

lemma in_data_inv: "in_inv cfg s \<Longrightarrow> in_inv cfg (res_sess (in_data cfg b arg s w))"
proof -
  assume s: "in_inv cfg s"
  let ?s2 = "snd (in_send ''354 End with <CRLF>.<CRLF>'' (is_note EvAcquire s))"
  obtain x c where dl: "in_data_loop (ic_MaxMessageBytes cfg) [] (is_conn ?s2) = (x, c)"
    by (cases "in_data_loop (ic_MaxMessageBytes cfg) [] (is_conn ?s2)")
  have held: "in_held cfg ?s2" "in_held cfg (?s2\<lparr>is_conn := c\<rparr>)" if "env_Recipients (is_env s) \<noteq> []"
    using in_held_send [OF in_held_acquire [OF s that]] by (simp_all add: in_held_def)
  have commit: "in_inv cfg (snd (in_send (case err of Some e \<Rightarrow> replyError e | None \<Rightarrow> ''250 Message accepted'')
           (is_note EvRelease s')))"
    if "x = Some d" "env_Recipients (is_env s) \<noteq> []" "in_commit b d (?s2\<lparr>is_conn := c\<rparr>) w1 = (err, s', w')" for d w1 err s' w'
    using in_commit_inv [OF held(2) _ that(3)] that in_data_bound [of _ "[]"] dl by simp
  show ?thesis
  proof (cases "arg \<noteq> [] \<or> \<not> is_mail s \<or> env_Recipients (is_env s) = [] \<or> \<not> fst (iw_acquire b w)")
    case True
    then show ?thesis using s by (auto simp: in_data_def case_prod_beta Let_def intro!: in_inv_answer)
  next
    case False
    then have rec: "env_Recipients (is_env s) \<noteq> []" by simp
    show ?thesis
    proof (cases x)
      case None
      then show ?thesis using False dl held [OF rec]
        by (simp add: in_data_def case_prod_beta Let_def in_inv_send in_held_release)
    next
      case (Some d)
      obtain err s3 w3 where cm: "in_commit b d (?s2\<lparr>is_conn := c\<rparr>) (snd (iw_acquire b w)) = (err, s3, w3)"
        by (cases "in_commit b d (?s2\<lparr>is_conn := c\<rparr>) (snd (iw_acquire b w))")
      show ?thesis using False dl Some held(1) [OF rec] commit [OF Some rec cm] cm
        by (simp add: in_data_def case_prod_beta Let_def in_held_release in_inv_reset)
    qed
  qed
qed

lemmas in_handler_inv = in_mail_inv in_rcpt_inv in_rset_inv in_starttls_inv in_data_inv

lemma in_command_inv:
  assumes "in_inv cfg s" "validHost p (ic_Hostname cfg)"
  shows "in_inv cfg (res_sess (in_command cfg b l s w))"
  using assms in_helo_inv [OF assms]
  by (auto simp: in_command_def Let_def case_prod_beta intro!: in_handler_inv in_inv_answer)

lemma in_once_inv:
  assumes "in_inv cfg s" "validHost p (ic_Hostname cfg)" "in_once cfg b s w = (r, s', w')"
  shows "in_inv cfg s'"
proof -
  have "in_inv cfg (res_sess (in_command cfg b l (s\<lparr>is_conn := c\<rparr>) w))" for l c
    using in_command_inv [of cfg "s\<lparr>is_conn := c\<rparr>"] assms by simp
  then have "in_inv cfg (res_sess (in_once cfg b s w))"
    using assms(1) by (auto simp: in_once_def split: prod.splits option.splits)
  then show ?thesis using assms(3) by simp
qed

lemma in_New_hostname: "in_New p hb c = Inr cfg \<Longrightarrow> validHost p (ic_Hostname cfg)"
  by (auto simp: in_New_def split: if_splits)

lemma in_session_run_inv:
  assumes "in_New p hb c = Inr cfg" "in_session_run cfg b cn ip w = (s, w')"
  shows "in_inv cfg s"
proof -
  have h: "validHost p (ic_Hostname cfg)" using in_New_hostname assms(1) by blast
  obtain ok t where g: "in_send (''220 '' @ ic_Hostname cfg @ '' ESMTP'') (in_start cn ip) = (ok, t)"
    by (cases "in_send (''220 '' @ ic_Hostname cfg @ '' ESMTP'') (in_start cn ip)")
  have "in_inv cfg (in_start cn ip)" by (simp add: in_inv_def in_start_def)
  then have t: "in_inv cfg t" using in_inv_send [of cfg "in_start cn ip" "''220 '' @ ic_Hostname cfg @ '' ESMTP''"] g by simp
  show ?thesis
  proof (cases ok)
    case True
    then have "in_loop cfg b t w = (s, w')" using assms(2) g by (simp add: in_session_run_def)
    then show ?thesis
      by (rule in_loop_invariant [of "\<lambda>s w. in_inv cfg s" cfg b t w s w', rotated 2])
        (use in_once_inv [OF _ h] t in auto)
  next
    case False
    then show ?thesis using assms(2) g t by (simp add: in_session_run_def)
  qed
qed

section \<open>Framing of the data\<close>

definition crlf_line :: "string \<Rightarrow> bool" where
  "crlf_line l \<longleftrightarrow> (\<exists>a. l = a @ CRLF \<and> LF \<notin> set a)"

lemma readLine_Some:
  assumes "readLine mx c = (Some l, c')"
  shows "pending c = l @ pending c' \<and> crlf_line l \<and> length l \<le> mx"
proof -
  have sl: "conn_ReadSlice in_buffer c = (Some l, c')" and len: "length l \<le> mx" "2 \<le> length l"
    and cr: "l ! (length l - 2) = CR"
    using assms by (auto simp: readLine_def split: prod.splits option.splits if_splits)
  have p: "pending c = l @ pending c'" "l \<noteq> []" "last l = LF" using conn_ReadSlice_Some [OF sl] by auto
  have nolf: "LF \<notin> set (butlast l)"
    using read_slice_correct [of in_buffer "rd_buf c" "rd_in c"] sl
    by (auto simp: conn_ReadSlice_def read_slice_post_def case_prod_beta Let_def split: read_result.splits)
  have "butlast l \<noteq> []" using len(2) by (cases l) auto
  moreover have "last (butlast l) = CR"
    using cr len(2) \<open>butlast l \<noteq> []\<close> by (simp add: last_conv_nth nth_butlast numeral_2_eq_2)
  ultimately have "l = butlast (butlast l) @ [CR] @ [LF]"
    using p(2,3) by (metis append_assoc append_butlast_last_id)
  moreover have "LF \<notin> set (butlast (butlast l))" using nolf in_set_butlastD by fastforce
  ultimately show ?thesis using p(1) len(1) unfolding crlf_line_def by (metis append_Cons append_Nil)
qed

lemma in_data_loop_sound:
  "in_data_loop lim dat c = (Some d, c') \<Longrightarrow>
     \<exists>ls. list_all crlf_line ls \<and> in_terminator \<notin> set ls \<and> pending c = concat ls @ in_terminator @ pending c' \<and>
          d = dat @ concat (map in_unstuff ls) \<and> list_all (\<lambda>l. length (in_unstuff l) \<le> 1000) ls"
proof (induction lim dat c rule: in_data_loop.induct)
  case (1 lim dat c)
  obtain y c1 where rl: "readLine 1001 c = (y, c1)" by (cases "readLine 1001 c")
  obtain l where y: "y = Some l" using "1.prems" rl by (cases y) (auto simp: in_data_loop_step(1))
  note rd = readLine_Some [OF rl [unfolded y]]
  show ?case
  proof (cases "l = in_terminator")
    case True
    then show ?thesis using "1.prems" rl y rd by (intro exI [of _ "[]"]) (simp add: in_data_loop_step(2))
  next
    case False
    then have more: "\<not> (length (in_unstuff l) > 1000 \<or> int (length dat) + int (length (in_unstuff l)) > lim)"
        "in_data_loop lim (dat @ in_unstuff l) c1 = (Some d, c')"
      using "1.prems" rl y by (auto simp: in_data_loop_step(2) split: if_splits)
    then obtain ls where "list_all crlf_line ls" "in_terminator \<notin> set ls"
        "pending c1 = concat ls @ in_terminator @ pending c'" "d = (dat @ in_unstuff l) @ concat (map in_unstuff ls)"
        "list_all (\<lambda>l. length (in_unstuff l) \<le> 1000) ls"
      using "1.IH" [OF rl [symmetric] y False] by blast
    then show ?thesis using rd False more(1) by (intro exI [of _ "l # ls"]) simp
  qed
qed

text \<open>A client's dot stuffing.\<close>

definition in_stuff :: "string \<Rightarrow> string" where
  "in_stuff l = (if HasPrefix l ''.'' then CHR ''.'' # l else l)"

lemma in_unstuff_stuff: "l \<noteq> [] \<Longrightarrow> in_unstuff (in_stuff l) = l"
  by (cases l) (auto simp: in_unstuff_def in_stuff_def HasPrefix_def)

lemma in_stuff_not_terminator: "in_stuff l \<noteq> in_terminator"
  by (cases l) (auto simp: in_stuff_def HasPrefix_def in_terminator_def)

lemma crlf_line_stuff: "crlf_line l \<Longrightarrow> crlf_line (in_stuff l)"
proof -
  assume "crlf_line l"
  then obtain a where a: "l = a @ CRLF" "LF \<notin> set a" by (auto simp: crlf_line_def)
  show ?thesis
  proof (cases "HasPrefix l ''.''")
    case True
    then have "in_stuff l = (CHR ''.'' # a) @ CRLF" by (simp add: in_stuff_def a)
    then show ?thesis using a(2) unfolding crlf_line_def by (intro exI [of _ "CHR ''.'' # a"]) simp
  qed (use a in \<open>auto simp: in_stuff_def crlf_line_def\<close>)
qed

lemma readLine_crlf:
  assumes "crlf_line l" "length l \<le> mx" "mx \<le> in_buffer" "pending c = l @ rest"
  shows "\<exists>c'. readLine mx c = (Some l, c') \<and> pending c' = rest"
proof -
  obtain a where a: "l = a @ CRLF" "LF \<notin> set a" using assms(1) by (auto simp: crlf_line_def)
  have "split_line ((a @ [CR]) @ LF # rest) = Some ((a @ [CR]) @ [LF], rest)"
    using a(2) by (intro split_line_intro) auto
  then have "split_line (pending c) = Some (l, rest)" by (simp add: assms(4) a(1))
  then have sl: "fst (conn_ReadSlice in_buffer c) = Some l \<and> pending (snd (conn_ReadSlice in_buffer c)) = rest"
    using conn_ReadSlice_stream assms(2,3) by (meson le_trans)
  have "l ! (length l - 2) = CR" "2 \<le> length l" by (simp_all add: a(1) nth_append)
  then show ?thesis using sl assms(2)
    by (cases "conn_ReadSlice in_buffer c") (simp add: readLine_def)
qed

lemma in_data_loop_complete:
  "list_all (\<lambda>l. crlf_line l \<and> length l \<le> 1000) ls \<Longrightarrow>
   pending c = concat (map in_stuff ls) @ in_terminator @ rest \<Longrightarrow> int (length dat + length (concat ls)) \<le> lim \<Longrightarrow>
     \<exists>c'. in_data_loop lim dat c = (Some (dat @ concat ls), c') \<and> pending c' = rest"
proof (induction ls arbitrary: dat c)
  case Nil
  have "crlf_line in_terminator" unfolding crlf_line_def by (intro exI [of _ "''.''"]) (simp add: in_terminator_def)
  then show ?case using readLine_crlf [of in_terminator 1001 c rest] Nil
    by (auto simp: in_data_loop_step(2) in_terminator_def)
next
  case (Cons l ls)
  have l: "crlf_line l" "length l \<le> 1000" "l \<noteq> []" using Cons.prems(1) by (auto simp: crlf_line_def)
  have "length (in_stuff l) \<le> 1001" using l(2) by (simp add: in_stuff_def)
  then obtain c1 where c1: "readLine 1001 c = (Some (in_stuff l), c1)"
      "pending c1 = concat (map in_stuff ls) @ in_terminator @ rest"
    using readLine_crlf [OF crlf_line_stuff [OF l(1)], of 1001 c] Cons.prems(2) by auto
  have "in_data_loop lim dat c = in_data_loop lim (dat @ l) c1"
    using c1(1) l Cons.prems(3) by (simp add: in_data_loop_step(2) in_stuff_not_terminator in_unstuff_stuff)
  then show ?case using Cons.IH [of c1 "dat @ l"] Cons.prems c1(2) by simp
qed

section \<open>Properties\<close>

text \<open>
  C5: A receiver acknowledges a message only after the backend has accepted it: in the log of
  any session of a configured receiver, every reply "250 Message accepted" comes right after a
  call of Accept that returned nil while the transaction's context was still live (only the
  release of the DATA slot lies in between), so one acceptance gives at most one acknowledgement.
\<close>

theorem ack_after_accept:
  assumes "in_New p hasBackend c = Inr cfg"
    "is_log (fst (in_session_run cfg b cn ip w)) = pre @ EvReply ''250 Message accepted'' # post"
  shows "\<exists>l e d. pre = l @ [EvAccept e d None, EvRelease]"
proof -
  obtain s w' where r: "in_session_run cfg b cn ip w = (s, w')" by (cases "in_session_run cfg b cn ip w")
  have "acks_ok (is_log s)" using in_session_run_inv [OF assms(1) r] by (simp add: in_inv_def)
  then show ?thesis using assms(2) unfolding r fst_conv acks_ok_def ack_def by blast
qed

text \<open>
  C25: Whatever the receiver hands to the backend is within limits: the envelope has at least one
  and at most the configured number of recipients, every one of them was approved by
  CheckRecipient earlier in the session, and the data is within the configured size.
\<close>

theorem accepted_within_limits:
  assumes "in_New p hasBackend c = Inr cfg"
    "is_log (fst (in_session_run cfg b cn ip w)) = pre @ EvAccept e d r # post"
  shows "env_Recipients e \<noteq> [] \<and> int (length (env_Recipients e)) \<le> ic_MaxRecipients cfg \<and>
         int (length d) \<le> max 0 (ic_MaxMessageBytes cfg) \<and>
         (\<forall>to \<in> set (env_Recipients e). \<exists>e'. EvCheck e' to None \<in> set pre)"
proof -
  obtain s w' where run: "in_session_run cfg b cn ip w = (s, w')" by (cases "in_session_run cfg b cn ip w")
  have "accepts_ok cfg (is_log s)" using in_session_run_inv [OF assms(1) run] by (simp add: in_inv_def)
  then have "accept_ok cfg pre e d" using assms(2) unfolding run fst_conv accepts_ok_def by blast
  then show ?thesis by (auto simp: accept_ok_def checked_def)
qed

text \<open>
  The DATA semaphore is balanced: however a session ends (a failed write, a read error, an
  oversized message, an error of the backend), it has released the slot as often as it took it.
\<close>

theorem data_slots_balanced:
  assumes "in_New p hasBackend c = Inr cfg"
  shows "length (filter (\<lambda>x. x = EvAcquire) (is_log (fst (in_session_run cfg b cn ip w)))) =
         length (filter (\<lambda>x. x = EvRelease) (is_log (fst (in_session_run cfg b cn ip w))))"
  using in_session_run_inv [OF assms, of b cn ip w "fst (in_session_run cfg b cn ip w)" "snd (in_session_run cfg b cn ip w)"]
  by (simp add: in_inv_def balance_def)

definition sample_cfg :: in_config where
  "sample_cfg = \<lparr>ic_Hostname = ''mx'', ic_TLS = False, ic_MaxMessageBytes = 100, ic_MaxRecipients = 1,
     ic_MaxConnections = 1, ic_MaxData = 1, ic_MaxConnectionsPerIP = 1, ic_ConnectionsPerMinute = 1,
     ic_MaxTrackedIPs = 1, ic_IdleTimeout = 1, ic_TransactionTimeout = 1\<rparr>"

definition sample_world :: "unit in_world" where
  "sample_world = \<lparr>iw_parseIP = (\<lambda>_. None), iw_CheckRecipient = (\<lambda>_ _ w. (None, w)), iw_Accept = (\<lambda>_ _ w. (None, w)),
     iw_txErr = (\<lambda>w. (None, w)), iw_acquire = (\<lambda>w. (True, w)), iw_release = (\<lambda>w. w), iw_Now = (\<lambda>w. (9, w)),
     iw_Handshake = (\<lambda>_ w. (None, w))\<rparr>"

lemma sample_New: "in_New (\<lambda>_. None) True sample_cfg = Inr sample_cfg"
  by code_simp

text \<open>A session in which a message is accepted, from its transaction on.\<close>

definition sample_client :: "string list" where
  "sample_client = [''HELO c'' @ CRLF @ ''MAIL FROM:<a@b>'' @ CRLF, ''RCPT TO:<x@mx>'' @ CRLF @ ''DATA'' @ CRLF,
     ''hi'' @ CRLF @ ''.'' @ CRLF]"

definition sample_env_rcpt :: "string list \<Rightarrow> Envelope" where
  "sample_env_rcpt rs = \<lparr>env_From = ''a@b'', env_Recipients = rs, env_RemoteIP = [], env_Helo = ''c'', env_TLS = False\<rparr>"

lemma sample_log:
  "is_log (fst (in_session_run sample_cfg sample_world (new_conn sample_client) [] ())) =
     [EvReply ''220 mx ESMTP'', EvReply ''250 mx'', EvReply ''250 Sender accepted'',
      EvCheck (sample_env_rcpt []) ''x@mx'' None, EvReply ''250 Recipient accepted'', EvAcquire,
      EvReply ''354 End with <CRLF>.<CRLF>'', EvAccept (sample_env_rcpt [''x@mx'']) (''hi'' @ CRLF) None,
      EvRelease, EvReply ''250 Message accepted'']"
  by code_simp

theorem ack_after_accept_witness:
  "\<exists>l e d. take 9 (is_log (fst (in_session_run sample_cfg sample_world (new_conn sample_client) [] ()))) =
     l @ [EvAccept e d None, EvRelease]"
proof -
  let ?log = "is_log (fst (in_session_run sample_cfg sample_world (new_conn sample_client) [] ()))"
  have "?log = take 9 ?log @ EvReply ''250 Message accepted'' # []" unfolding sample_log by simp
  from ack_after_accept [OF sample_New this] show ?thesis .
qed

theorem accepted_within_limits_witness:
  "EvAccept (sample_env_rcpt [''x@mx'']) (''hi'' @ CRLF) None \<in>
     set (is_log (fst (in_session_run sample_cfg sample_world (new_conn sample_client) [] ()))) \<and>
   (\<exists>e'. EvCheck e' ''x@mx'' None \<in>
     set (take 7 (is_log (fst (in_session_run sample_cfg sample_world (new_conn sample_client) [] ())))))"
proof -
  let ?log = "is_log (fst (in_session_run sample_cfg sample_world (new_conn sample_client) [] ()))"
  have sp: "?log = take 7 ?log @ EvAccept (sample_env_rcpt [''x@mx'']) (''hi'' @ CRLF) None # drop 8 ?log"
    unfolding sample_log by simp
  then have "EvAccept (sample_env_rcpt [''x@mx'']) (''hi'' @ CRLF) None \<in> set ?log"
    by (metis in_set_conv_decomp)
  then show ?thesis using accepted_within_limits [OF sample_New sp] by (simp add: sample_env_rcpt_def)
qed

theorem data_slots_balanced_witness:
  "EvAcquire \<in> set (is_log (fst (in_session_run sample_cfg sample_world (new_conn sample_client) [] ()))) \<and>
   length (filter (\<lambda>x. x = EvRelease) (is_log (fst (in_session_run sample_cfg sample_world (new_conn sample_client) [] ())))) = 1"
  using data_slots_balanced [OF sample_New, of sample_world "new_conn sample_client" "[]" "()"]
  unfolding sample_log by simp

text \<open>
  C8: Strict framing and the data round trip. The data of a message ends only at a line that is
  exactly dot, CR, LF and that is preceded by CRLF (or is the first line): the received lines all
  end in CRLF, contain no other line feed, and what is kept of them is the line without one
  leading dot. Conversely, lines of at most 1000 bytes that a client dot-stuffs and terminates
  are received exactly, whatever chunks they arrive in, when they are within the size limit, and
  what follows the terminator is left for the next command.
\<close>

theorem inbound_framing:
  assumes "list_all (\<lambda>l. crlf_line l \<and> length l \<le> 1000) ls"
    "pending c = concat (map in_stuff ls) @ in_terminator @ rest" "int (length (concat ls)) \<le> lim"
  shows "(\<exists>c'. in_data_loop lim [] c = (Some (concat ls), c') \<and> pending c' = rest) \<and>
     (\<forall>lim' c0 c1 d. in_data_loop lim' [] c0 = (Some d, c1) \<longrightarrow>
        (\<exists>raws. list_all crlf_line raws \<and> in_terminator \<notin> set raws \<and>
          pending c0 = concat raws @ in_terminator @ pending c1 \<and> d = concat (map in_unstuff raws)))"
  using in_data_loop_complete [OF assms(1,2), of "[]" lim] assms(3) in_data_loop_sound [of _ "[]"] by fastforce

theorem inbound_framing_witness:
  "\<exists>c'. in_data_loop 10 [] (new_conn [''..x'', CRLF @ ''.'' @ CRLF @ ''QUIT'']) = (Some (''.x'' @ CRLF), c') \<and>
     pending c' = ''QUIT''"
proof -
  have "crlf_line (''.x'' @ CRLF)" unfolding crlf_line_def by (intro exI [of _ "''.x''"]) simp
  then have l: "list_all (\<lambda>l. crlf_line l \<and> length l \<le> 1000) [''.x'' @ CRLF]" by simp
  have p: "pending (new_conn [''..x'', CRLF @ ''.'' @ CRLF @ ''QUIT'']) =
      concat (map in_stuff [''.x'' @ CRLF]) @ in_terminator @ ''QUIT''"
    by (simp add: new_conn_def in_stuff_def HasPrefix_def in_terminator_def)
  show ?thesis using inbound_framing [OF l p, of 10] by auto
qed

text \<open>
  C11: No plain text crosses an upgrade to TLS: the receiver upgrades only when nothing is
  buffered behind the STARTTLS command, and then reads only what the handshake made of the bytes
  on the socket, with the greeting and the transaction forgotten.
\<close>

theorem inbound_starttls_clean:
  assumes "in_starttls cfg b arg s w = (True, s', w')" "\<not> env_TLS (is_env s)" "env_TLS (is_env s')"
  shows "rd_buf (is_conn s) = [] \<and> ic_TLS cfg \<and> env_Helo (is_env s) \<noteq> [] \<and>
     (\<exists>chunks. iw_Handshake b (rd_in (is_conn s)) w = (Some chunks, w') \<and>
        rd_buf (is_conn s') = [] \<and> rd_in (is_conn s') = chunks) \<and>
     env_Helo (is_env s') = [] \<and> env_From (is_env s') = [] \<and> env_Recipients (is_env s') = [] \<and> \<not> is_mail s'"
proof -
  have ans: "env_TLS (is_env (res_sess (answer m s w))) = env_TLS (is_env s)" for m
    using in_send_frame [of m s] by (cases "in_send m s") (auto simp: answer_def)
  obtain ok s1 where sd: "in_send ''220 Ready for TLS'' s = (ok, s1)" by (cases "in_send ''220 Ready for TLS'' s")
  note fr = in_send_frame [OF sd]
  have c: "arg = []" "ic_TLS cfg" "env_Helo (is_env s) \<noteq> []" "rd_buf (is_conn s) = []" "ok"
    using assms ans [of "''501 Unexpected arguments''"] ans [of "''503 STARTTLS unavailable''"] sd
    by (auto simp: in_starttls_def case_prod_beta Let_def split: if_splits)
  then have "iw_Handshake b (rd_in (is_conn s)) w = (Some (rd_in (is_conn s')), w') \<and> rd_buf (is_conn s') = [] \<and>
      env_Helo (is_env s') = [] \<and> env_From (is_env s') = [] \<and> env_Recipients (is_env s') = [] \<and> \<not> is_mail s'"
    using assms sd fr
    by (auto simp: in_starttls_def in_reset_def case_prod_beta Let_def split: if_splits option.splits prod.splits)
      (metis prod.collapse)
  then show ?thesis using c by blast
qed

theorem inbound_starttls_clean_witness:
  "\<exists>s' w'. in_starttls (sample_cfg\<lparr>ic_TLS := True\<rparr>) (sample_world\<lparr>iw_Handshake := (\<lambda>_ w. (Some [''EHLO''], w))\<rparr>) []
       ((in_start (new_conn []) [])\<lparr>is_env := sample_env_rcpt [''x@mx'']\<rparr>) () = (True, s', w') \<and>
     env_Recipients (is_env s') = [] \<and> rd_in (is_conn s') = [''EHLO'']"
proof -
  let ?b = "sample_world\<lparr>iw_Handshake := (\<lambda>_ w. (Some [''EHLO''], w))\<rparr>"
  let ?s = "(in_start (new_conn []) [])\<lparr>is_env := sample_env_rcpt [''x@mx'']\<rparr>"
  obtain s' where t: "in_starttls (sample_cfg\<lparr>ic_TLS := True\<rparr>) ?b [] ?s () = (True, s', ())" "env_TLS (is_env s')"
    by (simp add: in_starttls_def sample_cfg_def sample_env_rcpt_def in_start_def new_conn_def in_send_def conn_write_def
        sys_op_def in_reset_def is_note_def)
  have "\<not> env_TLS (is_env ?s)" by (simp add: sample_env_rcpt_def)
  from inbound_starttls_clean [OF t(1) this t(2)] show ?thesis using t(1) by auto
qed

end
