(* ===== verification/RateLimit.thy ===== *)
theory RateLimit
  imports PluginAPI
begin

text \<open>
  Rate limiting and filtering: the sender limiter of \<open>pkg/plugin/ratelimit/ratelimit.go\<close> (a
  plugin), and the token bucket and connection filter of \<open>internal/security/security.go\<close>.
\<close>

section \<open>The sender limiter\<close>

record senderCount =
  sc_count :: int
  sc_startTime :: time

record RateLimiter =
  rl_limit :: int
  rl_window :: duration
  rl_counts :: "string \<rightharpoonup> senderCount"
  rl_cleanupAt :: time

definition NewRateLimiter :: "time \<Rightarrow> int \<Rightarrow> duration \<Rightarrow> RateLimiter" where
  "NewRateLimiter now limit window =
     \<lparr>rl_limit = limit, rl_window = window, rl_counts = Map.empty, rl_cleanupAt = now + window\<rparr>"

definition rl_cleanup :: "time \<Rightarrow> RateLimiter \<Rightarrow> RateLimiter" where
  "rl_cleanup now r =
     (if now < rl_cleanupAt r then r
      else r\<lparr>rl_counts := (\<lambda>s. case rl_counts r s of
                None \<Rightarrow> None
              | Some c \<Rightarrow> if time_Sub now (sc_startTime c) > rl_window r then None else Some c),
             rl_cleanupAt := now + rl_window r\<rparr>)"

definition rl_OnMailFrom :: "time \<Rightarrow> string \<Rightarrow> RateLimiter \<Rightarrow> go_error option \<times> RateLimiter" where
  "rl_OnMailFrom now from r0 =
     (let r = rl_cleanup now r0;
          set_count = (\<lambda>c. r\<lparr>rl_counts := (rl_counts r)(from \<mapsto> c)\<rparr>)
      in (case rl_counts r from of
            None \<Rightarrow> (None, set_count \<lparr>sc_count = 1, sc_startTime = now\<rparr>)
          | Some cnt \<Rightarrow>
              if time_Sub now (sc_startTime cnt) > rl_window r
              then (None, set_count \<lparr>sc_count = 1, sc_startTime = now\<rparr>)
              else if sc_count cnt \<ge> rl_limit r
              then (Some (NewError 450 ''4.7.1'' ''Rate limit exceeded''), r)
              else (None, set_count (cnt\<lparr>sc_count := sc_count cnt + 1\<rparr>))))"

text \<open>The limiter as a plugin of a world that holds it and a clock.\<close>

record rl_world =
  rw_limiter :: RateLimiter
  rw_now :: time
  rw_ticks :: "duration list"

definition rw_tick :: "rl_world \<Rightarrow> rl_world" where
  "rw_tick w = (case rw_ticks w of [] \<Rightarrow> w | d # ds \<Rightarrow> w\<lparr>rw_now := rw_now w + d, rw_ticks := ds\<rparr>)"

definition rateLimiter_plugin :: "rl_world plugin" where
  "rateLimiter_plugin = BasePlugin\<lparr>OnMailFrom := (\<lambda>_ _ from w.
     let (err, r) = rl_OnMailFrom (rw_now w) from (rw_limiter w) in (err, rw_tick (w\<lparr>rw_limiter := r\<rparr>)))\<rparr>"

subsection \<open>Bounded counters\<close>

definition counts_ok :: "RateLimiter \<Rightarrow> bool" where
  "counts_ok r \<longleftrightarrow> (\<forall>s c. rl_counts r s = Some c \<longrightarrow> 1 \<le> sc_count c \<and> sc_count c \<le> max 1 (rl_limit r))"

lemma rl_cleanup_fields [simp]:
  "rl_limit (rl_cleanup now r) = rl_limit r" "rl_window (rl_cleanup now r) = rl_window r"
  by (simp_all add: rl_cleanup_def)

lemma rl_cleanup_counts:
  "rl_counts (rl_cleanup now r) s = rl_counts r s \<or>
   rl_counts (rl_cleanup now r) s = None \<and> (\<exists>c. rl_counts r s = Some c \<and> time_Sub now (sc_startTime c) > rl_window r)"
  by (auto simp: rl_cleanup_def split: option.splits)

lemma rl_OnMailFrom_fields:
  "rl_limit (snd (rl_OnMailFrom now f r)) = rl_limit r" "rl_window (snd (rl_OnMailFrom now f r)) = rl_window r"
  by (auto simp: rl_OnMailFrom_def Let_def split: option.splits)

lemma counts_ok_OnMailFrom: "counts_ok r \<Longrightarrow> counts_ok (snd (rl_OnMailFrom now f r))"
proof -
  assume r: "counts_ok r"
  then have c: "counts_ok (rl_cleanup now r)"
    using rl_cleanup_counts [of now r] unfolding counts_ok_def by (metis option.distinct(1) rl_cleanup_fields(1))
  then show ?thesis
    unfolding counts_ok_def rl_OnMailFrom_def
    by (auto simp: Let_def split: option.splits if_splits) fastforce+
qed

interpretation rl: plugin_invariant "[rateLimiter_plugin]" "\<lambda>w. counts_ok (rw_limiter w)"
proof (unfold_locales, goal_cases)
  case (3 p w c i d)
  then have "rw_limiter (snd (OnMailFrom p c i d w)) = snd (rl_OnMailFrom (rw_now w) d (rw_limiter w))"
    by (auto simp: rateLimiter_plugin_def rw_tick_def case_prod_beta Let_def split: list.splits)
  then show ?case using 3 counts_ok_OnMailFrom by simp
qed (auto simp: rateLimiter_plugin_def)

subsection \<open>Messages in a window\<close>

text \<open>A run of the limiter over calls in time order; the accepted ones are collected.\<close>

fun rl_run :: "(time \<times> string) list \<Rightarrow> RateLimiter \<Rightarrow> (time \<times> string) list" where
  "rl_run [] r = []"
| "rl_run ((t, f) # cs) r =
     (case rl_OnMailFrom t f r of
        (None, r') \<Rightarrow> (t, f) # rl_run cs r'
      | (Some _, r') \<Rightarrow> rl_run cs r')"

definition times_of :: "string \<Rightarrow> (time \<times> string) list \<Rightarrow> time list" where
  "times_of f es = map fst (filter (\<lambda>(t, f'). f' = f) es)"

definition in_window :: "time \<Rightarrow> time \<Rightarrow> time list \<Rightarrow> nat" where
  "in_window a b ts = length (filter (\<lambda>t. a \<le> t \<and> t \<le> b) ts)"

definition from_on :: "time \<Rightarrow> time list \<Rightarrow> nat" where
  "from_on a ts = length (filter (\<lambda>t. a \<le> t) ts)"

lemma window_append [simp]:
  "in_window a b (xs @ ys) = in_window a b xs + in_window a b ys"
  "from_on a (xs @ ys) = from_on a xs + from_on a ys"
  by (simp_all add: in_window_def from_on_def)

lemma window_le: "in_window a b ts \<le> from_on a ts"
  by (induction ts) (auto simp: in_window_def from_on_def)

lemma from_on_le: "from_on a ts \<le> length ts"
  by (simp add: from_on_def)

lemma window_late: "\<forall>t \<in> set ts. b < t \<Longrightarrow> in_window a b ts = 0"
  by (auto simp: in_window_def filter_empty_conv)

lemma from_on_early: "\<forall>t \<in> set ts. t < a \<Longrightarrow> from_on a ts = 0"
  by (auto simp: from_on_def filter_empty_conv)

text \<open>
  What the limiter's entry for a sender says of the messages accepted so far, at times up to
  \<open>now\<close>: they split into those of earlier windows and those counted in the entry.
\<close>

definition entry_ok :: "nat \<Rightarrow> duration \<Rightarrow> time \<Rightarrow> senderCount option \<Rightarrow> time list \<Rightarrow> bool" where
  "entry_ok L W now c ts \<longleftrightarrow>
     (\<forall>a. in_window a (a + W) ts \<le> 2 * L) \<and> (\<forall>t \<in> set ts. t \<le> now) \<and>
     (case c of
        None \<Rightarrow> (\<forall>a. now \<le> a + W \<longrightarrow> from_on a ts \<le> L)
      | Some e \<Rightarrow> \<exists>old cur. ts = old @ cur \<and> int (length cur) = sc_count e \<and> length cur \<le> L \<and>
          sc_startTime e \<le> now \<and> (\<forall>t \<in> set old. t \<le> sc_startTime e) \<and> (\<forall>t \<in> set cur. sc_startTime e \<le> t) \<and>
          (\<forall>a. sc_startTime e \<le> a + W \<longrightarrow> from_on a old \<le> L))"

lemma entry_SomeI:
  assumes "\<And>a. in_window a (a + W) (old @ cur) \<le> 2 * L" "\<forall>t \<in> set (old @ cur). t \<le> now"
    "int (length cur) = sc_count e" "length cur \<le> L" "sc_startTime e \<le> now"
    "\<forall>t \<in> set old. t \<le> sc_startTime e" "\<forall>t \<in> set cur. sc_startTime e \<le> t"
    "\<And>a. sc_startTime e \<le> a + W \<Longrightarrow> from_on a old \<le> L"
  shows "entry_ok L W now (Some e) (old @ cur)"
  unfolding entry_ok_def option.case using assms by blast

lemma entry_SomeE:
  assumes "entry_ok L W now (Some e) ts"
  obtains old cur where "ts = old @ cur" "\<And>a. in_window a (a + W) (old @ cur) \<le> 2 * L"
    "\<forall>t \<in> set (old @ cur). t \<le> now" "int (length cur) = sc_count e" "length cur \<le> L" "sc_startTime e \<le> now"
    "\<forall>t \<in> set old. t \<le> sc_startTime e" "\<forall>t \<in> set cur. sc_startTime e \<le> t"
    "\<And>a. sc_startTime e \<le> a + W \<Longrightarrow> from_on a old \<le> L"
  using assms unfolding entry_ok_def option.case by blast

lemma entry_later:
  assumes "entry_ok L W now c ts" "now \<le> now'"
  shows "entry_ok L W now' c ts"
proof (cases c)
  case None
  have "\<forall>t \<in> set ts. t \<le> now'" using assms by (auto simp: entry_ok_def)
  moreover have "\<forall>a. now' \<le> a + W \<longrightarrow> from_on a ts \<le> L" using assms None by (auto simp: entry_ok_def)
  ultimately show ?thesis using assms(1) by (simp add: entry_ok_def None)
next
  case (Some e)
  then obtain old cur where d: "ts = old @ cur" "\<And>a. in_window a (a + W) (old @ cur) \<le> 2 * L"
    "\<forall>t \<in> set (old @ cur). t \<le> now" "int (length cur) = sc_count e" "length cur \<le> L" "sc_startTime e \<le> now"
    "\<forall>t \<in> set old. t \<le> sc_startTime e" "\<forall>t \<in> set cur. sc_startTime e \<le> t"
    "\<And>a. sc_startTime e \<le> a + W \<Longrightarrow> from_on a old \<le> L"
    using assms(1) by (auto elim: entry_SomeE)
  have "\<forall>t \<in> set (old @ cur). t \<le> now'" "sc_startTime e \<le> now'" using d(3,6) assms(2) by force+
  then show ?thesis unfolding Some d(1) by (intro entry_SomeI d)
qed

lemma entry_expires:
  assumes "entry_ok L W now (Some e) ts" "now \<le> now'" "now' - sc_startTime e > W"
  shows "entry_ok L W now' None ts"
proof -
  obtain old cur where ts: "ts = old @ cur" "length cur \<le> L" "\<forall>t \<in> set old. t \<le> sc_startTime e"
    using assms(1) by (auto simp: entry_ok_def)
  have "from_on a ts \<le> L" if "now' \<le> a + W" for a
  proof -
    have "from_on a old = 0" using ts(3) that assms(3) by (intro from_on_early) auto
    then show ?thesis using ts from_on_le [of a cur] by simp
  qed
  moreover have "\<forall>t \<in> set ts. t \<le> now'" using assms(1,2) by (auto simp: entry_ok_def)
  ultimately show ?thesis using assms(1) by (simp add: entry_ok_def)
qed

lemma entry_new_window:
  assumes "entry_ok L W now None ts" "now \<le> now'" "0 < L"
  shows "entry_ok L W now' (Some \<lparr>sc_count = 1, sc_startTime = now'\<rparr>) (ts @ [now'])"
proof (rule entry_SomeI)
  fix a
  show "in_window a (a + W) (ts @ [now']) \<le> 2 * L"
  proof (cases "now' \<le> a + W")
    case True
    then have "from_on a ts \<le> L" using assms by (auto simp: entry_ok_def)
    then show ?thesis using window_le [of a "a + W" ts] assms(3) by (auto simp: in_window_def)
  next
    case False
    then have "in_window a (a + W) [now'] = 0" by (simp add: in_window_def)
    then show ?thesis using assms(1) by (simp add: entry_ok_def)
  qed
qed (use assms in \<open>auto simp: entry_ok_def\<close>)

lemma entry_open:
  assumes "entry_ok L W now None ts" "now \<le> now'"
  shows "entry_ok L W now' (Some \<lparr>sc_count = 0, sc_startTime = now'\<rparr>) ts"
proof -
  have "entry_ok L W now' (Some \<lparr>sc_count = 0, sc_startTime = now'\<rparr>) (ts @ [])"
    by (rule entry_SomeI) (use assms in \<open>auto simp: entry_ok_def\<close>)
  then show ?thesis by simp
qed

lemma entry_count:
  assumes "entry_ok L W now (Some e) ts" "now \<le> now'" "sc_count e < int L"
  shows "entry_ok L W now' (Some (e\<lparr>sc_count := sc_count e + 1\<rparr>)) (ts @ [now'])"
proof -
  obtain old cur where d: "ts = old @ cur" "\<And>a. in_window a (a + W) (old @ cur) \<le> 2 * L"
    "\<forall>t \<in> set (old @ cur). t \<le> now" "int (length cur) = sc_count e" "length cur \<le> L" "sc_startTime e \<le> now"
    "\<forall>t \<in> set old. t \<le> sc_startTime e" "\<forall>t \<in> set cur. sc_startTime e \<le> t"
    "\<And>a. sc_startTime e \<le> a + W \<Longrightarrow> from_on a old \<le> L"
    using assms(1) by (auto elim: entry_SomeE)
  have len: "length (cur @ [now']) \<le> L" using d(4) assms(3) by simp
  have win: "in_window a (a + W) (old @ (cur @ [now'])) \<le> 2 * L" for a
  proof (cases "sc_startTime e \<le> a + W")
    case True
    then have "in_window a (a + W) old \<le> L" using d(9) window_le [of a "a + W" old] by (meson le_trans)
    moreover have "in_window a (a + W) (cur @ [now']) \<le> L"
      using len window_le [of a "a + W" "cur @ [now']"] from_on_le [of a "cur @ [now']"] by linarith
    ultimately show ?thesis by (simp only: window_append)
  next
    case False
    then have "in_window a (a + W) [now'] = 0" using d(6) assms(2) by (simp add: in_window_def)
    then show ?thesis using d(2) [of a] by simp
  qed
  have "\<forall>t \<in> set (old @ (cur @ [now'])). t \<le> now'" using d(3) assms(2) by force
  then have "entry_ok L W now' (Some (e\<lparr>sc_count := sc_count e + 1\<rparr>)) (old @ (cur @ [now']))"
    using d len assms(2) by (intro entry_SomeI win) auto
  then show ?thesis by (simp add: d(1))
qed

definition limiter_ok :: "int \<Rightarrow> duration \<Rightarrow> time \<Rightarrow> RateLimiter \<Rightarrow> (time \<times> string) list \<Rightarrow> bool" where
  "limiter_ok lim W now r es \<longleftrightarrow> rl_limit r = lim \<and> rl_window r = W \<and>
     (\<forall>f. entry_ok (nat (max 1 lim)) W now (rl_counts r f) (times_of f es))"

lemma time_Sub_greater: "0 \<le> W \<Longrightarrow> W < 2 ^ 63 - 1 \<Longrightarrow> time_Sub t u > W \<longleftrightarrow> t - u > W"
  by (auto simp: time_Sub_def)

lemma limiter_cleanup:
  assumes "limiter_ok lim W now r es" "now \<le> t" "0 \<le> W" "W < 2 ^ 63 - 1"
  shows "limiter_ok lim W t (rl_cleanup t r) es"
proof -
  have "entry_ok (nat (max 1 lim)) W t (rl_counts (rl_cleanup t r) f) (times_of f es)" for f
  proof -
    have e: "entry_ok (nat (max 1 lim)) W now (rl_counts r f) (times_of f es)"
      and w: "rl_window r = W" using assms(1) by (auto simp: limiter_ok_def)
    show ?thesis using rl_cleanup_counts [of t r f] entry_later [OF e assms(2)] entry_expires [of _ W now _ _ t] e assms
      by (auto simp: w time_Sub_greater)
  qed
  then show ?thesis using assms(1) by (simp add: limiter_ok_def)
qed

lemma times_of_snoc [simp]: "times_of f (es @ [(t, g)]) = times_of f es @ (if g = f then [t] else [])"
  by (simp add: times_of_def)

lemma limiter_step:
  assumes "limiter_ok lim W now r es" "now \<le> t" "0 \<le> W" "W < 2 ^ 63 - 1" "rl_OnMailFrom t f r = (x, r')"
  shows "limiter_ok lim W t r' (if x = None then es @ [(t, f)] else es)"
proof -
  let ?r = "rl_cleanup t r"
  have ok: "limiter_ok lim W t ?r es" using limiter_cleanup assms by blast
  have ent: "entry_ok (nat (max 1 lim)) W t (rl_counts ?r g) (times_of g es)" for g
    using ok by (auto simp: limiter_ok_def)
  have par: "rl_limit ?r = lim" "rl_window ?r = W" using ok by (auto simp: limiter_ok_def)
  have new: "limiter_ok lim W t (?r\<lparr>rl_counts := (rl_counts ?r)(f \<mapsto> c)\<rparr>) (es @ [(t, f)])"
    if "entry_ok (nat (max 1 lim)) W t (Some c) (times_of f es @ [t])" for c
    using that ent par by (simp add: limiter_ok_def)
  show ?thesis
  proof (cases "rl_counts ?r f")
    case None
    then have "x = None" "r' = ?r\<lparr>rl_counts := (rl_counts ?r)(f \<mapsto> \<lparr>sc_count = 1, sc_startTime = t\<rparr>)\<rparr>"
      using assms(5) by (simp_all add: rl_OnMailFrom_def Let_def)
    then show ?thesis using new entry_new_window [of _ W t "times_of f es" t] ent [of f] None by simp
  next
    case (Some c)
    have exp: "entry_ok (nat (max 1 lim)) W t None (times_of f es)" if "W < time_Sub t (sc_startTime c)"
      using entry_expires [of _ W t c _ t] ent [of f] Some that assms(3,4) time_Sub_greater by simp
    have cnt: "entry_ok (nat (max 1 lim)) W t (Some (c\<lparr>sc_count := sc_count c + 1\<rparr>)) (times_of f es @ [t])"
      if "sc_count c < lim"
      using entry_count [of "nat (max 1 lim)" W t c "times_of f es" t] ent [of f] Some that by (simp add: max_def)
    show ?thesis
      using assms(5) Some ok new [OF entry_new_window [OF exp]] new [OF cnt] par
      by (auto simp: rl_OnMailFrom_def Let_def split: if_splits)
  qed
qed

lemma rl_run_ok:
  "limiter_ok lim W now r es \<Longrightarrow> 0 \<le> W \<Longrightarrow> W < 2 ^ 63 - 1 \<Longrightarrow> sorted (map fst cs) \<Longrightarrow>
   \<forall>c \<in> set cs. now \<le> fst c \<Longrightarrow> in_window a (a + W) (times_of f (es @ rl_run cs r)) \<le> 2 * nat (max 1 lim)"
proof (induction cs arbitrary: now r es)
  case Nil
  then show ?case by (simp add: limiter_ok_def entry_ok_def)
next
  case (Cons c cs)
  obtain t g where c: "c = (t, g)" by (cases c)
  obtain x r' where st: "rl_OnMailFrom t g r = (x, r')" by (cases "rl_OnMailFrom t g r")
  have ok: "limiter_ok lim W t r' (if x = None then es @ [(t, g)] else es)"
    using limiter_step [OF Cons.prems(1) _ Cons.prems(2,3) st] Cons.prems(5) c by simp
  show ?case using Cons.IH [OF ok Cons.prems(2,3)] Cons.prems(4) c st by (cases x) auto
qed

section \<open>The token bucket\<close>

text \<open>
  \<open>RateLimiter\<close> of \<open>internal/security\<close>. The number of tokens earned is a product of floating
  point numbers truncated to an integer; it is the argument \<open>earned\<close> of elapsed time and rate.
  The sum with the tokens at hand is far from the bounds of an int and is taken without them.
\<close>

record TokenBucket =
  tb_rate :: int
  tb_burst :: int
  tb_tokens :: int
  tb_lastUpdate :: time

definition NewTokenBucket :: "time \<Rightarrow> int \<Rightarrow> int \<Rightarrow> TokenBucket" where
  "NewTokenBucket now rate burst = \<lparr>tb_rate = rate, tb_burst = burst, tb_tokens = burst, tb_lastUpdate = now\<rparr>"

definition tb_Allow :: "(duration \<Rightarrow> int \<Rightarrow> int) \<Rightarrow> time \<Rightarrow> TokenBucket \<Rightarrow> bool \<times> TokenBucket" where
  "tb_Allow earned now rl =
     (let tokensToAdd = earned (time_Sub now (tb_lastUpdate rl)) (tb_rate rl);
          rl1 = (if tokensToAdd > 0
                 then rl\<lparr>tb_tokens := min (tb_tokens rl + tokensToAdd) (tb_burst rl), tb_lastUpdate := now\<rparr> else rl)
      in if tb_tokens rl1 > 0 then (True, rl1\<lparr>tb_tokens := tb_tokens rl1 - 1\<rparr>) else (False, rl1))"

text \<open>Requests over time: how many were allowed.\<close>

fun tb_run :: "(duration \<Rightarrow> int \<Rightarrow> int) \<Rightarrow> time list \<Rightarrow> TokenBucket \<Rightarrow> int \<times> TokenBucket" where
  "tb_run earned [] rl = (0, rl)"
| "tb_run earned (t # ts) rl =
     (let (ok, rl') = tb_Allow earned t rl; (n, rl'') = tb_run earned ts rl'
      in ((if ok then 1 else 0) + n, rl''))"

text \<open>
  What the floating point product is taken to be: for time that has passed it exceeds the exact
  number of tokens, time in minutes times the rate, at most by the factor of its rounding. The
  expression rounds four times (the part of a minute, the sum, the rate and the product), each by
  a factor of at most 1 + 2^-53, which is less than 1 + 2^-50 in all, and truncates.
\<close>

definition rounds_well :: "(duration \<Rightarrow> int \<Rightarrow> int) \<Rightarrow> int \<Rightarrow> bool" where
  "rounds_well earned rate \<longleftrightarrow> (\<forall>d \<ge> 0. earned d rate * (minute * 2 ^ 50) \<le> d * (rate * (2 ^ 50 + 1)))"

text \<open>A request pays for what it takes with the time by which it moves \<open>lastUpdate\<close> on.\<close>

definition tb_ok :: "time \<Rightarrow> TokenBucket \<Rightarrow> bool" where
  "tb_ok t rl \<longleftrightarrow> 0 \<le> tb_rate rl \<and> 0 \<le> tb_tokens rl \<and> tb_tokens rl \<le> tb_burst rl \<and> tb_lastUpdate rl \<le> t"

lemma minute_div_le: "(d :: int) div minute * minute \<le> d"
  by (simp add: div_mod_decomp_int)

lemma tb_earned_le:
  assumes "\<forall>d \<ge> 0. earned d rate * M \<le> d * K" "0 \<le> K" "u \<le> t"
  shows "earned (time_Sub t u) rate * M \<le> (t - u) * K"
proof -
  have d: "0 \<le> time_Sub t u" "time_Sub t u \<le> t - u" using assms(3) by (auto simp: time_Sub_def)
  have "earned (time_Sub t u) rate * M \<le> time_Sub t u * K" using assms(1) d(1) by blast
  also have "\<dots> \<le> (t - u) * K" using d(2) assms(2) by (rule mult_right_mono)
  finally show ?thesis .
qed

lemma tb_Allow_facts:
  assumes ok: "tb_ok t rl" and r: "\<forall>d \<ge> 0. earned d (tb_rate rl) * M \<le> d * K" "0 \<le> M" "0 \<le> K"
    and a: "tb_Allow earned t rl = (b, rl')"
  shows "tb_ok t rl' \<and> tb_burst rl' = tb_burst rl \<and> tb_rate rl' = tb_rate rl \<and>
    ((if b then 1 else 0) + tb_tokens rl') * M \<le> tb_tokens rl * M + (tb_lastUpdate rl' - tb_lastUpdate rl) * K"
proof -
  define e where "e = earned (time_Sub t (tb_lastUpdate rl)) (tb_rate rl)"
  define x where "x = (if b then 1 else 0) + tb_tokens rl'"
  have e: "e * M \<le> (t - tb_lastUpdate rl) * K" using tb_earned_le [of earned "tb_rate rl" M K "tb_lastUpdate rl" t] r ok by (simp add: tb_ok_def e_def)
  have x: "x \<le> tb_tokens rl + max 0 e" and u: "tb_lastUpdate rl' = (if e > 0 then t else tb_lastUpdate rl)"
    using a ok by (auto simp: tb_Allow_def tb_ok_def Let_def e_def x_def split: if_splits)
  have "x * M \<le> tb_tokens rl * M + max 0 e * M" using mult_right_mono [OF x r(2)] by (simp add: distrib_right)
  also have "\<dots> \<le> tb_tokens rl * M + (tb_lastUpdate rl' - tb_lastUpdate rl) * K" using e u by simp
  finally show ?thesis using a ok unfolding x_def
    by (auto simp: tb_Allow_def tb_ok_def Let_def split: if_splits)
qed

lemma tb_run_bound:
  "tb_run earned ts rl = (n, rl') \<Longrightarrow> tb_ok (hd (ts @ [tn])) rl \<Longrightarrow> \<forall>d \<ge> 0. earned d (tb_rate rl) * M \<le> d * K \<Longrightarrow>
     0 \<le> M \<Longrightarrow> 0 \<le> K \<Longrightarrow> sorted (ts @ [tn]) \<Longrightarrow>
     tb_ok tn rl' \<and> tb_burst rl' = tb_burst rl \<and>
     (n + tb_tokens rl') * M \<le> tb_tokens rl * M + (tb_lastUpdate rl' - tb_lastUpdate rl) * K"
proof (induction ts arbitrary: rl n)
  case (Cons t ts)
  obtain b rl1 where a: "tb_Allow earned t rl = (b, rl1)" by (cases "tb_Allow earned t rl")
  obtain n1 where r: "tb_run earned ts rl1 = (n1, rl')" and n: "n = (if b then 1 else 0) + n1"
    using Cons.prems(1) a by (auto simp: Let_def split: prod.splits)
  have ok: "tb_ok t rl" using Cons.prems(2) by simp
  note f = tb_Allow_facts [OF ok Cons.prems(3-5) a]
  have "t \<le> hd (ts @ [tn])" using Cons.prems(6) by (cases ts) auto
  then have "tb_ok (hd (ts @ [tn])) rl1" using f by (auto simp: tb_ok_def)
  from Cons.IH [OF r this] have "tb_ok tn rl' \<and> tb_burst rl' = tb_burst rl1 \<and>
     (n1 + tb_tokens rl') * M \<le> tb_tokens rl1 * M + (tb_lastUpdate rl' - tb_lastUpdate rl1) * K"
    using f Cons.prems(3-6) by simp
  then show ?case using f n by (simp add: algebra_simps)
qed simp

section \<open>The connection filter\<close>

text \<open>
  Networks are an address and a mask; an IPv4 address may be written in 16 bytes. The parsers of
  package net (\<open>ParseCIDR\<close>, \<open>SplitHostPort\<close>, \<open>ParseIP\<close>) are arguments.
\<close>

record IPNet =
  ipn_IP :: "8 word list"
  ipn_Mask :: "8 word list"

definition To4 :: "8 word list \<Rightarrow> 8 word list option" where
  "To4 ip = (if length ip = 4 then Some ip
     else if length ip = 16 \<and> take 10 ip = replicate 10 0 \<and> take 2 (drop 10 ip) = [0xFF, 0xFF] then Some (drop 12 ip)
     else None)"

text \<open>
  \<open>IPNet.Contains\<close>, with \<open>networkNumberAndMask\<close>: a 16-byte mask is cut to its last four bytes for
  an IPv4 network; an IPv4 address is compared in four bytes.
\<close>

definition network_mask :: "IPNet \<Rightarrow> (8 word list \<times> 8 word list) option" where
  "network_mask n =
     (case (case To4 (ipn_IP n) of Some ip \<Rightarrow> Some ip | None \<Rightarrow> if length (ipn_IP n) = 16 then Some (ipn_IP n) else None) of
        None \<Rightarrow> None
      | Some ip \<Rightarrow>
          if length (ipn_Mask n) = 4 then (if length ip = 4 then Some (ip, ipn_Mask n) else None)
          else if length (ipn_Mask n) = 16
          then Some (ip, if length ip = 4 then drop 12 (ipn_Mask n) else ipn_Mask n)
          else None)"

definition ipnet_Contains :: "IPNet \<Rightarrow> 8 word list \<Rightarrow> bool" where
  "ipnet_Contains n ip =
     (case network_mask n of
        None \<Rightarrow> False
      | Some (nn, m) \<Rightarrow>
          (let x = (case To4 ip of Some v \<Rightarrow> v | None \<Rightarrow> ip)
           in length x = length nn \<and> list_all (\<lambda>((a, b), c). and a c = and b c) (zip (zip nn x) m)))"

record ConnectionFilter =
  cf_allowedIPs :: "IPNet list"
  cf_blockedIPs :: "IPNet list"
  cf_allowedDomains :: "string list"
  cf_blockedDomains :: "string list"

text \<open>The loop that parses a list of networks stops at the first error.\<close>

fun parse_nets :: "(string \<Rightarrow> go_error + IPNet) \<Rightarrow> string \<Rightarrow> string list \<Rightarrow> go_error + IPNet list" where
  "parse_nets parseCIDR what [] = Inr []"
| "parse_nets parseCIDR what (s # ss) =
     (case parseCIDR s of
        Inl err \<Rightarrow> Inl (Wrapped (''invalid '' @ what @ '' IP: '') err [])
      | Inr n \<Rightarrow> (case parse_nets parseCIDR what ss of Inl err \<Rightarrow> Inl err | Inr ns \<Rightarrow> Inr (n # ns)))"

definition make_filter ::
  "(string \<Rightarrow> go_error + IPNet) \<Rightarrow> string list \<Rightarrow> string list \<Rightarrow> string list \<Rightarrow> string list \<Rightarrow> go_error + ConnectionFilter" where
  "make_filter parseCIDR allowedIPs blockedIPs allowedDomains blockedDomains =
     (case parse_nets parseCIDR ''allowed'' allowedIPs of
        Inl err \<Rightarrow> Inl err
      | Inr as \<Rightarrow>
          (case parse_nets parseCIDR ''blocked'' blockedIPs of
             Inl err \<Rightarrow> Inl err
           | Inr bs \<Rightarrow> Inr \<lparr>cf_allowedIPs = as, cf_blockedIPs = bs,
                            cf_allowedDomains = allowedDomains, cf_blockedDomains = blockedDomains\<rparr>))"

definition NewConnectionFilter where
  "NewConnectionFilter parseCIDR allowedIPs blockedIPs allowedDomains blockedDomains =
     make_filter parseCIDR allowedIPs blockedIPs allowedDomains blockedDomains"

definition AllowConnection ::
  "(string \<Rightarrow> go_error + string) \<Rightarrow> (string \<Rightarrow> 8 word list option) \<Rightarrow> ConnectionFilter \<Rightarrow> net_addr \<Rightarrow> bool" where
  "AllowConnection splitHost parseIP f addr =
     (case splitHost (addr_String addr) of
        Inl _ \<Rightarrow> False
      | Inr host \<Rightarrow>
          (case parseIP host of
             None \<Rightarrow> False
           | Some ip \<Rightarrow>
               if list_ex (\<lambda>n. ipnet_Contains n ip) (cf_blockedIPs f) then False
               else if cf_allowedIPs f \<noteq> [] then list_ex (\<lambda>n. ipnet_Contains n ip) (cf_allowedIPs f)
               else True))"

definition AllowDomain :: "ConnectionFilter \<Rightarrow> string \<Rightarrow> bool" where
  "AllowDomain f domain =
     (if domain \<in> set (cf_blockedDomains f) then False
      else if cf_allowedDomains f \<noteq> [] then domain \<in> set (cf_allowedDomains f)
      else True)"

definition UpdateFilters ::
  "(string \<Rightarrow> go_error + IPNet) \<Rightarrow> string list \<Rightarrow> string list \<Rightarrow> string list \<Rightarrow> string list \<Rightarrow> ConnectionFilter
     \<Rightarrow> go_error option \<times> ConnectionFilter" where
  "UpdateFilters parseCIDR allowedIPs blockedIPs allowedDomains blockedDomains f =
     (case make_filter parseCIDR allowedIPs blockedIPs allowedDomains blockedDomains of
        Inl err \<Rightarrow> (Some err, f)
      | Inr g \<Rightarrow> (None, g))"

text \<open>A network always contains its own address.\<close>

lemma ipnet_Contains_self:
  assumes "length (ipn_IP n) = 4" "length (ipn_Mask n) = 4"
  shows "ipnet_Contains n (ipn_IP n)"
proof -
  have "list_all (\<lambda>((a, b), c). and a c = and b c) (zip (zip ip ip) m)" for ip m :: "8 word list"
    by (induction ip arbitrary: m) (auto simp: zip_Cons1 split: list.splits)
  then show ?thesis using assms by (simp add: ipnet_Contains_def network_mask_def To4_def)
qed

section \<open>Properties\<close>

text \<open>
  C28: The sender limiter bounds bursts. Over any sequence of MAIL commands in time order, from
  any senders, the messages of one sender accepted within any interval as long as the window are
  at most twice the limit (a limit below one counts as one): the counter is per fixed window, and
  an interval meets at most two of them. Cleaning up old entries never loosens the bound.
\<close>

theorem sender_limit:
  assumes "0 \<le> W" "W < 2 ^ 63 - 1" "sorted (map fst cs)"
  shows "in_window a (a + W) (times_of f (rl_run cs (NewRateLimiter t0 lim W))) \<le> 2 * nat (max 1 lim)"
proof (cases cs)
  case Nil
  then show ?thesis by (simp add: times_of_def in_window_def)
next
  case (Cons c cs')
  have "limiter_ok lim W (fst c) (NewRateLimiter t0 lim W) []"
    by (simp add: limiter_ok_def NewRateLimiter_def entry_ok_def times_of_def in_window_def from_on_def)
  from rl_run_ok [OF this assms, of a f] show ?thesis using assms(3) Cons by simp
qed

theorem sender_limit_witness:
  "rl_run [(0, ''a''), (1, ''a''), (2, ''a''), (12, ''a'')] (NewRateLimiter 0 2 (10 :: duration)) =
     [(0, ''a''), (1, ''a''), (12, ''a'')] \<and>
   in_window 1 (1 + 10) (times_of ''a'' (rl_run [(0, ''a''), (1, ''a''), (2, ''a''), (12, ''a'')]
     (NewRateLimiter 0 2 (10 :: duration)))) \<le> 4"
proof -
  have "in_window 1 (1 + 10) (times_of ''a'' (rl_run [(0, ''a''), (1, ''a''), (2, ''a''), (12, ''a'')]
     (NewRateLimiter 0 2 (10 :: duration)))) \<le> 2 * nat (max 1 2)"
    by (rule sender_limit) simp_all
  then show ?thesis
    by (simp add: NewRateLimiter_def rl_OnMailFrom_def rl_cleanup_def time_Sub_def Let_def NewError_def)
qed

text \<open>
  C29: The token bucket bounds the rate. From its creation at \<open>t0\<close> to any later time, whatever the
  times of the requests in between, it grants at most its burst and the rate per minute for the
  time that has really passed, up to the rounding of the floating point product (one part in
  2^50), and its fill stays between zero and the burst.
\<close>

theorem token_bucket_bound:
  assumes "0 \<le> burst" "0 \<le> rate" "rounds_well earned rate" "sorted (t0 # ts @ [t])"
    and "tb_run earned ts (NewTokenBucket t0 rate burst) = (granted, rl)"
  shows "granted * (minute * 2 ^ 50) \<le> burst * (minute * 2 ^ 50) + (t - t0) * (rate * (2 ^ 50 + 1)) \<and>
    tb_tokens rl \<in> {0..burst}"
proof -
  define M K :: int where "M = minute * 2 ^ 50" and "K = rate * (2 ^ 50 + 1)"
  let ?b = "NewTokenBucket t0 rate burst"
  have mk: "0 \<le> M" "0 \<le> K" using assms(2) by (simp_all add: M_def K_def)
  have e: "\<forall>d \<ge> 0. earned d (tb_rate ?b) * M \<le> d * K"
    using assms(3) unfolding rounds_well_def M_def K_def NewTokenBucket_def by simp
  have "tb_ok (hd (ts @ [t])) ?b" using assms(1,2,4) by (cases ts) (auto simp: tb_ok_def NewTokenBucket_def)
  from tb_run_bound [OF assms(5) this e mk] have r: "tb_ok t rl" "tb_burst rl = burst"
    "(granted + tb_tokens rl) * M \<le> burst * M + (tb_lastUpdate rl - t0) * K"
    using assms(4) by (auto simp: NewTokenBucket_def)
  have "granted * M \<le> (granted + tb_tokens rl) * M" using r(1) mk(1) by (intro mult_right_mono) (auto simp: tb_ok_def)
  moreover have "(tb_lastUpdate rl - t0) * K \<le> (t - t0) * K" using r(1) mk(2) by (intro mult_right_mono) (auto simp: tb_ok_def)
  ultimately have "granted * M \<le> burst * M + (t - t0) * K" using r(3) by linarith
  then show ?thesis using r(1,2) unfolding M_def K_def by (auto simp: tb_ok_def)
qed

theorem token_bucket_bound_witness:
  "fst (tb_run (\<lambda>d r. d * r div minute) [1, 2, 3, minute] (NewTokenBucket 0 1 2)) = 3 \<and>
   3 * (minute * 2 ^ 50) \<le> 2 * (minute * 2 ^ 50) + minute * (2 ^ 50 + 1)"
proof -
  have rw: "rounds_well (\<lambda>d r. d * r div minute) 1"
    unfolding rounds_well_def
  proof (intro allI impI)
    fix d :: duration assume "0 \<le> d"
    then show "d * 1 div minute * (minute * 2 ^ 50) \<le> d * (1 * (2 ^ 50 + 1))" using minute_div_le [of d] by simp
  qed
  have r: "tb_run (\<lambda>d r. d * r div minute) [1, 2, 3, minute] (NewTokenBucket 0 1 2) =
      (3, \<lparr>tb_rate = 1, tb_burst = 2, tb_tokens = 0, tb_lastUpdate = minute\<rparr>)"
    by (simp add: tb_Allow_def NewTokenBucket_def time_Sub_def Let_def)
  show ?thesis using token_bucket_bound [OF _ _ rw _ r, of minute] r by simp
qed

text \<open>
  The connection filter: a connection is allowed exactly when its address parses, lies in no
  blocked network, and lies in an allowed one if any are given.
\<close>

lemma filter_decision:
  "AllowConnection splitHost parseIP f addr \<longleftrightarrow>
     (\<exists>host ip. splitHost (addr_String addr) = Inr host \<and> parseIP host = Some ip \<and>
        {n \<in> set (cf_blockedIPs f). ipnet_Contains n ip} = {} \<and>
        (cf_allowedIPs f = [] \<or> {n \<in> set (cf_allowedIPs f). ipnet_Contains n ip} \<noteq> {}))"
  by (auto simp: AllowConnection_def list_ex_iff split: sum.splits option.splits)

end
