(* ===== verification/InboundServe.thy ===== *)
theory InboundServe
  imports Inbound RateLimit
begin

text \<open>
  Admission of connections in \<open>Serve\<close> of \<open>pkg/inbound/server.go\<close>: the table of peers, the set of
  open connections, and the limits per server, per address and per minute. The table is a list
  of entries with distinct keys. A handler keeps a pointer to its peer; entries of peers with
  open connections are never dropped, so the entry under the peer's address is that peer.
\<close>

section \<open>State and steps\<close>

record peer =
  pr_active :: int
  pr_attempts :: int
  pr_window :: time

record in_server =
  sr_serving :: bool
  sr_peers :: "(string \<times> peer) list"
  sr_conns :: "(nat \<times> string) list"
  sr_leaving :: "(nat \<times> string) list"

definition in_server_new :: in_server where
  "in_server_new = \<lparr>sr_serving = False, sr_peers = [], sr_conns = [], sr_leaving = []\<rparr>"

text \<open>The checks at the start of \<open>Serve\<close>, and what its deferred functions do at the end.\<close>

definition Serve_begin :: "bool \<Rightarrow> in_server \<Rightarrow> go_error + in_server" where
  "Serve_begin hasListener s =
     (if \<not> hasListener then Inl (TextError ''inbound: nil listener'')
      else if sr_serving s then Inl (TextError ''inbound: already serving'')
      else Inr (s\<lparr>sr_serving := True\<rparr>))"

definition Serve_end :: "in_server \<Rightarrow> in_server" where
  "Serve_end s = s\<lparr>sr_serving := False\<rparr>"

definition expired :: "time \<Rightarrow> peer \<Rightarrow> bool" where
  "expired now p \<longleftrightarrow> time_Sub now (pr_window p) \<ge> minute"

definition sweep :: "time \<Rightarrow> (string \<times> peer) list \<Rightarrow> (string \<times> peer) list" where
  "sweep now ps = filter (\<lambda>(k, p). \<not> (pr_active p = 0 \<and> expired now p)) ps"

definition track :: "in_config \<Rightarrow> time \<Rightarrow> string \<Rightarrow> (string \<times> peer) list \<Rightarrow> (string \<times> peer) list" where
  "track cfg now host ps =
     (case map_of ps host of
        Some _ \<Rightarrow> ps
      | None \<Rightarrow> if int (length ps) < ic_MaxTrackedIPs cfg
                then (host, \<lparr>pr_active = 0, pr_attempts = 0, pr_window = now\<rparr>) # ps else ps)"

definition renew :: "time \<Rightarrow> peer \<Rightarrow> peer" where
  "renew now p = (if expired now p then p\<lparr>pr_attempts := 0, pr_window := now\<rparr> else p)"

definition set_peer :: "string \<Rightarrow> peer \<Rightarrow> (string \<times> peer) list \<Rightarrow> (string \<times> peer) list" where
  "set_peer host p ps = map (\<lambda>(k, q). if k = host then (k, p) else (k, q)) ps"

definition admit :: "in_config \<Rightarrow> bool \<Rightarrow> time \<Rightarrow> string \<Rightarrow> nat \<Rightarrow> in_server \<Rightarrow> bool \<times> in_server" where
  "admit cfg ctxLive now host conn s =
     (let ps = track cfg now host (sweep now (sr_peers s)) in
      (case map_of ps host of
         None \<Rightarrow> (False, s\<lparr>sr_peers := ps\<rparr>)
       | Some p0 \<Rightarrow>
           (let p = renew now p0;
                allowed = (int (length (sr_conns s)) < ic_MaxConnections cfg \<and>
                           pr_active p < ic_MaxConnectionsPerIP cfg \<and>
                           pr_attempts p < ic_ConnectionsPerMinute cfg \<and> ctxLive)
            in if allowed
               then (True, s\<lparr>sr_peers := set_peer host (p\<lparr>pr_active := pr_active p + 1, pr_attempts := pr_attempts p + 1\<rparr>) ps,
                             sr_conns := (conn, host) # sr_conns s\<rparr>)
               else (False, s\<lparr>sr_peers := set_peer host p ps\<rparr>))))"

text \<open>
  A handler has returned. Under the lock of the loop its connection leaves the set; then, under
  the lock of the server, its peer's count goes down. Between the two steps it is leaving.
\<close>

definition depart :: "nat \<Rightarrow> in_server \<Rightarrow> in_server" where
  "depart conn s =
     (case map_of (sr_conns s) conn of
        None \<Rightarrow> s
      | Some host \<Rightarrow>
          s\<lparr>sr_conns := filter (\<lambda>(c, _). c \<noteq> conn) (sr_conns s), sr_leaving := (conn, host) # sr_leaving s\<rparr>)"

definition forget :: "nat \<Rightarrow> in_server \<Rightarrow> in_server" where
  "forget conn s =
     (case map_of (sr_leaving s) conn of
        None \<Rightarrow> s
      | Some host \<Rightarrow>
          s\<lparr>sr_leaving := filter (\<lambda>(c, _). c \<noteq> conn) (sr_leaving s),
            sr_peers := map (\<lambda>(k, q). if k = host then (k, q\<lparr>pr_active := pr_active q - 1\<rparr>) else (k, q)) (sr_peers s)\<rparr>)"

datatype arrival = Arrive bool time string nat | Depart nat | Forget nat

text \<open>The events of one \<open>Serve\<close>; the admitted connections are collected, with their times.\<close>

fun serve_run :: "in_config \<Rightarrow> arrival list \<Rightarrow> in_server \<Rightarrow> in_server \<times> (time \<times> string) list" where
  "serve_run cfg [] s = (s, [])"
| "serve_run cfg (Arrive live now host conn # es) s =
     (let (ok, s') = admit cfg live now host conn s; (s'', adm) = serve_run cfg es s'
      in (s'', (if ok then [(now, host)] else []) @ adm))"
| "serve_run cfg (Depart conn # es) s = serve_run cfg es (depart conn s)"
| "serve_run cfg (Forget conn # es) s = serve_run cfg es (forget conn s)"

section \<open>Limits on open connections\<close>

definition on_host :: "string \<Rightarrow> (nat \<times> string) list \<Rightarrow> nat" where
  "on_host h cs = length (filter (\<lambda>(_, k). k = h) cs)"

definition tracked :: "in_server \<Rightarrow> (nat \<times> string) list" where
  "tracked s = sr_conns s @ sr_leaving s"

definition peers_ok :: "in_config \<Rightarrow> in_server \<Rightarrow> bool" where
  "peers_ok cfg s \<longleftrightarrow> distinct (map fst (sr_peers s)) \<and> distinct (map fst (tracked s)) \<and>
     snd ` set (tracked s) \<subseteq> fst ` set (sr_peers s) \<and>
     (\<forall>(h, p) \<in> set (sr_peers s). pr_active p = int (on_host h (tracked s)) \<and>
        pr_active p \<le> ic_MaxConnectionsPerIP cfg \<and> 0 \<le> pr_attempts p \<and> pr_attempts p \<le> ic_ConnectionsPerMinute cfg) \<and>
     int (length (sr_conns s)) \<le> ic_MaxConnections cfg \<and> int (length (sr_peers s)) \<le> ic_MaxTrackedIPs cfg"

definition fresh :: "nat \<Rightarrow> in_server \<Rightarrow> bool" where
  "fresh conn s \<longleftrightarrow> conn \<notin> fst ` set (tracked s)"

lemma tracked_peers [simp]: "tracked (s\<lparr>sr_peers := ps\<rparr>) = tracked s"
  by (simp add: tracked_def)

lemma on_host_append [simp]: "on_host h (xs @ ys) = on_host h xs + on_host h ys"
  by (simp add: on_host_def)

lemma on_host_zero: "h \<notin> snd ` set cs \<Longrightarrow> on_host h cs = 0"
  by (force simp: on_host_def filter_empty_conv)

lemma on_host_pos: "(c, h) \<in> set cs \<Longrightarrow> 0 < on_host h cs"
  by (force simp: on_host_def filter_empty_conv)

lemma sweep_ok: "peers_ok cfg s \<Longrightarrow> peers_ok cfg (s\<lparr>sr_peers := sweep now (sr_peers s)\<rparr>)"
proof -
  assume ok: "peers_ok cfg s"
  have keep: "h \<in> fst ` set (sweep now (sr_peers s))" if "(c, h) \<in> set (tracked s)" for c h
  proof -
    have "h \<in> fst ` set (sr_peers s)" using ok that by (force simp: peers_ok_def)
    then obtain p where p: "(h, p) \<in> set (sr_peers s)" by auto
    then have "pr_active p = int (on_host h (tracked s))" using ok by (auto simp: peers_ok_def)
    then have "(h, p) \<in> set (sweep now (sr_peers s))" using p on_host_pos [OF that] by (simp add: sweep_def)
    then show ?thesis by force
  qed
  have "length (sweep now (sr_peers s)) \<le> length (sr_peers s)" by (simp add: sweep_def)
  then have "int (length (sweep now (sr_peers s))) \<le> ic_MaxTrackedIPs cfg" using ok by (simp add: peers_ok_def)
  moreover have "distinct (map fst (sweep now (sr_peers s)))" "set (sweep now (sr_peers s)) \<subseteq> set (sr_peers s)"
    using ok by (auto simp: peers_ok_def sweep_def distinct_map_filter)
  moreover have "snd ` set (tracked s) \<subseteq> fst ` set (sweep now (sr_peers s))" using keep by auto
  ultimately show ?thesis using ok by (auto simp: peers_ok_def)
qed

lemma track_ok:
  assumes "peers_ok cfg s" "0 < ic_MaxConnectionsPerIP cfg" "0 < ic_ConnectionsPerMinute cfg"
  shows "peers_ok cfg (s\<lparr>sr_peers := track cfg now host (sr_peers s)\<rparr>)"
proof (cases "map_of (sr_peers s) host")
  case None
  then have new: "host \<notin> fst ` set (sr_peers s)" by (simp add: map_of_eq_None_iff)
  then have "host \<notin> snd ` set (tracked s)" using assms(1) by (auto simp: peers_ok_def)
  then have "on_host host (tracked s) = 0" by (rule on_host_zero)
  then show ?thesis using assms None new by (auto simp: peers_ok_def track_def)
qed (use assms in \<open>simp add: track_def\<close>)

lemma set_peer_keys [simp]: "map fst (set_peer h p ps) = map fst ps" "length (set_peer h p ps) = length ps"
  by (auto simp: set_peer_def)

lemma set_peer_elem: "x \<in> set (set_peer h p ps) \<Longrightarrow> (x = (h, p) \<and> h \<in> fst ` set ps) \<or> (x \<in> set ps \<and> fst x \<noteq> h)"
  by (force simp: set_peer_def split: if_splits)

lemma fst_set_peer [simp]: "fst ` set (set_peer h p ps) = fst ` set ps"
  by (metis set_map set_peer_keys(1))

lemma peers_ok_update:
  assumes "peers_ok cfg s" "(h, q) \<in> set (sr_peers s)" "pr_active p = int (on_host h (cs @ sr_leaving s))"
    "pr_active p \<le> ic_MaxConnectionsPerIP cfg" "0 \<le> pr_attempts p" "pr_attempts p \<le> ic_ConnectionsPerMinute cfg"
    "\<And>k. k \<noteq> h \<Longrightarrow> on_host k cs = on_host k (sr_conns s)" "snd ` set cs \<subseteq> fst ` set (sr_peers s)"
    "distinct (map fst (cs @ sr_leaving s))" "int (length cs) \<le> ic_MaxConnections cfg"
  shows "peers_ok cfg (s\<lparr>sr_peers := set_peer h p (sr_peers s), sr_conns := cs\<rparr>)"
proof -
  have "pr_active q' = int (on_host k (cs @ sr_leaving s)) \<and> pr_active q' \<le> ic_MaxConnectionsPerIP cfg \<and> 0 \<le> pr_attempts q' \<and>
      pr_attempts q' \<le> ic_ConnectionsPerMinute cfg" if "(k, q') \<in> set (set_peer h p (sr_peers s))" for k q'
    using set_peer_elem [OF that] assms(1,3-7) by (auto simp: peers_ok_def tracked_def)
  moreover have "snd ` set (sr_leaving s) \<subseteq> fst ` set (sr_peers s)" using assms(1) by (auto simp: peers_ok_def tracked_def)
  ultimately show ?thesis using assms(1,8-10) by (auto simp: peers_ok_def tracked_def)
qed

lemma renew_fields: "pr_active (renew now p) = pr_active p"
  "0 \<le> pr_attempts p \<Longrightarrow> 0 \<le> pr_attempts (renew now p) \<and> pr_attempts (renew now p) \<le> max 0 (pr_attempts p)"
  by (auto simp: renew_def)

definition limits_pos :: "in_config \<Rightarrow> bool" where
  "limits_pos cfg \<longleftrightarrow> 0 < ic_MaxConnectionsPerIP cfg \<and> 0 < ic_ConnectionsPerMinute cfg \<and>
     0 < ic_MaxTrackedIPs cfg \<and> 0 < ic_MaxConnections cfg"

lemma in_New_limits:
  assumes "in_New p hb c = Inr cfg"
  shows "limits_pos cfg"
proof -
  have "ic_MaxConnectionsPerIP cfg = default_if_zero 10 (ic_MaxConnectionsPerIP c)" "0 \<le> ic_MaxConnectionsPerIP c"
    "ic_ConnectionsPerMinute cfg = default_if_zero 60 (ic_ConnectionsPerMinute c)" "0 \<le> ic_ConnectionsPerMinute c"
    "ic_MaxTrackedIPs cfg = default_if_zero 10000 (ic_MaxTrackedIPs c)" "0 \<le> ic_MaxTrackedIPs c"
    "ic_MaxConnections cfg = default_if_zero 100 (ic_MaxConnections c)" "0 \<le> ic_MaxConnections c"
    using assms unfolding in_New_def by (simp_all split: if_splits) (hypsubst, simp)+
  moreover have "0 \<le> x \<Longrightarrow> 0 < d \<Longrightarrow> 0 < default_if_zero d x" for d x by (simp add: default_if_zero_def)
  ultimately show ?thesis by (simp add: limits_pos_def)
qed

lemma admit_ok:
  assumes ok: "peers_ok cfg s" and lim: "limits_pos cfg" and new: "fresh conn s"
    and ad: "admit cfg live now host conn s = (r, s')"
  shows "peers_ok cfg s'"
proof -
  let ?ps = "track cfg now host (sweep now (sr_peers s))"
  let ?t = "s\<lparr>sr_peers := ?ps\<rparr>"
  have t: "peers_ok cfg ?t"
    using track_ok [OF sweep_ok [OF ok, of now], of now host] lim by (simp add: limits_pos_def)
  show ?thesis
  proof (cases "map_of ?ps host")
    case None
    then show ?thesis using ad t by (simp add: admit_def)
  next
    case (Some p0)
    then have mem: "(host, p0) \<in> set (sr_peers ?t)" by (simp add: map_of_SomeD)
    then have p0: "pr_active p0 = int (on_host host (tracked s))" "pr_active p0 \<le> ic_MaxConnectionsPerIP cfg"
        "0 \<le> pr_attempts p0" "pr_attempts p0 \<le> ic_ConnectionsPerMinute cfg"
      using t by (auto simp: peers_ok_def)
    note rn = renew_fields [where now = now and p = p0]
    have host: "host \<in> fst ` set ?ps" using mem by force
    have sub: "snd ` set (sr_conns s) \<subseteq> fst ` set ?ps" "distinct (map fst (sr_conns s @ sr_leaving s))"
      "int (length (sr_conns s)) \<le> ic_MaxConnections cfg" using t by (auto simp: peers_ok_def tracked_def)
    have keep: "peers_ok cfg (?t\<lparr>sr_peers := set_peer host (renew now p0) (sr_peers ?t), sr_conns := sr_conns s\<rparr>)"
      using peers_ok_update [OF t mem, of "renew now p0" "sr_conns s"] rn p0 sub by (auto simp: tracked_def)
    have add: "peers_ok cfg (?t\<lparr>sr_peers := set_peer host
        ((renew now p0)\<lparr>pr_active := pr_active (renew now p0) + 1, pr_attempts := pr_attempts (renew now p0) + 1\<rparr>) (sr_peers ?t),
        sr_conns := (conn, host) # sr_conns s\<rparr>)"
      if "int (length (sr_conns s)) < ic_MaxConnections cfg" "pr_active (renew now p0) < ic_MaxConnectionsPerIP cfg"
        "pr_attempts (renew now p0) < ic_ConnectionsPerMinute cfg"
      by (rule peers_ok_update [OF t mem]) (use that rn p0 sub host new in \<open>auto simp: on_host_def fresh_def tracked_def\<close>)
    show ?thesis using ad Some keep add by (auto simp: admit_def Let_def split: if_splits)
  qed
qed

lemma on_host_filter:
  assumes "distinct (map fst cs)" "(c, h) \<in> set cs"
  shows "on_host k (filter (\<lambda>(d, _). d \<noteq> c) cs) = (if k = h then on_host k cs - 1 else on_host k cs)"
  using assms
proof (induction cs)
  case (Cons x cs)
  show ?case
  proof (cases "fst x = c")
    case True
    then have "c \<notin> fst ` set cs" "x = (c, h)" using Cons.prems by (auto simp: image_iff)
    moreover have "filter (\<lambda>(d, _). d \<noteq> c) cs = cs" using \<open>c \<notin> fst ` set cs\<close> by (force intro: filter_True)
    ultimately show ?thesis by (simp add: on_host_def)
  next
    case False
    then have "(c, h) \<in> set cs" "distinct (map fst cs)" using Cons.prems by auto
    moreover have "k = h \<Longrightarrow> 0 < on_host k cs" using on_host_pos calculation(1) by blast
    ultimately show ?thesis using Cons.IH False by (cases x) (auto simp: on_host_def)
  qed
qed simp

lemma on_host_perm: "mset xs = mset ys \<Longrightarrow> on_host h xs = on_host h ys"
  unfolding on_host_def by (metis mset_filter size_mset)

lemma filter_key_mset:
  "distinct (map fst cs) \<Longrightarrow> (c, h) \<in> set cs \<Longrightarrow> mset cs = add_mset (c, h) (mset (filter (\<lambda>(d, _). d \<noteq> c) cs))"
proof (induction cs)
  case (Cons x cs)
  show ?case
  proof (cases "fst x = c")
    case True
    then have "x = (c, h)" using Cons.prems by (auto simp: image_iff)
    moreover have "c \<notin> fst ` set cs" using True Cons.prems(1) by auto
    then have "filter (\<lambda>(d, _). d \<noteq> c) cs = cs" by (force intro: filter_True)
    ultimately show ?thesis by simp
  next
    case False
    then show ?thesis using Cons by (cases x) auto
  qed
qed simp

lemma depart_tracked: "distinct (map fst (sr_conns s)) \<Longrightarrow> mset (tracked (depart conn s)) = mset (tracked s)"
  using filter_key_mset [of "sr_conns s" conn]
  by (auto simp: depart_def tracked_def dest!: map_of_SomeD split: option.splits)

lemma depart_fields: "sr_peers (depart conn s) = sr_peers s" "length (sr_conns (depart conn s)) \<le> length (sr_conns s)"
  by (auto simp: depart_def split: option.splits)

lemma depart_ok:
  assumes "peers_ok cfg s"
  shows "peers_ok cfg (depart conn s)"
proof -
  have "distinct (map fst (sr_conns s))" using assms by (simp add: peers_ok_def tracked_def)
  then have ms: "mset (tracked (depart conn s)) = mset (tracked s)" by (rule depart_tracked)
  then have "distinct (map fst (tracked (depart conn s))) = distinct (map fst (tracked s))"
    by (metis mset_eq_imp_distinct_iff mset_map)
  moreover have "set (tracked (depart conn s)) = set (tracked s)" using ms by (rule mset_eq_setD)
  moreover have "on_host h (tracked (depart conn s)) = on_host h (tracked s)" for h using ms by (rule on_host_perm)
  ultimately show ?thesis using assms depart_fields [of conn s] by (simp add: peers_ok_def)
qed

lemma forget_ok: "peers_ok cfg s \<Longrightarrow> peers_ok cfg (forget conn s)"
proof (cases "map_of (sr_leaving s) conn")
  case (Some host)
  assume ok: "peers_ok cfg s"
  let ?ls = "filter (\<lambda>(c, _). c \<noteq> conn) (sr_leaving s)"
  let ?cs = "sr_conns s @ ?ls"
  let ?ps = "map (\<lambda>(k, q). if k = host then (k, q\<lparr>pr_active := pr_active q - 1\<rparr>) else (k, q)) (sr_peers s)"
  have lv: "(conn, host) \<in> set (sr_leaving s)" using Some by (rule map_of_SomeD)
  then have mem: "(conn, host) \<in> set (tracked s)" by (simp add: tracked_def)
  have dis: "distinct (map fst (tracked s))" "distinct (map fst (sr_leaving s))" using ok by (auto simp: peers_ok_def tracked_def)
  have on: "on_host k ?cs = (if k = host then on_host k (tracked s) - 1 else on_host k (tracked s))" for k
    using on_host_filter [OF dis(2) lv, of k] on_host_pos [OF lv] by (auto simp: tracked_def)
  have keys: "map fst ?ps = map fst (sr_peers s)" by auto
  then have keyset: "fst ` set ?ps = fst ` set (sr_peers s)" by (metis set_map)
  have el: "pr_active q = int (on_host k ?cs) \<and> pr_active q \<le> ic_MaxConnectionsPerIP cfg \<and> 0 \<le> pr_attempts q \<and>
      pr_attempts q \<le> ic_ConnectionsPerMinute cfg" if q: "(k, q) \<in> set ?ps" for k q
  proof -
    obtain q0 where q0: "(k, q0) \<in> set (sr_peers s)" "q = (if k = host then q0\<lparr>pr_active := pr_active q0 - 1\<rparr> else q0)"
      using q by (auto split: if_splits)
    then have "pr_active q0 = int (on_host k (tracked s))" "pr_active q0 \<le> ic_MaxConnectionsPerIP cfg"
      "0 \<le> pr_attempts q0" "pr_attempts q0 \<le> ic_ConnectionsPerMinute cfg" using ok by (auto simp: peers_ok_def)
    then show ?thesis using q0(2) on [of k] on_host_pos [OF mem] by auto
  qed
  have cs: "snd ` set ?cs \<subseteq> fst ` set ?ps" "distinct (map fst ?cs)"
    unfolding keyset using ok by (auto simp: peers_ok_def tracked_def distinct_map_filter)
  have ps: "distinct (map fst ?ps)" "int (length ?ps) \<le> ic_MaxTrackedIPs cfg"
    unfolding keys using ok by (simp_all add: peers_ok_def)
  have all: "\<forall>(k, q) \<in> set ?ps. pr_active q = int (on_host k ?cs) \<and> pr_active q \<le> ic_MaxConnectionsPerIP cfg \<and>
      0 \<le> pr_attempts q \<and> pr_attempts q \<le> ic_ConnectionsPerMinute cfg" using el by blast
  have len: "int (length (sr_conns s)) \<le> ic_MaxConnections cfg" using ok by (simp add: peers_ok_def)
  have f: "forget conn s = s\<lparr>sr_leaving := ?ls, sr_peers := ?ps\<rparr>" by (simp add: forget_def Some)
  have flds: "sr_peers (forget conn s) = ?ps" "tracked (forget conn s) = ?cs" "sr_conns (forget conn s) = sr_conns s"
    unfolding f tracked_def by simp_all
  show ?thesis unfolding peers_ok_def flds using len cs ps all by blast
qed (simp add: forget_def)

section \<open>Admissions per minute\<close>

abbreviation minute_window :: duration where "minute_window \<equiv> minute - 1"

definition entry_of :: "peer option \<Rightarrow> senderCount option" where
  "entry_of p = map_option (\<lambda>p. \<lparr>sc_count = pr_attempts p, sc_startTime = pr_window p\<rparr>) p"

definition rate_ok :: "in_config \<Rightarrow> time \<Rightarrow> in_server \<Rightarrow> (time \<times> string) list \<Rightarrow> bool" where
  "rate_ok cfg now s adm \<longleftrightarrow> (\<forall>h. entry_ok (nat (ic_ConnectionsPerMinute cfg)) minute_window now
     (entry_of (map_of (sr_peers s) h)) (times_of h adm))"

lemma expired_iff: "expired now p \<longleftrightarrow> now - pr_window p > minute_window"
  by (auto simp: expired_def time_Sub_def)

lemma map_of_filter_other:
  "distinct (map fst ps) \<Longrightarrow> map_of (filter P ps) h =
     (case map_of ps h of None \<Rightarrow> None | Some p \<Rightarrow> if P (h, p) then Some p else None)"
  by (induction ps) (auto split: option.splits simp: map_of_eq_None_iff)

lemma map_of_set_peer:
  "map_of (set_peer h p ps) k = (if k = h then (if map_of ps h = None then None else Some p) else map_of ps k)"
  by (induction ps) (auto simp: set_peer_def)

lemma sweep_rate:
  assumes "rate_ok cfg now s adm" "now \<le> now'" "distinct (map fst (sr_peers s))"
  shows "rate_ok cfg now' (s\<lparr>sr_peers := sweep now' (sr_peers s)\<rparr>) adm"
proof -
  have "entry_ok (nat (ic_ConnectionsPerMinute cfg)) minute_window now'
     (entry_of (map_of (sweep now' (sr_peers s)) h)) (times_of h adm)" for h
  proof -
    have e: "entry_ok (nat (ic_ConnectionsPerMinute cfg)) minute_window now (entry_of (map_of (sr_peers s) h)) (times_of h adm)"
      using assms(1) by (simp add: rate_ok_def)
    show ?thesis
    proof (cases "map_of (sr_peers s) h")
      case None
      then show ?thesis using entry_later [OF e assms(2)] assms(3) by (simp add: sweep_def map_of_filter_other)
    next
      case (Some p)
      have "entry_ok (nat (ic_ConnectionsPerMinute cfg)) minute_window now' None (times_of h adm)" if "expired now' p"
        using entry_expires [OF _ assms(2)] e Some that by (simp add: entry_of_def expired_iff)
      then show ?thesis using entry_later [OF e assms(2)] assms(3) Some
        by (auto simp: sweep_def map_of_filter_other entry_of_def)
    qed
  qed
  then show ?thesis by (simp add: rate_ok_def)
qed

lemma track_rate:
  assumes "rate_ok cfg now s adm"
  shows "rate_ok cfg now (s\<lparr>sr_peers := track cfg now h (sr_peers s)\<rparr>) adm"
proof (cases "map_of (sr_peers s) h")
  case None
  have "entry_ok (nat (ic_ConnectionsPerMinute cfg)) minute_window now None (times_of h adm)"
    using assms [unfolded rate_ok_def, THEN spec, of h] None by (simp add: entry_of_def)
  then have "entry_ok (nat (ic_ConnectionsPerMinute cfg)) minute_window now (Some \<lparr>sc_count = 0, sc_startTime = now\<rparr>) (times_of h adm)"
    by (rule entry_open) simp
  then show ?thesis using assms None by (simp add: rate_ok_def track_def entry_of_def)
qed (use assms in \<open>simp add: track_def rate_ok_def\<close>)

lemma admit_rate:
  assumes rate: "rate_ok cfg now s adm" and later: "now \<le> now'" and ok: "peers_ok cfg s" and lim: "limits_pos cfg"
    and ad: "admit cfg live now' host conn s = (r, s')"
  shows "rate_ok cfg now' s' (if r then adm @ [(now', host)] else adm)"
proof -
  let ?L = "nat (ic_ConnectionsPerMinute cfg)"
  let ?ps = "track cfg now' host (sweep now' (sr_peers s))"
  have t: "rate_ok cfg now' (s\<lparr>sr_peers := ?ps\<rparr>) adm"
    using track_rate [OF sweep_rate [OF rate later]] ok by (simp add: peers_ok_def)
  show ?thesis
  proof (cases "map_of ?ps host")
    case None
    then show ?thesis using ad t by (simp add: admit_def)
  next
    case (Some p0)
    let ?p = "renew now' p0"
    have e0: "entry_ok ?L minute_window now' (Some \<lparr>sc_count = pr_attempts p0, sc_startTime = pr_window p0\<rparr>) (times_of host adm)"
      using t [unfolded rate_ok_def, THEN spec, of host] Some by (simp add: entry_of_def)
    have e: "entry_ok ?L minute_window now' (Some \<lparr>sc_count = pr_attempts ?p, sc_startTime = pr_window ?p\<rparr>) (times_of host adm)"
    proof (cases "expired now' p0")
      case True
      then have "entry_ok ?L minute_window now' None (times_of host adm)"
        using entry_expires [OF e0 order_refl] by (simp add: expired_iff)
      then show ?thesis using entry_open [of ?L minute_window now' _ now'] True by (simp add: renew_def)
    qed (use e0 in \<open>simp add: renew_def\<close>)
    have others: "entry_ok ?L minute_window now' (entry_of (map_of ?ps h)) (times_of h adm)" for h
      using t by (simp add: rate_ok_def)
    have keep: "rate_ok cfg now' (s\<lparr>sr_peers := set_peer host ?p ?ps\<rparr>) adm"
      using e others Some by (simp add: rate_ok_def map_of_set_peer entry_of_def)
    have "entry_ok ?L minute_window now' (Some \<lparr>sc_count = pr_attempts ?p + 1, sc_startTime = pr_window ?p\<rparr>) (times_of host adm @ [now'])"
      if "pr_attempts ?p < ic_ConnectionsPerMinute cfg"
      using entry_count [OF e order_refl] that lim by (simp add: limits_pos_def)
    then have "rate_ok cfg now' (s\<lparr>sr_peers := set_peer host (?p\<lparr>pr_active := a, pr_attempts := pr_attempts ?p + 1\<rparr>) ?ps, sr_conns := cs\<rparr>)
        (adm @ [(now', host)])" if "pr_attempts ?p < ic_ConnectionsPerMinute cfg" for a cs
      using that others Some by (simp add: rate_ok_def map_of_set_peer entry_of_def)
    then show ?thesis using ad Some keep by (auto simp: admit_def Let_def split: if_splits)
  qed
qed

lemma depart_rate: "rate_ok cfg now s adm \<Longrightarrow> rate_ok cfg now (depart conn s) adm"
  by (simp add: rate_ok_def depart_fields)

lemma forget_rate:
  assumes "rate_ok cfg now s adm"
  shows "rate_ok cfg now (forget conn s) adm"
proof (cases "map_of (sr_leaving s) conn")
  case (Some host)
  have "entry_of (map_of (map (\<lambda>(k, q). if k = host then (k, q\<lparr>pr_active := pr_active q - 1\<rparr>) else (k, q)) ps) h) =
      entry_of (map_of ps h)" for ps :: "(string \<times> peer) list" and h
    by (induction ps) (auto simp: entry_of_def split: if_splits)
  then show ?thesis using assms by (simp add: rate_ok_def forget_def Some)
qed (use assms in \<open>simp add: forget_def\<close>)

section \<open>A whole run of the accept loop\<close>

fun arrival_ids :: "arrival list \<Rightarrow> nat list" where
  "arrival_ids [] = []"
| "arrival_ids (Arrive live now host conn # es) = conn # arrival_ids es"
| "arrival_ids (Depart conn # es) = arrival_ids es"
| "arrival_ids (Forget conn # es) = arrival_ids es"

fun arrival_times :: "arrival list \<Rightarrow> time list" where
  "arrival_times [] = []"
| "arrival_times (Arrive live now host conn # es) = now # arrival_times es"
| "arrival_times (Depart conn # es) = arrival_times es"
| "arrival_times (Forget conn # es) = arrival_times es"

lemma admit_conns: "admit cfg live now host conn s = (r, s') \<Longrightarrow> fst ` set (tracked s') \<subseteq> insert conn (fst ` set (tracked s))"
  by (auto simp: admit_def tracked_def Let_def split: option.splits if_splits)

lemma depart_conns: "fst ` set (tracked (depart conn s)) \<subseteq> fst ` set (tracked s)"
  "fst ` set (tracked (forget conn s)) \<subseteq> fst ` set (tracked s)"
proof -
  have "conn \<in> fst ` set (sr_conns s)" if "map_of (sr_conns s) conn = Some h" for h
    using map_of_SomeD [OF that] by force
  then show "fst ` set (tracked (depart conn s)) \<subseteq> fst ` set (tracked s)"
    by (auto simp: depart_def tracked_def split: option.splits)
  show "fst ` set (tracked (forget conn s)) \<subseteq> fst ` set (tracked s)"
    by (auto simp: forget_def tracked_def split: option.splits)
qed

lemma serve_run_ok:
  "peers_ok cfg s \<Longrightarrow> limits_pos cfg \<Longrightarrow> distinct (arrival_ids es) \<Longrightarrow>
   fst ` set (tracked s) \<inter> set (arrival_ids es) = {} \<Longrightarrow> peers_ok cfg (fst (serve_run cfg es s))"
proof (induction es arbitrary: s rule: arrival_ids.induct)
  case (2 live now host conn es)
  obtain r s' where ad: "admit cfg live now host conn s = (r, s')" by (cases "admit cfg live now host conn s")
  have "peers_ok cfg s'" using admit_ok [OF 2(2,3) _ ad] 2(5) by (auto simp: fresh_def)
  moreover have "fst ` set (tracked s') \<inter> set (arrival_ids es) = {}" using admit_conns [OF ad] 2(4,5) by auto
  ultimately show ?case using 2(1) [of s'] 2(3,4) ad by (cases "serve_run cfg es s'") simp
next
  case (3 conn es)
  have "fst ` set (tracked (depart conn s)) \<inter> set (arrival_ids es) = {}" using depart_conns(1) [of conn s] 3(5) by auto
  then show ?case using 3(1) [OF depart_ok [OF 3(2)] 3(3)] 3(4) by simp
next
  case (4 conn es)
  have "fst ` set (tracked (forget conn s)) \<inter> set (arrival_ids es) = {}" using depart_conns(2) [where conn = conn and s = s] 4(5) by auto
  then show ?case using 4(1) [OF forget_ok [OF 4(2)] 4(3)] 4(4) by simp
qed simp

lemma serve_run_rate:
  "peers_ok cfg s \<Longrightarrow> rate_ok cfg now s adm \<Longrightarrow> limits_pos cfg \<Longrightarrow> distinct (arrival_ids es) \<Longrightarrow>
   fst ` set (tracked s) \<inter> set (arrival_ids es) = {} \<Longrightarrow> sorted (now # arrival_times es) \<Longrightarrow>
   in_window a (a + minute_window) (times_of host (adm @ snd (serve_run cfg es s))) \<le> 2 * nat (ic_ConnectionsPerMinute cfg)"
proof (induction es arbitrary: s now adm rule: arrival_ids.induct)
  case 1
  then show ?case by (simp add: rate_ok_def entry_ok_def)
next
  case (2 live t h conn es)
  obtain r s' where ad: "admit cfg live t h conn s = (r, s')" by (cases "admit cfg live t h conn s")
  have "now \<le> t" "sorted (t # arrival_times es)" using 2(7) by auto
  then have "rate_ok cfg t s' (if r then adm @ [(t, h)] else adm)"
    using admit_rate [OF 2(3) _ 2(2) 2(4) ad] by blast
  moreover have "peers_ok cfg s'" using admit_ok [OF 2(2) 2(4) _ ad] 2(6) by (auto simp: fresh_def)
  moreover have "fst ` set (tracked s') \<inter> set (arrival_ids es) = {}" using admit_conns [OF ad] 2(5,6) by auto
  ultimately show ?case
    using 2(1) [of s' t "if r then adm @ [(t, h)] else adm"] \<open>sorted (t # _)\<close> 2(4,5) ad
    by (cases r; cases "serve_run cfg es s'") auto
next
  case (3 conn es)
  have "fst ` set (tracked (depart conn s)) \<inter> set (arrival_ids es) = {}" using depart_conns(1) [of conn s] 3(6) by auto
  then show ?case using 3(1) [OF depart_ok [OF 3(2)] depart_rate [OF 3(3)] 3(4)] 3(5,7) by simp
next
  case (4 conn es)
  have "fst ` set (tracked (forget conn s)) \<inter> set (arrival_ids es) = {}" using depart_conns(2) [where conn = conn and s = s] 4(6) by auto
  then show ?case using 4(1) [OF forget_ok [OF 4(2)] forget_rate [OF 4(3)] 4(4)] 4(5,7) by simp
qed

lemma new_peers_ok: "limits_pos cfg \<Longrightarrow> peers_ok cfg in_server_new"
  by (simp add: peers_ok_def in_server_new_def limits_pos_def tracked_def)

lemma new_rate_ok: "rate_ok cfg now in_server_new []"
  by (simp add: rate_ok_def entry_ok_def in_server_new_def entry_of_def times_of_def in_window_def from_on_def)

section \<open>Properties\<close>

definition small_limits :: in_config where
  "small_limits = \<lparr>ic_Hostname = ''mx.example.com'', ic_TLS = False, ic_MaxMessageBytes = 0, ic_MaxRecipients = 0,
     ic_MaxConnections = 2, ic_MaxData = 0, ic_MaxConnectionsPerIP = 1, ic_ConnectionsPerMinute = 1, ic_MaxTrackedIPs = 2,
     ic_IdleTimeout = 0, ic_TransactionTimeout = 0\<rparr>"

definition small_arrivals :: "arrival list" where
  "small_arrivals = [Arrive True 0 ''a'' 1, Arrive True 1 ''a'' 2, Arrive True 2 ''b'' 3, Arrive True 3 ''c'' 4, Depart 1,
     Arrive True 4 ''a'' 7, Forget 1, Arrive True 5 ''a'' 5, Arrive True (minute + 1) ''a'' 6]"

lemma small_New: "in_New (\<lambda>_. None) True small_limits =
    Inr (case in_New (\<lambda>_. None) True small_limits of Inr cfg \<Rightarrow> cfg | Inl _ \<Rightarrow> small_limits)"
  by code_simp

text \<open>
  C12: whatever connections arrive and end, in any order, under a configuration that
  \<open>New\<close> has accepted, the server never holds more open connections than \<open>MaxConnections\<close>, never
  more from one address than \<open>MaxConnectionsPerIP\<close>, and never tracks more than \<open>MaxTrackedIPs\<close>
  addresses; the count kept for an address is the number of its connections that are open or
  whose handler is just leaving.
\<close>

theorem connection_limits:
  assumes "in_New p hb c = Inr cfg" "distinct (arrival_ids es)"
  defines "s \<equiv> fst (serve_run cfg es in_server_new)"
  shows "int (length (sr_conns s)) \<le> ic_MaxConnections cfg \<and>
    int (on_host host (sr_conns s)) \<le> ic_MaxConnectionsPerIP cfg \<and>
    int (length (sr_peers s)) \<le> ic_MaxTrackedIPs cfg \<and>
    map_option pr_active (map_of (sr_peers s) host) \<in> {None, Some (int (on_host host (sr_conns s @ sr_leaving s)))}"
proof -
  have lim: "limits_pos cfg" by (rule in_New_limits [OF assms(1)])
  have ok: "peers_ok cfg s" unfolding s_def
    using serve_run_ok [OF new_peers_ok [OF lim] lim assms(2)] by (simp add: in_server_new_def tracked_def)
  have el: "pr_active q = int (on_host host (tracked s)) \<and> pr_active q \<le> ic_MaxConnectionsPerIP cfg"
    if "(host, q) \<in> set (sr_peers s)" for q using ok that by (auto simp: peers_ok_def)
  have "int (on_host host (tracked s)) \<le> ic_MaxConnectionsPerIP cfg"
  proof (cases "host \<in> fst ` set (sr_peers s)")
    case False
    then have "on_host host (tracked s) = 0" using ok by (intro on_host_zero) (auto simp: peers_ok_def)
    then show ?thesis using lim by (simp add: limits_pos_def)
  qed (use el in force)
  then have "int (on_host host (sr_conns s)) \<le> ic_MaxConnectionsPerIP cfg" by (simp add: tracked_def)
  moreover have "map_option pr_active (map_of (sr_peers s) host) \<in> {None, Some (int (on_host host (tracked s)))}"
    using el map_of_SomeD by (cases "map_of (sr_peers s) host") fastforce+
  ultimately show ?thesis using ok unfolding peers_ok_def tracked_def by blast
qed

theorem connection_limits_witness:
  "let s = fst (serve_run (case in_New (\<lambda>_. None) True small_limits of Inr cfg \<Rightarrow> cfg | Inl _ \<Rightarrow> small_limits) small_arrivals in_server_new)
   in length (sr_conns s) = 2 \<and> on_host ''a'' (sr_conns s) \<le> 1"
proof -
  let ?cfg = "case in_New (\<lambda>_. None) True small_limits of Inr cfg \<Rightarrow> cfg | Inl _ \<Rightarrow> small_limits"
  have d: "distinct (arrival_ids small_arrivals)" by code_simp
  have "ic_MaxConnectionsPerIP ?cfg = 1" by code_simp
  then have "on_host ''a'' (sr_conns (fst (serve_run ?cfg small_arrivals in_server_new))) \<le> 1"
    using connection_limits [OF small_New d, of "''a''"] by simp
  moreover have "length (sr_conns (fst (serve_run ?cfg small_arrivals in_server_new))) = 2" by code_simp
  ultimately show ?thesis by (simp add: Let_def)
qed

text \<open>
  C13: of the connections of one address that the server admits, at most twice
  \<open>ConnectionsPerMinute\<close> fall into any stretch of a minute; the factor of two is the price of
  counting in windows that start with an attempt.
\<close>

theorem admissions_per_minute:
  assumes "in_New p hb c = Inr cfg" "distinct (arrival_ids es)" "sorted (arrival_times es)"
  shows "in_window a (a + minute_window) (times_of host (snd (serve_run cfg es in_server_new))) \<le>
    2 * nat (ic_ConnectionsPerMinute cfg)"
proof -
  have lim: "limits_pos cfg" by (rule in_New_limits [OF assms(1)])
  let ?now = "case arrival_times es of [] \<Rightarrow> 0 | t # _ \<Rightarrow> t"
  have "sorted (?now # arrival_times es)" using assms(3) by (auto split: list.split)
  then show ?thesis
    using serve_run_rate [OF new_peers_ok [OF lim] new_rate_ok lim assms(2), of ?now a host]
    by (simp add: in_server_new_def tracked_def)
qed

theorem admissions_per_minute_witness:
  "let adm = snd (serve_run (case in_New (\<lambda>_. None) True small_limits of Inr cfg \<Rightarrow> cfg | Inl _ \<Rightarrow> small_limits) small_arrivals in_server_new)
   in times_of ''a'' adm = [0, minute + 1] \<and> in_window 0 (0 + minute_window) (times_of ''a'' adm) \<le> 2"
proof -
  let ?cfg = "case in_New (\<lambda>_. None) True small_limits of Inr cfg \<Rightarrow> cfg | Inl _ \<Rightarrow> small_limits"
  have d: "distinct (arrival_ids small_arrivals)" "sorted (arrival_times small_arrivals)" by code_simp+
  have "ic_ConnectionsPerMinute ?cfg = 1" by code_simp
  then have "in_window 0 (0 + minute_window) (times_of ''a'' (snd (serve_run ?cfg small_arrivals in_server_new))) \<le> 2"
    using admissions_per_minute [OF small_New d, of 0 "''a''"] by simp
  moreover have "times_of ''a'' (snd (serve_run ?cfg small_arrivals in_server_new)) = [0, minute + 1]" by code_simp
  ultimately show ?thesis by (simp add: Let_def)
qed

end
