(* ===== verification/InboundStop.thy ===== *)
theory InboundStop
  imports InboundServe
begin

text \<open>
  \<open>Serve\<close> of \<open>pkg/inbound/server.go\<close> as a whole: the accept loop, the goroutine that closes the
  listener and the connections when the context ends, the handlers, and the deferred functions
  that run when the loop is left. The steps are those between which other goroutines can run.
\<close>

section \<open>States and steps\<close>

text \<open>
  \<open>Unwinding\<close>: the loop has been left with a result. \<open>Closing\<close>: the context is cancelled and the listener closed.
  \<open>Waiting\<close>: the connections have been closed and \<open>wg.Wait\<close> waits for the handlers.
\<close>

datatype sv_phase =
    Accepting
  | Unwinding "go_error option"
  | Closing "go_error option"
  | Waiting "go_error option"
  | Returned "go_error option"

text \<open>
  \<open>sg_open\<close> are the connections that nobody on this side has closed. \<open>sg_ending\<close> are the handlers that have given up
  their places and have still to close their connection and to tell the wait group.
\<close>

record serving =
  sg_srv :: in_server
  sg_cancelled :: bool
  sg_listening :: bool
  sg_phase :: sv_phase
  sg_ending :: "nat list"
  sg_open :: "nat set"

definition conn_ids :: "in_server \<Rightarrow> nat set" where
  "conn_ids s = fst ` set (sr_conns s)"

definition close_all :: "serving \<Rightarrow> serving" where
  "close_all g = g\<lparr>sg_open := sg_open g - conn_ids (sg_srv g)\<rparr>"

text \<open>A connection is accepted: admitted, with a handler of its own, or closed at once.\<close>

definition sg_accept :: "in_config \<Rightarrow> time \<Rightarrow> string \<Rightarrow> nat \<Rightarrow> serving \<Rightarrow> serving" where
  "sg_accept cfg now host conn g =
     (let (allowed, srv) = admit cfg (\<not> sg_cancelled g) now host conn (sg_srv g)
      in if allowed then g\<lparr>sg_srv := srv, sg_open := insert conn (sg_open g)\<rparr> else g\<lparr>sg_srv := srv\<rparr>)"

text \<open>The end of a handler, in three steps: the set of connections, the peer's count, the connection itself.\<close>

definition sg_depart :: "nat \<Rightarrow> serving \<Rightarrow> serving option" where
  "sg_depart conn g = (if conn \<in> conn_ids (sg_srv g) then Some (g\<lparr>sg_srv := depart conn (sg_srv g)\<rparr>) else None)"

definition sg_forget :: "nat \<Rightarrow> serving \<Rightarrow> serving option" where
  "sg_forget conn g =
     (if conn \<in> fst ` set (sr_leaving (sg_srv g))
      then Some (g\<lparr>sg_srv := forget conn (sg_srv g), sg_ending := conn # sg_ending g\<rparr>) else None)"

definition sg_finish :: "nat \<Rightarrow> serving \<Rightarrow> serving option" where
  "sg_finish conn g =
     (if conn \<in> set (sg_ending g)
      then Some (g\<lparr>sg_ending := remove1 conn (sg_ending g), sg_open := sg_open g - {conn}\<rparr>) else None)"

definition handler_step :: "serving \<Rightarrow> serving \<Rightarrow> bool" where
  "handler_step g g' \<longleftrightarrow> (\<exists>conn. sg_depart conn g = Some g' \<or> sg_forget conn g = Some g' \<or> sg_finish conn g = Some g')"

definition unused :: "nat \<Rightarrow> serving \<Rightarrow> bool" where
  "unused conn g \<longleftrightarrow> fresh conn (sg_srv g) \<and> conn \<notin> set (sg_ending g)"

inductive sg_step :: "in_config \<Rightarrow> serving \<Rightarrow> serving \<Rightarrow> bool" for cfg where
  cancel: "sg_step cfg g (g\<lparr>sg_cancelled := True\<rparr>)"
| close_listener: "sg_cancelled g \<Longrightarrow> sg_step cfg g (g\<lparr>sg_listening := False\<rparr>)"
| close_conns: "sg_cancelled g \<Longrightarrow> \<not> sg_listening g \<Longrightarrow> sg_step cfg g (close_all g)"
| accept: "sg_phase g = Accepting \<Longrightarrow> unused conn g \<Longrightarrow> sg_step cfg g (sg_accept cfg now host conn g)"
| fail: "sg_phase g = Accepting \<Longrightarrow>
    sg_step cfg g (g\<lparr>sg_phase := Unwinding (if sg_cancelled g then None else Some err)\<rparr>)"
| unwind: "sg_phase g = Unwinding r \<Longrightarrow>
    sg_step cfg g (g\<lparr>sg_cancelled := True, sg_listening := False, sg_phase := Closing r\<rparr>)"
| closing: "sg_phase g = Closing r \<Longrightarrow> sg_step cfg g ((close_all g)\<lparr>sg_phase := Waiting r\<rparr>)"
| handler: "handler_step g g' \<Longrightarrow> sg_step cfg g g'"
| return: "sg_phase g = Waiting r \<Longrightarrow> tracked (sg_srv g) = [] \<Longrightarrow> sg_ending g = [] \<Longrightarrow>
    sg_step cfg g (g\<lparr>sg_phase := Returned r, sg_srv := Serve_end (sg_srv g)\<rparr>)"

inductive sg_reach :: "in_config \<Rightarrow> serving \<Rightarrow> serving \<Rightarrow> bool" for cfg g0 where
  start: "sg_reach cfg g0 g0"
| step: "sg_reach cfg g0 g \<Longrightarrow> sg_step cfg g g' \<Longrightarrow> sg_reach cfg g0 g'"

definition serve_start :: "bool \<Rightarrow> in_server \<Rightarrow> serving" where
  "serve_start cancelled s =
     \<lparr>sg_srv = s, sg_cancelled = cancelled, sg_listening = True, sg_phase = Accepting, sg_ending = [], sg_open = {}\<rparr>"

section \<open>Invariant\<close>

definition left_loop :: "sv_phase \<Rightarrow> bool" where
  "left_loop ph \<longleftrightarrow> (\<exists>r. ph = Closing r \<or> ph = Waiting r \<or> ph = Returned r)"

definition sg_ok :: "in_config \<Rightarrow> serving \<Rightarrow> bool" where
  "sg_ok cfg g \<longleftrightarrow> peers_ok cfg (sg_srv g) \<and> distinct (sg_ending g) \<and>
     fst ` set (tracked (sg_srv g)) \<inter> set (sg_ending g) = {} \<and>
     sg_open g \<subseteq> fst ` set (tracked (sg_srv g)) \<union> set (sg_ending g) \<and>
     (left_loop (sg_phase g) \<longrightarrow> sg_cancelled g \<and> \<not> sg_listening g) \<and>
     (\<forall>r. sg_phase g = Waiting r \<longrightarrow> sg_open g \<inter> conn_ids (sg_srv g) = {}) \<and>
     (\<forall>r. sg_phase g = Returned r \<longrightarrow> tracked (sg_srv g) = [] \<and> sg_ending g = [] \<and> \<not> sr_serving (sg_srv g)) \<and>
     (sg_phase g = Unwinding None \<longrightarrow> sg_cancelled g)"

lemma sg_accept_cases:
  obtains (no) srv where "admit cfg (\<not> sg_cancelled g) now host conn (sg_srv g) = (False, srv)" "sg_accept cfg now host conn g = g\<lparr>sg_srv := srv\<rparr>"
  | (yes) srv where "admit cfg (\<not> sg_cancelled g) now host conn (sg_srv g) = (True, srv)" "\<not> sg_cancelled g"
      "sg_accept cfg now host conn g = g\<lparr>sg_srv := srv, sg_open := insert conn (sg_open g)\<rparr>"
proof (cases "admit cfg (\<not> sg_cancelled g) now host conn (sg_srv g)")
  case (Pair ok srv)
  have "\<not> sg_cancelled g" if ok using Pair that by (auto simp: admit_def Let_def split: option.splits if_splits)
  then show thesis using that Pair by (cases ok) (auto simp: sg_accept_def)
qed

lemma admit_tracked:
  "admit cfg live now host conn s = (False, s') \<Longrightarrow> tracked s' = tracked s"
  "admit cfg live now host conn s = (True, s') \<Longrightarrow> tracked s' = (conn, host) # tracked s"
  by (auto simp: admit_def tracked_def Let_def split: option.splits if_splits)

lemma depart_ids:
  assumes "peers_ok cfg s"
  shows "set (tracked (depart c s)) = set (tracked s)" "conn_ids (depart c s) \<subseteq> conn_ids s"
proof -
  have "distinct (map fst (sr_conns s))" using assms by (simp add: peers_ok_def tracked_def)
  then show "set (tracked (depart c s)) = set (tracked s)" using depart_tracked by (metis set_mset_mset)
  show "conn_ids (depart c s) \<subseteq> conn_ids s" by (auto simp: depart_def conn_ids_def split: option.splits)
qed

lemma forget_ids:
  assumes "peers_ok cfg s" "c \<in> fst ` set (sr_leaving s)"
  shows "fst ` set (tracked (forget c s)) = fst ` set (tracked s) - {c}" "sr_conns (forget c s) = sr_conns s"
    "sr_leaving (forget c s) = filter (\<lambda>(d, _). d \<noteq> c) (sr_leaving s)"
proof -
  obtain h where h: "map_of (sr_leaving s) c = Some h" using assms(2) by (metis map_of_eq_None_iff not_Some_eq)
  then show conns: "sr_conns (forget c s) = sr_conns s"
    and leaving: "sr_leaving (forget c s) = filter (\<lambda>(d, _). d \<noteq> c) (sr_leaving s)"
    by (simp_all add: forget_def)
  have "c \<notin> fst ` set (sr_conns s)" using assms by (auto simp: peers_ok_def tracked_def)
  then show "fst ` set (tracked (forget c s)) = fst ` set (tracked s) - {c}" by (force simp: tracked_def conns leaving)
qed

lemma handler_cases [consumes 1, case_names dep forg fin]:
  assumes "handler_step g g'"
  obtains (dep) c where "c \<in> conn_ids (sg_srv g)" "g' = g\<lparr>sg_srv := depart c (sg_srv g)\<rparr>"
    | (forg) c where "c \<in> fst ` set (sr_leaving (sg_srv g))" "g' = g\<lparr>sg_srv := forget c (sg_srv g), sg_ending := c # sg_ending g\<rparr>"
    | (fin) c where "c \<in> set (sg_ending g)" "g' = g\<lparr>sg_ending := remove1 c (sg_ending g), sg_open := sg_open g - {c}\<rparr>"
  using assms by (auto simp: handler_step_def sg_depart_def sg_forget_def sg_finish_def split: if_splits)

lemma handler_frame:
  assumes "handler_step g g'"
  shows "sg_phase g' = sg_phase g \<and> sg_cancelled g' = sg_cancelled g \<and> sg_listening g' = sg_listening g \<and>
    sr_serving (sg_srv g') = sr_serving (sg_srv g)"
  using assms
  by (auto simp: handler_step_def sg_depart_def sg_forget_def sg_finish_def depart_def forget_def split: if_splits option.splits)

lemma handler_ok:
  assumes ok: "sg_ok cfg g" and st: "handler_step g g'"
  shows "sg_ok cfg g'"
proof -
  have pe: "peers_ok cfg (sg_srv g)" using ok by (simp add: sg_ok_def)
  show ?thesis
    using st
  proof (cases rule: handler_cases)
    case (dep c)
    have "tracked (sg_srv g) \<noteq> []" using dep(1) by (auto simp: conn_ids_def tracked_def)
    then show ?thesis using ok dep depart_ok [OF pe, of c] depart_ids [OF pe, of c] by (auto simp: sg_ok_def)
  next
    case (forg c)
    have "c \<in> fst ` set (tracked (sg_srv g))" using forg(1) by (auto simp: tracked_def)
    then show ?thesis using ok forg forget_ok [OF pe, of c] forget_ids [OF pe forg(1)] by (auto simp: sg_ok_def conn_ids_def)
  next
    case (fin c)
    then show ?thesis using ok by (auto simp: sg_ok_def)
  qed
qed

lemma accept_ok:
  assumes ok: "sg_ok cfg g" and lim: "limits_pos cfg" and ph: "sg_phase g = Accepting" and new: "unused conn g"
  shows "sg_ok cfg (sg_accept cfg now host conn g)"
proof (cases rule: sg_accept_cases [of cfg g now host conn])
  case (no srv)
  have "peers_ok cfg srv" using admit_ok [OF _ lim _ no(1)] ok new by (simp add: sg_ok_def unused_def)
  then show ?thesis using ok ph no admit_tracked(1) [OF no(1)] by (simp add: sg_ok_def left_loop_def)
next
  case (yes srv)
  have "peers_ok cfg srv" using admit_ok [OF _ lim _ yes(1)] ok new by (simp add: sg_ok_def unused_def)
  then show ?thesis using ok ph new yes(2,3) admit_tracked(2) [OF yes(1)]
    by (auto simp: sg_ok_def left_loop_def unused_def)
qed

lemma tracked_Serve_end [simp]: "tracked (Serve_end s) = tracked s" "sr_serving (Serve_end s) = False" "sr_peers (Serve_end s) = sr_peers s"
  by (simp_all add: Serve_end_def tracked_def)

lemma peers_ok_Serve_end: "peers_ok cfg s \<Longrightarrow> peers_ok cfg (Serve_end s)"
  by (simp add: peers_ok_def Serve_end_def tracked_def)

lemma sg_step_ok:
  assumes "sg_step cfg g g'" "sg_ok cfg g" "limits_pos cfg"
  shows "sg_ok cfg g'"
  using assms
proof (cases rule: sg_step.cases)
  case (accept conn now host)
  then show ?thesis using accept_ok assms(2,3) by simp
next
  case handler
  then show ?thesis using handler_ok assms(2) by simp
next
  case (return r)
  then show ?thesis using assms(2) by (auto simp: sg_ok_def left_loop_def peers_ok_Serve_end)
qed (auto simp: sg_ok_def left_loop_def close_all_def)

lemma sg_reach_ok:
  assumes "sg_reach cfg g0 g" "sg_ok cfg g0" "limits_pos cfg"
  shows "sg_ok cfg g"
  using assms by (induction rule: sg_reach.induct) (auto intro: sg_step_ok)

section \<open>Progress\<close>

definition sg_work :: "serving \<Rightarrow> nat" where
  "sg_work g = 3 * length (sr_conns (sg_srv g)) + 2 * length (sr_leaving (sg_srv g)) + length (sg_ending g)"

lemma filter_key_less: "c \<in> fst ` set xs \<Longrightarrow> length (filter (\<lambda>(d, _). d \<noteq> c) xs) < length xs"
proof -
  assume "c \<in> fst ` set xs"
  then obtain b where "(c, b) \<in> set xs" by auto
  then show ?thesis using length_filter_less [of "(c, b)" xs "\<lambda>(d, _). d \<noteq> c"] by simp
qed

lemma handler_work:
  assumes "handler_step g g'" "sg_ok cfg g"
  shows "sg_work g' < sg_work g"
proof -
  have pe: "peers_ok cfg (sg_srv g)" using assms(2) by (simp add: sg_ok_def)
  show ?thesis
    using assms(1)
  proof (cases rule: handler_cases)
    case (dep c)
    then obtain h where "map_of (sr_conns (sg_srv g)) c = Some h"
      by (metis conn_ids_def map_of_eq_None_iff not_Some_eq)
    then show ?thesis using dep filter_key_less [of c "sr_conns (sg_srv g)"] by (simp add: sg_work_def depart_def conn_ids_def)
  next
    case (forg c)
    then show ?thesis using forget_ids [OF pe forg(1)] filter_key_less [of c "sr_leaving (sg_srv g)"] by (simp add: sg_work_def)
  next
    case (fin c)
    then show ?thesis using length_pos_if_in_set [of c "sg_ending g"] by (auto simp: sg_work_def length_remove1)
  qed
qed

lemma handler_progress:
  assumes "sg_work g \<noteq> 0"
  shows "\<exists>g'. handler_step g g'"
proof -
  consider (conns) x xs where "sr_conns (sg_srv g) = x # xs" | (leaving) x xs where "sr_leaving (sg_srv g) = x # xs"
    | (ending) x xs where "sg_ending g = x # xs"
    using assms by (cases "sr_conns (sg_srv g)"; cases "sr_leaving (sg_srv g)"; cases "sg_ending g") (auto simp: sg_work_def)
  then show ?thesis
  proof cases
    case conns
    then have "sg_depart (fst x) g = Some (g\<lparr>sg_srv := depart (fst x) (sg_srv g)\<rparr>)" by (simp add: sg_depart_def conn_ids_def)
    then show ?thesis by (auto simp: handler_step_def)
  next
    case leaving
    then have "sg_forget (fst x) g \<noteq> None" by (simp add: sg_forget_def)
    then show ?thesis by (auto simp: handler_step_def)
  next
    case ending
    then have "sg_finish x g \<noteq> None" by (simp add: sg_finish_def)
    then show ?thesis by (auto simp: handler_step_def)
  qed
qed

section \<open>Properties\<close>

text \<open>
  C23: \<open>Serve\<close> ends cleanly. However connections come and go and whenever the context ends: once the accept loop
  has been left, the context is cancelled and the listener closed; while \<open>Serve\<close> waits for its handlers, the connection of each
  that still runs its session has been closed, each step of a handler brings the end nearer, and
  when no handler is left \<open>Serve\<close> returns; when it has returned, no connection is open, no place is taken, no
  peer counts as active, and \<open>Serve\<close> can be called again.
\<close>

theorem serve_ends:
  assumes "in_New p hb c = Inr cfg" "Serve_begin True in_server_new = Inr s0" "sg_reach cfg (serve_start cancelled s0) g"
  shows "(left_loop (sg_phase g) \<longrightarrow> sg_cancelled g \<and> \<not> sg_listening g) \<and>
    (\<forall>r. sg_phase g = Waiting r \<longrightarrow>
       (\<forall>conn \<in> conn_ids (sg_srv g). conn \<notin> sg_open g) \<and>
       (if sg_work g = 0 then \<exists>g'. sg_step cfg g g' \<and> sg_phase g' = Returned r
        else (\<exists>g'. handler_step g g') \<and> (\<forall>g'. handler_step g g' \<longrightarrow> sg_phase g' = Waiting r \<and> sg_work g' < sg_work g))) \<and>
    (\<forall>r. sg_phase g = Returned r \<longrightarrow>
       sg_open g = {} \<and> sr_conns (sg_srv g) = [] \<and> (\<forall>(h, q) \<in> set (sr_peers (sg_srv g)). pr_active q = 0) \<and>
       Serve_begin True (sg_srv g) \<noteq> Inl (TextError ''inbound: already serving''))"
proof -
  have lim: "limits_pos cfg" using in_New_limits [OF assms(1)] .
  have "peers_ok cfg s0" using new_peers_ok [OF lim] assms(2)
    by (auto simp: Serve_begin_def in_server_new_def peers_ok_def tracked_def)
  moreover have "tracked s0 = []" using assms(2) by (auto simp: Serve_begin_def in_server_new_def tracked_def)
  ultimately have "sg_ok cfg (serve_start cancelled s0)" by (simp add: sg_ok_def serve_start_def left_loop_def)
  then have ok: "sg_ok cfg g" using sg_reach_ok [OF assms(3) _ lim] by blast
  have ret: "\<exists>g'. sg_step cfg g g' \<and> sg_phase g' = Returned r" if "sg_work g = 0" "sg_phase g = Waiting r" for r
  proof -
    have "tracked (sg_srv g) = []" "sg_ending g = []" using that(1) by (simp_all add: sg_work_def tracked_def)
    then show ?thesis using sg_step.return [OF that(2), of cfg] by force
  qed
  have returned: "sg_open g = {} \<and> sr_conns (sg_srv g) = [] \<and> (\<forall>(h, q) \<in> set (sr_peers (sg_srv g)). pr_active q = 0) \<and>
       Serve_begin True (sg_srv g) \<noteq> Inl (TextError ''inbound: already serving'')" if "sg_phase g = Returned r" for r
  proof -
    have t: "tracked (sg_srv g) = []" "sg_ending g = []" "\<not> sr_serving (sg_srv g)" "peers_ok cfg (sg_srv g)" "sg_open g = {}"
      using ok that by (auto simp: sg_ok_def)
    then have "\<forall>(h, q) \<in> set (sr_peers (sg_srv g)). pr_active q = 0" by (auto simp: peers_ok_def on_host_def)
    then show ?thesis using t by (simp add: tracked_def Serve_begin_def)
  qed
  show ?thesis
    using ok ret returned handler_progress [of g] handler_work [OF _ ok] handler_frame [of g]
    by (auto simp: sg_ok_def)
qed

text \<open>One connection is served; then the context ends while it is still open.\<close>

theorem serve_ends_witness:
  "\<exists>g. sg_reach (case in_New (\<lambda>_. None) True small_limits of Inr cfg \<Rightarrow> cfg | Inl _ \<Rightarrow> small_limits)
      (serve_start False (in_server_new\<lparr>sr_serving := True\<rparr>)) g \<and>
     sg_phase g = Waiting None \<and> conn_ids (sg_srv g) = {7} \<and> sg_open g = {}"
proof -
  let ?cfg = "case in_New (\<lambda>_. None) True small_limits of Inr cfg \<Rightarrow> cfg | Inl _ \<Rightarrow> small_limits"
  let ?g0 = "serve_start False (in_server_new\<lparr>sr_serving := True\<rparr>)"
  define g1 where "g1 = sg_accept ?cfg 0 ''a'' 7 ?g0"
  have g1: "sg_phase g1 = Accepting" "conn_ids (sg_srv g1) = {7}" unfolding g1_def by code_simp+
  let ?g2 = "g1\<lparr>sg_cancelled := True\<rparr>"
  let ?g3 = "?g2\<lparr>sg_phase := Unwinding None\<rparr>"
  let ?g4 = "?g3\<lparr>sg_cancelled := True, sg_listening := False, sg_phase := Closing None\<rparr>"
  let ?g5 = "(close_all ?g4)\<lparr>sg_phase := Waiting None\<rparr>"
  have "sg_step ?cfg ?g0 g1" unfolding g1_def
    by (rule sg_step.accept) (simp_all add: serve_start_def unused_def fresh_def tracked_def in_server_new_def)
  moreover have "sg_step ?cfg g1 ?g2" by (rule sg_step.cancel)
  moreover have "sg_step ?cfg ?g2 ?g3" using sg_step.fail [of ?g2 ?cfg Canceled] g1(1) by simp
  moreover have "sg_step ?cfg ?g3 ?g4" by (rule sg_step.unwind) simp
  moreover have "sg_step ?cfg ?g4 ?g5" by (rule sg_step.closing) simp
  ultimately have reach: "sg_reach ?cfg ?g0 ?g5" by (meson sg_reach.start sg_reach.step)
  have b: "Serve_begin True in_server_new = Inr (in_server_new\<lparr>sr_serving := True\<rparr>)"
    by (simp add: Serve_begin_def in_server_new_def)
  have "\<forall>conn \<in> conn_ids (sg_srv ?g5). conn \<notin> sg_open ?g5"
    using serve_ends [OF small_New b reach] by simp
  moreover have "conn_ids (sg_srv ?g5) = {7}" using g1(2) by (simp add: close_all_def)
  moreover have "sg_open ?g5 \<subseteq> {7}" unfolding g1_def by code_simp
  ultimately show ?thesis using reach by (intro exI [of _ ?g5]) auto
qed

end
