(* ===== verification/MailAuth.thy ===== *)
theory MailAuth
  imports PluginAPI RateLimit
begin

text \<open>
  The plugins that check where a message comes from: SPF (\<open>internal/plugins/spf\<close>), DKIM
  (\<open>internal/plugins/dkim\<close>) and DMARC (\<open>internal/plugins/dmarc\<close>). Lookups, the DKIM verifier and
  the parsers of package \<open>net/mail\<close> are arguments. A hook gets the context by value: the values
  it adds with \<open>context.WithValue\<close> stay in its own variable and are gone when it returns.
\<close>

section \<open>SPF\<close>

definition getClientIP :: "SessionInfo \<Rightarrow> 8 word list option" where
  "getClientIP session =
     (case si_RemoteAddr session of
        None \<Rightarrow> None
      | Some (TCPAddr ip _) \<Rightarrow> ip
      | Some (IPAddr ip _) \<Rightarrow> ip
      | Some (OtherAddr _) \<Rightarrow> None)"

text \<open>A term of a record: its qualifier and its mechanism.\<close>

definition spf_term :: "string \<Rightarrow> SPFResult \<times> string" where
  "spf_term part =
     (if hd part = CHR ''+'' then (Pass, tl part)
      else if hd part = CHR ''-'' then (Fail, tl part)
      else if hd part = CHR ''~'' then (SoftFail, tl part)
      else if hd part = CHR ''?'' then (Neutral, tl part)
      else (Pass, part))"

fun spf_eval :: "(string \<Rightarrow> go_error + IPNet) \<Rightarrow> 8 word list \<Rightarrow> string list \<Rightarrow> SPFResult" where
  "spf_eval parseCIDR clientIP [] = Neutral"
| "spf_eval parseCIDR clientIP (part # parts) =
     (let (qualifier, mechanism) = spf_term part in
      if HasPrefix mechanism ''ip4:'' then
        (case parseCIDR (TrimPrefix mechanism ''ip4:'') of
           Inl _ \<Rightarrow> PermError
         | Inr ipNet \<Rightarrow> if To4 clientIP \<noteq> None \<and> ipnet_Contains ipNet clientIP then qualifier
                       else spf_eval parseCIDR clientIP parts)
      else if HasPrefix mechanism ''ip6:'' then
        (case parseCIDR (TrimPrefix mechanism ''ip6:'') of
           Inl _ \<Rightarrow> PermError
         | Inr ipNet \<Rightarrow> if length clientIP \<in> {4, 16} \<and> To4 clientIP = None \<and> ipnet_Contains ipNet clientIP then qualifier
                       else spf_eval parseCIDR clientIP parts)
      else if mechanism = ''all'' then qualifier
      else spf_eval parseCIDR clientIP parts)"

definition spf_parts :: "string \<Rightarrow> string list" where
  "spf_parts record = Fields (TrimPrefix (ToLower record) ''v=spf1 '')"

definition evaluateSPF :: "(string \<Rightarrow> go_error + IPNet) \<Rightarrow> string \<Rightarrow> 8 word list \<Rightarrow> SPFResult" where
  "evaluateSPF parseCIDR record clientIP = spf_eval parseCIDR clientIP (spf_parts record)"

definition spf_lookup_error :: "go_error \<Rightarrow> SPFResult \<times> go_error option" where
  "spf_lookup_error err =
     (if is_DNSError err then
        (if IsNotFound err then (NoneResult, None)
         else if IsTimeout err
         then (TempError, Some (NewError 451 ''4.3.2'' ''Temporary error: DNS lookup timeout during SPF check''))
         else if IsTemporary err
         then (TempError, Some (NewError 451 ''4.3.0'' ''Temporary error: Cannot resolve SPF record''))
         else (TempError, Some (NewError 451 ''4.3.0'' ''Temporary error: SPF record lookup issue'')))
      else (PermError, Some (NewError 451 ''4.3.0'' ''Temporary error: Cannot resolve SPF record'')))"

definition spf_verdict :: "SPFResult \<Rightarrow> go_error option" where
  "spf_verdict r =
     (case r of
        Fail \<Rightarrow> Some (NewError 550 ''5.7.23'' ''Message rejected due to SPF policy'')
      | TempError \<Rightarrow> Some (NewError 451 ''4.4.3'' ''Temporary error during SPF evaluation'')
      | PermError \<Rightarrow> Some (NewError 550 ''5.5.2'' ''Permanent error evaluating SPF policy'')
      | _ \<Rightarrow> None)"

definition spf_records :: "string list \<Rightarrow> string list" where
  "spf_records = filter (\<lambda>record. HasPrefix (ToLower record) ''v=spf1'')"

text \<open>The whole check: the result that the hook stores in its context, and the error it returns.\<close>

definition spf_check ::
  "(string \<Rightarrow> go_error + IPNet) \<Rightarrow> (string \<Rightarrow> 'w \<Rightarrow> (go_error + string list) \<times> 'w) \<Rightarrow> SessionInfo \<Rightarrow> string \<Rightarrow> 'w \<Rightarrow>
     StoredSPFResult \<times> go_error option \<times> 'w" where
  "spf_check parseCIDR lookupTXT session from w =
     (case getClientIP session of
        None \<Rightarrow> (\<lparr>spf_Result = NoneResult, spf_Domain = []\<rparr>,
                  Some (NewError 451 ''4.3.0'' ''Temporary error: Could not determine client IP''), w)
      | Some clientIP \<Rightarrow>
          if from = ''<>'' then (\<lparr>spf_Result = NoneResult, spf_Domain = []\<rparr>, None, w)
          else (case Split from (CHR ''@'') of
            [_, domain] \<Rightarrow>
              if domain = []
              then (\<lparr>spf_Result = PermError, spf_Domain = []\<rparr>, Some (NewError 553 ''5.1.7'' ''Sender address format invalid''), w)
              else (case lookupTXT domain w of
                (Inl err, w1) \<Rightarrow>
                  (let (r, e) = spf_lookup_error err in (\<lparr>spf_Result = r, spf_Domain = domain\<rparr>, e, w1))
              | (Inr txtRecords, w1) \<Rightarrow>
                  (case spf_records txtRecords of
                     [] \<Rightarrow> (\<lparr>spf_Result = NoneResult, spf_Domain = domain\<rparr>, None, w1)
                   | [record] \<Rightarrow>
                       (let r = evaluateSPF parseCIDR record clientIP
                        in (\<lparr>spf_Result = r, spf_Domain = domain\<rparr>, spf_verdict r, w1))
                   | _ \<Rightarrow> (\<lparr>spf_Result = PermError, spf_Domain = domain\<rparr>,
                            Some (NewError 451 ''4.3.0'' ''Temporary error: Multiple SPF records found''), w1)))
          | _ \<Rightarrow> (\<lparr>spf_Result = PermError, spf_Domain = []\<rparr>, Some (NewError 553 ''5.1.7'' ''Sender address format invalid''), w)))"

definition spf_OnMailFrom ::
  "(string \<Rightarrow> go_error + IPNet) \<Rightarrow> (string \<Rightarrow> 'w \<Rightarrow> (go_error + string list) \<times> 'w) \<Rightarrow> ctx \<Rightarrow> SessionInfo \<Rightarrow> string \<Rightarrow> 'w \<Rightarrow>
     go_error option \<times> 'w" where
  "spf_OnMailFrom parseCIDR lookupTXT c session from w =
     (let (stored, err, w1) = spf_check parseCIDR lookupTXT session from w;
          localCtx = WithValue c SPFResultKey (SPFVal stored)
      in (err, w1))"

definition SPFChecker ::
  "(string \<Rightarrow> go_error + IPNet) \<Rightarrow> (string \<Rightarrow> 'w \<Rightarrow> (go_error + string list) \<times> 'w) \<Rightarrow> 'w plugin" where
  "SPFChecker parseCIDR lookupTXT =
     BasePlugin\<lparr>pl_Name := ''SPF Checker'', OnMailFrom := spf_OnMailFrom parseCIDR lookupTXT\<rparr>"

section \<open>DKIM\<close>

text \<open>
  \<open>isTempFail\<close> and \<open>isPermFail\<close> are the tests of the DKIM library; \<open>verifyFn\<close> its verifier. The
  results it stores have that library's type.
\<close>

definition dkim_check ::
  "(go_error \<Rightarrow> bool) \<Rightarrow> (go_error \<Rightarrow> bool) \<Rightarrow> (string \<Rightarrow> go_error + Verification list) \<Rightarrow> string \<Rightarrow>
     Verification list option \<times> go_error option" where
  "dkim_check isTempFail isPermFail verifyFn dat =
     (case verifyFn dat of
        Inl err \<Rightarrow>
          (None, Some (NewError 451 ''4.7.0'' ((if isTempFail err then ''Temporary DKIM processing error: '' else ''DKIM processing error: '') @ err_Error err)))
      | Inr verifications \<Rightarrow>
          (Some verifications,
           if verifications = [] \<or> list_ex (\<lambda>v. v_Err v = None) verifications then None
           else (let firstError = the (v_Err (hd verifications)) in
                 if isPermFail firstError
                 then Some (NewError 550 ''5.7.24'' (''DKIM check failed (permanent): '' @ err_Error firstError))
                 else Some (NewError 451 ''4.7.0'' (''DKIM check failed (temporary): '' @ err_Error firstError)))))"

definition dkim_OnMessage ::
  "(go_error \<Rightarrow> bool) \<Rightarrow> (go_error \<Rightarrow> bool) \<Rightarrow> (string \<Rightarrow> go_error + Verification list) \<Rightarrow> ctx \<Rightarrow> SessionInfo \<Rightarrow> MessageInfo \<Rightarrow> 'w \<Rightarrow>
     go_error option \<times> 'w" where
  "dkim_OnMessage isTempFail isPermFail verifyFn c session m w =
     (let (stored, err) = dkim_check isTempFail isPermFail verifyFn (mi_Data m);
          localCtx = (case stored of None \<Rightarrow> c | Some vs \<Rightarrow> WithValue c DKIMResultsKey (MsgauthVerifications vs))
      in (err, w))"

definition DKIMVerifier where
  "DKIMVerifier isTempFail isPermFail verifyFn =
     BasePlugin\<lparr>pl_Name := ''DKIM Verifier'', OnMessage := dkim_OnMessage isTempFail isPermFail verifyFn\<rparr>"

section \<open>DMARC\<close>

record dmarcRecord =
  dm_Policy :: string
  dm_SubdomainPolicy :: string
  dm_SPFAlignment :: string
  dm_DKIMAlignment :: string

definition dmarc_tag :: "string \<Rightarrow> dmarcRecord \<Rightarrow> dmarcRecord" where
  "dmarc_tag part0 policy =
     (let part = TrimSpace part0 in
      if part = [] then policy
      else (case SplitN part (CHR ''='') 2 of
        [k, v] \<Rightarrow>
          (let key = ToLower (TrimSpace k); val = ToLower (TrimSpace v) in
           if key = ''p'' then policy\<lparr>dm_Policy := val\<rparr>
           else if key = ''sp'' then policy\<lparr>dm_SubdomainPolicy := val\<rparr>
           else if key = ''aspf'' then policy\<lparr>dm_SPFAlignment := val\<rparr>
           else if key = ''adkim'' then policy\<lparr>dm_DKIMAlignment := val\<rparr>
           else policy)
      | _ \<Rightarrow> policy))"

definition parseDMARCRecord :: "string \<Rightarrow> dmarcRecord" where
  "parseDMARCRecord record =
     fold dmarc_tag (Split record (CHR '';''))
       \<lparr>dm_Policy = ''none'', dm_SubdomainPolicy = [], dm_SPFAlignment = ''r'', dm_DKIMAlignment = ''r''\<rparr>"

definition lookupDMARC ::
  "(string \<Rightarrow> 'w \<Rightarrow> (go_error + string list) \<times> 'w) \<Rightarrow> string \<Rightarrow> 'w \<Rightarrow> (go_error + dmarcRecord option) \<times> 'w" where
  "lookupDMARC lookupTXT domain w =
     (case lookupTXT (''_dmarc.'' @ domain) w of
        (Inl err, w1) \<Rightarrow> (Inl err, w1)
      | (Inr txtRecords, w1) \<Rightarrow>
          (Inr (map_option parseDMARCRecord (List.find (\<lambda>record. HasPrefix (ToLower record) ''v=dmarc1'') txtRecords)), w1))"

definition aligned :: "string \<Rightarrow> string \<Rightarrow> string \<Rightarrow> bool" where
  "aligned domain fromDomain alignment =
     (if alignment = ''s'' then EqualFold domain fromDomain
      else EqualFold domain fromDomain \<or> HasSuffix (ToLower domain) (''.'' @ ToLower fromDomain))"

definition checkSPFAlignment :: "SPFResult \<Rightarrow> string \<Rightarrow> string \<Rightarrow> string \<Rightarrow> bool" where
  "checkSPFAlignment result spfDomain fromDomain alignment =
     (if result \<noteq> Pass then False
      else if spfDomain = [] \<or> fromDomain = [] then False
      else aligned spfDomain fromDomain alignment)"

definition checkDKIMAlignment :: "Verification list \<Rightarrow> string \<Rightarrow> string \<Rightarrow> bool" where
  "checkDKIMAlignment results fromDomain alignment =
     (if fromDomain = [] then False
      else list_ex (\<lambda>v. v_Err v = None \<and> v_Domain v \<noteq> [] \<and> aligned (v_Domain v) fromDomain alignment) results)"

record mail_lib =
  ml_ReadMessage :: "string \<Rightarrow> go_error + (string \<Rightarrow> string)"
  ml_ParseAddressList :: "string \<Rightarrow> go_error + string list"
  ml_ParseAddress :: "string \<Rightarrow> go_error + string"

definition parseFromHeader :: "mail_lib \<Rightarrow> string \<Rightarrow> go_error + string" where
  "parseFromHeader ml dat =
     (case ml_ReadMessage ml dat of
        Inl err \<Rightarrow> Inl (Wrapped ''failed to read message headers: '' err [])
      | Inr get \<Rightarrow>
          (let v = get ''From'' in
           if v = [] then Inl (TextError ''no From header found'')
           else (case ml_ParseAddressList ml v of
             Inr (a # _) \<Rightarrow> Inr a
           | listRes \<Rightarrow>
               (case ml_ParseAddress ml v of
                  Inl errSimple \<Rightarrow>
                    Inl (Wrapped (''failed to parse From header value '' @ [CHR 0x27] @ v @ [CHR 0x27] @ '': '') errSimple
                      ('' (list err: '' @ (case listRes of Inl e \<Rightarrow> err_Error e | Inr _ \<Rightarrow> ''<nil>'') @ '')''))
                | Inr a \<Rightarrow> Inr a))))"

record DMARCEvent =
  ev_Timestamp :: time
  ev_SourceIP :: string
  ev_EnvelopeFrom :: string
  ev_HeaderFrom :: string
  ev_PolicyDomain :: string
  ev_Disposition :: string
  ev_DKIMResult :: string
  ev_SPFResult :: string
  ev_Policy :: string
  ev_SubdomainPolicy :: string
  ev_Reason :: string

text \<open>The event that the deferred function records: of its variables only \<open>fromDomain\<close> is ever assigned.\<close>

definition dmarc_event :: "time \<Rightarrow> SessionInfo \<Rightarrow> MessageInfo \<Rightarrow> string \<Rightarrow> DMARCEvent" where
  "dmarc_event now session m fromDomain =
     \<lparr>ev_Timestamp = now,
      ev_SourceIP = (case si_RemoteAddr session of None \<Rightarrow> [] | Some a \<Rightarrow> addr_String a),
      ev_EnvelopeFrom = mi_From m, ev_HeaderFrom = [], ev_PolicyDomain = fromDomain, ev_Disposition = ''none'',
      ev_DKIMResult = ''fail'', ev_SPFResult = ''none'', ev_Policy = [], ev_SubdomainPolicy = [], ev_Reason = []\<rparr>"

text \<open>The decision of \<open>OnMessage\<close>: the domain of the From header, and the error.\<close>

definition dmarc_decide ::
  "mail_lib \<Rightarrow> (string \<Rightarrow> 'w \<Rightarrow> (go_error + string list) \<times> 'w) \<Rightarrow> ctx \<Rightarrow> string \<Rightarrow> 'w \<Rightarrow> string \<times> go_error option \<times> 'w" where
  "dmarc_decide ml lookupTXT c dat w =
     (case parseFromHeader ml dat of
        Inl _ \<Rightarrow> ([], Some (NewError 451 ''4.6.0'' ''Error processing message headers for DMARC''), w)
      | Inr address \<Rightarrow>
          (let fromDomain = (case Split address (CHR ''@'') of [_, d] \<Rightarrow> d | _ \<Rightarrow> []) in
           if fromDomain = [] then (fromDomain, None, w)
           else
             (let spfData = (case ctx_Value c SPFResultKey of Some (SPFVal s) \<Rightarrow> s | _ \<Rightarrow> \<lparr>spf_Result = NoneResult, spf_Domain = []\<rparr>);
                  dkimResults = (case ctx_Value c DKIMResultsKey of Some (GoDkimVerifications vs) \<Rightarrow> vs | _ \<Rightarrow> [])
              in (case lookupDMARC lookupTXT fromDomain w of
                    (Inl err, w1) \<Rightarrow>
                      (fromDomain,
                       if is_DNSError err \<and> IsNotFound err then None
                       else if is_DNSError err \<and> (IsTimeout err \<or> IsTemporary err)
                       then Some (NewError 451 ''4.4.3'' ''Temporary error during DMARC DNS lookup'')
                       else Some (NewError 451 ''4.4.3'' ''Error resolving DMARC record''), w1)
                  | (Inr None, w1) \<Rightarrow> (fromDomain, None, w1)
                  | (Inr (Some policy), w1) \<Rightarrow>
                      (fromDomain,
                       if checkSPFAlignment (spf_Result spfData) (spf_Domain spfData) fromDomain (dm_SPFAlignment policy) \<or>
                          checkDKIMAlignment dkimResults fromDomain (dm_DKIMAlignment policy) then None
                       else if dm_Policy policy = ''reject''
                       then Some (NewError 550 ''5.7.26'' (''Message rejected due to DMARC policy for '' @ fromDomain))
                       else None, w1)))))"

text \<open>
  The world of the DMARC plugin: the clock, the event store of the process and whether the
  report scheduler has been started. A session without an address would panic in the deferred
  function; the server always sets one.
\<close>

record dmarc_world =
  dw_now :: time
  dw_Events :: "DMARCEvent list"
  dw_scheduler :: bool

definition AddEvent :: "DMARCEvent \<Rightarrow> dmarc_world \<Rightarrow> dmarc_world" where
  "AddEvent ev w = w\<lparr>dw_Events := dw_Events w @ [ev]\<rparr>"

definition dmarc_OnMessage ::
  "mail_lib \<Rightarrow> (string \<Rightarrow> dmarc_world \<Rightarrow> (go_error + string list) \<times> dmarc_world) \<Rightarrow> ctx \<Rightarrow> SessionInfo \<Rightarrow> MessageInfo \<Rightarrow>
     dmarc_world \<Rightarrow> go_error option \<times> dmarc_world" where
  "dmarc_OnMessage ml lookupTXT c session m w =
     (let (fromDomain, err, w1) = dmarc_decide ml lookupTXT c (mi_Data m) (w\<lparr>dw_scheduler := True\<rparr>)
      in (err, AddEvent (dmarc_event (dw_now w1) session m fromDomain) w1))"

definition DMARCChecker where
  "DMARCChecker ml lookupTXT = BasePlugin\<lparr>pl_Name := ''DMARC Checker'', OnMessage := dmarc_OnMessage ml lookupTXT\<rparr>"

section \<open>Properties of SPF\<close>

subsection \<open>What a record says, after the definition of SPF\<close>

text \<open>
  A term is a qualifier and a mechanism. The qualifier \<open>+\<close>, or none, stands for \<open>Pass\<close>, \<open>-\<close> for
  \<open>Fail\<close>, \<open>~\<close> for \<open>SoftFail\<close> and \<open>?\<close> for \<open>Neutral\<close>. \<open>all\<close> says it of every client; \<open>ip4:\<close> and \<open>ip6:\<close> say it
  of the clients of that family in the network that follows, and say \<open>PermError\<close> of everybody when
  that is not a network. Other terms say nothing.
\<close>

definition qualifiers :: "(string \<times> SPFResult) set" where
  "qualifiers = {([], Pass), (''+'', Pass), (''-'', Fail), (''~'', SoftFail), (''?'', Neutral)}"

inductive spf_says :: "(string \<Rightarrow> go_error + IPNet) \<Rightarrow> 8 word list \<Rightarrow> string \<Rightarrow> SPFResult \<Rightarrow> bool" for parseCIDR ip where
  everybody: "(q, r) \<in> qualifiers \<Longrightarrow> spf_says parseCIDR ip (q @ ''all'') r"
| in_net4: "(q, r) \<in> qualifiers \<Longrightarrow> parseCIDR net = Inr n \<Longrightarrow> To4 ip \<noteq> None \<Longrightarrow> ipnet_Contains n ip \<Longrightarrow>
     spf_says parseCIDR ip (q @ ''ip4:'' @ net) r"
| in_net6: "(q, r) \<in> qualifiers \<Longrightarrow> parseCIDR net = Inr n \<Longrightarrow> To4 ip = None \<Longrightarrow> length ip = 16 \<Longrightarrow> ipnet_Contains n ip \<Longrightarrow>
     spf_says parseCIDR ip (q @ ''ip6:'' @ net) r"
| bad_net4: "(q, r) \<in> qualifiers \<Longrightarrow> parseCIDR net = Inl err \<Longrightarrow> spf_says parseCIDR ip (q @ ''ip4:'' @ net) PermError"
| bad_net6: "(q, r) \<in> qualifiers \<Longrightarrow> parseCIDR net = Inl err \<Longrightarrow> spf_says parseCIDR ip (q @ ''ip6:'' @ net) PermError"

text \<open>The first term that says something decides.\<close>

definition first_says :: "(string \<Rightarrow> go_error + IPNet) \<Rightarrow> 8 word list \<Rightarrow> string list \<Rightarrow> SPFResult \<Rightarrow> bool" where
  "first_says parseCIDR ip parts r \<longleftrightarrow>
     (\<exists>us t vs. parts = us @ t # vs \<and> spf_says parseCIDR ip t r \<and> (\<forall>u \<in> set us. \<forall>r. \<not> spf_says parseCIDR ip u r))"

text \<open>
  The TXT records of a domain say \<open>r\<close> of a client: exactly one of them starts with v=spf1, in
  lower or upper case, and the first of its words that says something says \<open>r\<close>.
\<close>

definition domain_says :: "(string \<Rightarrow> go_error + IPNet) \<Rightarrow> 8 word list \<Rightarrow> string list \<Rightarrow> SPFResult \<Rightarrow> bool" where
  "domain_says parseCIDR ip txts r \<longleftrightarrow>
     (\<exists>xs record ys. txts = xs @ record # ys \<and> HasPrefix (ToLower record) ''v=spf1'' \<and>
        (\<forall>x \<in> set (xs @ ys). \<not> HasPrefix (ToLower x) ''v=spf1'') \<and> first_says parseCIDR ip (Fields (ToLower record)) r)"

text \<open>The address of a client, and a sender that is an address in a domain.\<close>

definition client_at :: "SessionInfo \<Rightarrow> 8 word list \<Rightarrow> bool" where
  "client_at session ip \<longleftrightarrow> (\<exists>s. si_RemoteAddr session = Some (TCPAddr (Some ip) s) \<or> si_RemoteAddr session = Some (IPAddr (Some ip) s))"

definition sender_in :: "string \<Rightarrow> string \<Rightarrow> bool" where
  "sender_in sender domain \<longleftrightarrow> (\<exists>user. sender = user @ ''@'' @ domain \<and> CHR ''@'' \<notin> set (user @ domain) \<and> domain \<noteq> [])"

subsection \<open>The evaluation\<close>

text \<open>What a single term makes the loop of \<open>evaluateSPF\<close> return, if anything.\<close>

definition term_result :: "(string \<Rightarrow> go_error + IPNet) \<Rightarrow> 8 word list \<Rightarrow> string \<Rightarrow> SPFResult option" where
  "term_result parseCIDR ip part =
     (let (qualifier, mechanism) = spf_term part;
          net = (\<lambda>prefix v4. case parseCIDR (TrimPrefix mechanism prefix) of
                   Inl _ \<Rightarrow> Some PermError
                 | Inr n \<Rightarrow> if (To4 ip \<noteq> None) = v4 \<and> length ip \<in> {4, 16} \<and> ipnet_Contains n ip
                           then Some qualifier else None)
      in if HasPrefix mechanism ''ip4:'' then net ''ip4:'' True
         else if HasPrefix mechanism ''ip6:'' then net ''ip6:'' False
         else if mechanism = ''all'' then Some qualifier else None)"

lemma To4_length: "To4 ip \<noteq> None \<Longrightarrow> length ip \<in> {4, 16}"
  by (auto simp: To4_def split: if_splits)

lemma To4_None: "To4 ip = None \<and> length ip \<in> {4, 16} \<longleftrightarrow> To4 ip = None \<and> length ip = 16"
  by (auto simp: To4_def)

lemma spf_eval_Cons:
  "spf_eval parseCIDR ip (part # parts) =
     (case term_result parseCIDR ip part of None \<Rightarrow> spf_eval parseCIDR ip parts | Some r \<Rightarrow> r)"
proof -
  obtain q m where t: "spf_term part = (q, m)" by (cases "spf_term part")
  have l: "To4 ip \<noteq> None \<and> length ip \<in> {4, 16} \<longleftrightarrow> To4 ip \<noteq> None" using To4_length [of ip] by blast
  consider "HasPrefix m ''ip4:''" | "\<not> HasPrefix m ''ip4:''" "HasPrefix m ''ip6:''"
    | "\<not> HasPrefix m ''ip4:''" "\<not> HasPrefix m ''ip6:''" by blast
  then show ?thesis
  proof cases
    case 1
    then show ?thesis using l by (cases "parseCIDR (TrimPrefix m ''ip4:'')") (auto simp: term_result_def t)
  next
    case 2
    then show ?thesis by (cases "parseCIDR (TrimPrefix m ''ip6:'')") (auto simp: term_result_def t)
  next
    case 3
    then show ?thesis by (simp add: term_result_def t)
  qed
qed

text \<open>The code takes a term apart as the definition puts it together.\<close>

lemma spf_term_qualifier:
  assumes "(q, r) \<in> qualifiers" "m \<noteq> []" "hd m \<notin> set ''+-~?''"
  shows "spf_term (q @ m) = (r, m)"
  using assms by (auto simp: qualifiers_def spf_term_def)

lemma spf_term_nets:
  "(q, r) \<in> qualifiers \<Longrightarrow> spf_term (q @ ''ip4:'' @ net) = (r, ''ip4:'' @ net)"
  "(q, r) \<in> qualifiers \<Longrightarrow> spf_term (q @ ''ip6:'' @ net) = (r, ''ip6:'' @ net)"
  by (rule spf_term_qualifier; simp)+

lemma spf_term_parts: "part \<noteq> [] \<Longrightarrow> spf_term part = (r, m) \<Longrightarrow> \<exists>q. (q, r) \<in> qualifiers \<and> part = q @ m"
  by (cases part) (auto simp: qualifiers_def spf_term_def split: if_splits)

lemma term_result_nets:
  "spf_term part = (v, ''ip4:'' @ net) \<Longrightarrow> term_result parseCIDR ip part =
     (case parseCIDR net of Inl _ \<Rightarrow> Some PermError | Inr n \<Rightarrow> if To4 ip \<noteq> None \<and> ipnet_Contains n ip then Some v else None)"
  "spf_term part = (v, ''ip6:'' @ net) \<Longrightarrow> term_result parseCIDR ip part =
     (case parseCIDR net of Inl _ \<Rightarrow> Some PermError | Inr n \<Rightarrow> if To4 ip = None \<and> length ip = 16 \<and> ipnet_Contains n ip then Some v else None)"
  using To4_length [of ip] To4_None [of ip]
  by (auto simp: term_result_def TrimPrefix_def HasPrefix_def split: sum.split)

lemma says_term_result: "spf_says parseCIDR ip part r \<Longrightarrow> term_result parseCIDR ip part = Some r"
proof (induction rule: spf_says.induct)
  case (everybody q r)
  then have "spf_term (q @ ''all'') = (r, ''all'')" by (rule spf_term_qualifier) simp_all
  then show ?case by (simp add: term_result_def HasPrefix_def)
next
  case (in_net4 q r net n)
  then show ?case using term_result_nets(1) [OF spf_term_nets(1) [OF in_net4(1)], of parseCIDR ip net] by simp
next
  case (in_net6 q r net n)
  then show ?case using term_result_nets(2) [OF spf_term_nets(2) [OF in_net6(1)], of parseCIDR ip net] by simp
next
  case (bad_net4 q r net err)
  then show ?case using term_result_nets(1) [OF spf_term_nets(1) [OF bad_net4(1)], of parseCIDR ip net] by simp
next
  case (bad_net6 q r net err)
  then show ?case using term_result_nets(2) [OF spf_term_nets(2) [OF bad_net6(1)], of parseCIDR ip net] by simp
qed

lemma term_result_says:
  assumes "term_result parseCIDR ip part = Some r"
  shows "spf_says parseCIDR ip part r"
proof -
  obtain v m where t: "spf_term part = (v, m)" by (cases "spf_term part")
  have "part \<noteq> []"
  proof
    assume "part = []"
    then have "m = []" using t by (auto simp: spf_term_def split: if_splits)
    then show False using assms t by (simp add: term_result_def HasPrefix_def)
  qed
  then obtain q where q: "(q, v) \<in> qualifiers" "part = q @ m" using spf_term_parts t by blast
  consider (four) net where "m = ''ip4:'' @ net" | (six) net where "m = ''ip6:'' @ net" | (every) "m = ''all''" "r = v"
    using assms t by (auto simp: term_result_def dest: HasPrefixE split: if_splits)
  then show ?thesis
  proof cases
    case four
    then have "spf_term part = (v, ''ip4:'' @ net)" using t by simp
    from term_result_nets(1) [OF this, of parseCIDR ip] show ?thesis
      using assms four q spf_says.intros(2,4) [OF q(1)] by (auto split: sum.splits if_splits)
  next
    case six
    then have "spf_term part = (v, ''ip6:'' @ net)" using t by simp
    from term_result_nets(2) [OF this, of parseCIDR ip] show ?thesis
      using assms six q spf_says.intros(3,5) [OF q(1)] by (auto split: sum.splits if_splits)
  next
    case every
    then show ?thesis using q spf_says.everybody by simp
  qed
qed

lemma spf_says_iff: "spf_says parseCIDR ip part r \<longleftrightarrow> term_result parseCIDR ip part = Some r"
  using says_term_result term_result_says by blast

lemma first_says_Cons:
  "first_says parseCIDR ip (p # ps) r \<longleftrightarrow>
     (case term_result parseCIDR ip p of None \<Rightarrow> first_says parseCIDR ip ps r | Some q \<Rightarrow> q = r)"
proof -
  have "first_says parseCIDR ip (p # ps) r \<longleftrightarrow> spf_says parseCIDR ip p r \<or>
      (\<forall>r. \<not> spf_says parseCIDR ip p r) \<and> first_says parseCIDR ip ps r" (is "?L \<longleftrightarrow> ?R")
  proof
    assume ?L
    then obtain us t vs where d: "p # ps = us @ t # vs" "spf_says parseCIDR ip t r" "\<forall>u \<in> set us. \<forall>r. \<not> spf_says parseCIDR ip u r"
      unfolding first_says_def by blast
    then show ?R unfolding first_says_def by (cases us) auto
  next
    assume ?R
    then show ?L
    proof
      assume "spf_says parseCIDR ip p r"
      then show ?L unfolding first_says_def by (intro exI [of _ "[]"] exI [of _ p] exI [of _ ps]) simp
    next
      assume r: "(\<forall>r. \<not> spf_says parseCIDR ip p r) \<and> first_says parseCIDR ip ps r"
      then obtain us t vs where "ps = us @ t # vs" "spf_says parseCIDR ip t r" "\<forall>u \<in> set us. \<forall>r. \<not> spf_says parseCIDR ip u r"
        unfolding first_says_def by blast
      then show ?L unfolding first_says_def using r by (intro exI [of _ "p # us"] exI [of _ t] exI [of _ vs]) simp
    qed
  qed
  then show ?thesis by (auto simp: spf_says_iff split: option.split)
qed

lemma spf_eval_says:
  "r \<noteq> Neutral \<Longrightarrow> spf_eval parseCIDR ip parts = r \<longleftrightarrow> first_says parseCIDR ip parts r"
proof (induction parts)
  case Nil
  then show ?case by (simp add: first_says_def)
next
  case (Cons p ps)
  then show ?case by (simp only: spf_eval_Cons first_says_Cons split: option.split) simp
qed

text \<open>The version is a word that says nothing, whether it is cut off or not.\<close>

lemma spf_parts_says: "first_says parseCIDR ip (spf_parts record) r \<longleftrightarrow> first_says parseCIDR ip (Fields (ToLower record)) r"
proof (cases "HasPrefix (ToLower record) ''v=spf1 ''")
  case True
  then obtain s where s: "ToLower record = ''v=spf1'' @ CHR '' '' # s" using HasPrefixE by fastforce
  have "Fields (ToLower record) = ''v=spf1'' # Fields s"
    unfolding s Fields_def by (subst fields_word) (simp_all add: is_ascii_def ascii_space_def)
  moreover have "spf_parts record = Fields s" using s True by (simp add: spf_parts_def TrimPrefix_def)
  moreover have "term_result parseCIDR ip ''v=spf1'' = None" by (simp add: term_result_def spf_term_def HasPrefix_def)
  ultimately show ?thesis by (simp add: first_says_Cons)
qed (simp add: spf_parts_def TrimPrefix_def)

lemma spf_records_one: "spf_records txts = [record] \<longleftrightarrow>
    (\<exists>xs ys. txts = xs @ record # ys \<and> HasPrefix (ToLower record) ''v=spf1'' \<and> (\<forall>x \<in> set (xs @ ys). \<not> HasPrefix (ToLower x) ''v=spf1''))"
proof
  assume "spf_records txts = [record]"
  then show "\<exists>xs ys. txts = xs @ record # ys \<and> HasPrefix (ToLower record) ''v=spf1'' \<and> (\<forall>x \<in> set (xs @ ys). \<not> HasPrefix (ToLower x) ''v=spf1'')"
    unfolding spf_records_def filter_eq_Cons_iff by (fastforce simp: filter_empty_conv eq_commute [of "[]"])
qed (auto simp: spf_records_def filter_empty_conv)

lemma domain_says_iff:
  assumes "r \<noteq> Neutral"
  shows "domain_says parseCIDR ip txts r \<longleftrightarrow> (\<exists>record. spf_records txts = [record] \<and> evaluateSPF parseCIDR record ip = r)"
  unfolding domain_says_def spf_records_one evaluateSPF_def spf_eval_says [OF assms] spf_parts_says by blast

lemma client_at_iff: "client_at session ip \<longleftrightarrow> getClientIP session = Some ip"
  by (auto simp: client_at_def getClientIP_def split: option.splits net_addr.splits)

lemma sender_in_iff: "sender_in sender domain \<longleftrightarrow> sender \<noteq> ''<>'' \<and> (\<exists>user. Split sender (CHR ''@'') = [user, domain]) \<and> domain \<noteq> []"
proof -
  have "u @ CHR ''@'' # d \<noteq> ''<>''" for u d
  proof
    assume "u @ CHR ''@'' # d = ''<>''"
    then have "CHR ''@'' \<in> set ''<>''" by (metis in_set_conv_decomp)
    then show False by simp
  qed
  then show ?thesis by (auto simp: sender_in_def Split_pair_iff)
qed

subsection \<open>The hook\<close>

text \<open>The four ways the check goes when the client's address is known.\<close>

lemma spf_hook_cases:
  assumes ip: "client_at session ip"
  shows "fst (spf_OnMailFrom parseCIDR lookupTXT c session sender w) =
    (if sender = ''<>'' then None
     else if \<nexists>domain. sender_in sender domain then Some (NewError 553 ''5.1.7'' ''Sender address format invalid'')
     else (case fst (lookupTXT (snd (Cut sender (CHR ''@''))) w) of
             Inl err \<Rightarrow> snd (spf_lookup_error err)
           | Inr txts \<Rightarrow>
               (case spf_records txts of
                  [] \<Rightarrow> None
                | [record] \<Rightarrow> spf_verdict (evaluateSPF parseCIDR record ip)
                | _ \<Rightarrow> Some (NewError 451 ''4.3.0'' ''Temporary error: Multiple SPF records found''))))"
proof (cases "\<exists>domain. sender_in sender domain")
  case True
  then obtain user domain where d: "sender = user @ CHR ''@'' # domain" "CHR ''@'' \<notin> set user" "CHR ''@'' \<notin> set domain" "domain \<noteq> []"
    "sender \<noteq> ''<>''" by (auto simp: sender_in_iff Split_pair_iff)
  then have "Split sender (CHR ''@'') = [user, domain]" "snd (Cut sender (CHR ''@'')) = domain"
    by (simp_all add: Split_pair_iff Cut_append)
  then show ?thesis using ip True d(4,5)
    by (auto simp: client_at_iff spf_OnMailFrom_def spf_check_def Let_def split: list.split prod.splits sum.split)
next
  case False
  then have "\<And>user domain. Split sender (CHR ''@'') = [user, domain] \<Longrightarrow> sender \<noteq> ''<>'' \<Longrightarrow> domain = []"
    by (auto simp: sender_in_iff)
  then show ?thesis using ip False
    by (auto simp: client_at_iff spf_OnMailFrom_def spf_check_def Let_def split: list.split)
qed

lemma sender_in_Cut: "sender_in sender domain \<Longrightarrow> sender \<noteq> ''<>'' \<and> snd (Cut sender (CHR ''@'')) = domain"
  by (auto simp: sender_in_iff Split_pair_iff Cut_append)

text \<open>A verdict on the record, \<open>Fail\<close> or \<open>PermError\<close>, is what the error of code 550 stands for.\<close>

lemma spf_550:
  assumes "r \<in> {Fail, PermError}"
  shows "fst (spf_OnMailFrom parseCIDR lookupTXT c session sender w) = spf_verdict r \<longleftrightarrow>
    (\<exists>ip domain txts. client_at session ip \<and> sender_in sender domain \<and> fst (lookupTXT domain w) = Inr txts \<and> domain_says parseCIDR ip txts r)"
    (is "?L = ?R")
proof (cases "\<exists>ip. client_at session ip")
  case False
  then have "getClientIP session = None" by (cases "getClientIP session") (simp_all add: client_at_iff)
  then have "\<not> ?L" using assms by (auto simp: spf_OnMailFrom_def spf_check_def spf_verdict_def NewError_def)
  then show ?thesis using False by blast
next
  case True
  then obtain ip where ip: "client_at session ip" by blast
  have same: "spf_verdict x = spf_verdict r \<longleftrightarrow> x = r" for x using assms by (cases x) (auto simp: spf_verdict_def NewError_def)
  have other: "Some (NewError 553 e m) \<noteq> spf_verdict r" "Some (NewError 451 e m) \<noteq> spf_verdict r" "None \<noteq> spf_verdict r"
    "snd (spf_lookup_error err) \<noteq> spf_verdict r" for e m err
    using assms by (auto simp: spf_verdict_def spf_lookup_error_def NewError_def)
  have n: "r \<noteq> Neutral" using assms by auto
  show ?thesis
  proof (cases "\<exists>domain. sender_in sender domain")
    case False
    then show ?thesis using other by (simp add: spf_hook_cases [OF ip])
  next
    case True
    then obtain domain where d: "sender_in sender domain" by blast
    have u: "sender_in sender x \<longleftrightarrow> x = domain" "client_at session y \<longleftrightarrow> y = ip" for x y
      using sender_in_Cut d ip by (auto simp: client_at_iff)
    show ?thesis using sender_in_Cut [OF d] True other
      by (auto simp: spf_hook_cases [OF ip] u domain_says_iff [OF n] same split: sum.split list.split)
  qed
qed

text \<open>The other errors.\<close>

definition spf_451 :: "go_error option \<Rightarrow> bool" where
  "spf_451 e \<longleftrightarrow> e \<in> {None, spf_verdict Fail, spf_verdict PermError} \<or> (\<exists>enh m. e = Some (NewError 451 enh m))"

lemma spf_451_cases:
  "spf_451 None" "spf_451 (Some (NewError 451 enh m))" "spf_451 (spf_verdict r)" "spf_451 (snd (spf_lookup_error err))"
  "\<not> spf_451 (Some (NewError 553 enh m))"
  by (cases r; auto simp: spf_451_def spf_verdict_def spf_lookup_error_def NewError_def)+

lemma spf_other_errors:
  "(fst (spf_OnMailFrom parseCIDR lookupTXT c session sender w) = Some (NewError 553 ''5.1.7'' ''Sender address format invalid'') \<longleftrightarrow>
      (\<exists>ip. client_at session ip) \<and> sender \<noteq> ''<>'' \<and> (\<nexists>domain. sender_in sender domain)) \<and>
   (fst (spf_OnMailFrom parseCIDR lookupTXT c session sender w) \<in>
      {None, spf_verdict Fail, spf_verdict PermError, Some (NewError 553 ''5.1.7'' ''Sender address format invalid'')} \<or>
    (\<exists>enh m. fst (spf_OnMailFrom parseCIDR lookupTXT c session sender w) = Some (NewError 451 enh m)))"
    (is "(?res = ?e \<longleftrightarrow> ?P) \<and> _")
proof -
  consider (none) "getClientIP session = None" | (some) ip where "client_at session ip"
    by (cases "getClientIP session") (simp_all add: client_at_iff)
  then have "if ?P then ?res = ?e else spf_451 ?res"
  proof cases
    case none
    then show ?thesis by (simp add: client_at_iff spf_OnMailFrom_def spf_check_def spf_451_cases)
  next
    case some
    then show ?thesis using spf_451_cases unfolding spf_hook_cases [OF some] by (auto split: sum.split list.split)
  qed
  moreover have "spf_451 ?res \<longrightarrow> ?res \<noteq> ?e" using spf_451_cases(5) by metis
  ultimately show ?thesis unfolding spf_451_def by (auto split: if_splits)
qed

text \<open>
  C18: When SPF rejects. The hook of the SPF checker answers 550 5.7.23 exactly when the client's
  address is known, the sender is an address with one at sign in some domain, exactly one of the
  domain's TXT records is an SPF record, and the first of its terms that says anything about the
  client says \<open>Fail\<close>; 550 5.5.2 exactly when that term has an address range that does not parse;
  553 5.1.7 exactly when the client's address is known and the sender is neither empty (<>) nor
  such an address. Every other error of the hook has the code 451.
\<close>

theorem spf_rejects_iff:
  "let res = fst (spf_OnMailFrom parseCIDR lookupTXT c session sender w);
       says = (\<lambda>r. \<exists>ip domain txts. client_at session ip \<and> sender_in sender domain \<and> fst (lookupTXT domain w) = Inr txts \<and>
                 domain_says parseCIDR ip txts r)
   in (res = Some (NewError 550 ''5.7.23'' ''Message rejected due to SPF policy'') \<longleftrightarrow> says Fail) \<and>
      (res = Some (NewError 550 ''5.5.2'' ''Permanent error evaluating SPF policy'') \<longleftrightarrow> says PermError) \<and>
      (res = Some (NewError 553 ''5.1.7'' ''Sender address format invalid'') \<longleftrightarrow>
         (\<exists>ip. client_at session ip) \<and> sender \<noteq> ''<>'' \<and> (\<nexists>domain. sender_in sender domain)) \<and>
      (res = None \<or> says Fail \<or> says PermError \<or> res = Some (NewError 553 ''5.1.7'' ''Sender address format invalid'') \<or>
         (\<exists>enh m. res = Some (NewError 451 enh m)))"
proof -
  define res where "res = fst (spf_OnMailFrom parseCIDR lookupTXT c session sender w)"
  define says where "says = (\<lambda>r. \<exists>ip domain txts. client_at session ip \<and> sender_in sender domain \<and> fst (lookupTXT domain w) = Inr txts \<and>
                 domain_says parseCIDR ip txts r)"
  have v: "spf_verdict Fail = Some (NewError 550 ''5.7.23'' ''Message rejected due to SPF policy'')"
    "spf_verdict PermError = Some (NewError 550 ''5.5.2'' ''Permanent error evaluating SPF policy'')" by (simp_all add: spf_verdict_def)
  have fail: "res = spf_verdict Fail \<longleftrightarrow> says Fail" "res = spf_verdict PermError \<longleftrightarrow> says PermError"
    unfolding res_def says_def by (rule spf_550; simp)+
  show ?thesis unfolding Let_def res_def [symmetric] says_def [symmetric] v [symmetric]
    using fail spf_other_errors [of parseCIDR lookupTXT c session sender w, folded res_def] by blast
qed

end
