(* ===== verification/AuthSession.thy ===== *)
theory AuthSession
  imports SessionSafety MailAuth
begin

text \<open>
  The authentication plugins inside a session: which values of the context of a transaction
  reach a hook. The session itself stores plain strings; what a hook adds is lost with its own
  copy of the context.
\<close>

section \<open>The contexts of a session\<close>

definition plain_keys :: "ctx \<Rightarrow> bool" where
  "plain_keys c \<longleftrightarrow> list_all (\<lambda>(k, v). case k of StringKey _ \<Rightarrow> True | ContextKey _ \<Rightarrow> False) c"

lemma plain_keys_simps [simp]:
  "plain_keys Background" "plain_keys (WithValue c (StringKey n) v) = plain_keys c"
  by (simp_all add: plain_keys_def Background_def WithValue_def)

lemma plain_keys_Value: "plain_keys c \<Longrightarrow> ctx_Value c (ContextKey n) = None"
  by (induction c) (auto simp: plain_keys_def ctx_Value_def)

definition plain_session :: "session \<Rightarrow> bool" where
  "plain_session s \<longleftrightarrow> plain_keys (ss_baseCtx s) \<and> plain_keys (ss_ctx s)"

lemma plain_conn_free: "conn_free plain_session"
  by (simp add: conn_free_def plain_session_def)

lemmas plain_reply [simp] =
  conn_free_reply [OF plain_conn_free] conn_free_plugin_reply [OF plain_conn_free]

lemmas plain_write = conn_free_writeResponse [OF plain_conn_free]

lemma plain_fields [simp]:
  "plain_session (s\<lparr>ss_conn := c\<rparr>) = plain_session s" "plain_session (s\<lparr>ss_helo := d, ss_state := st\<rparr>) = plain_session s"
  "plain_session (s\<lparr>ss_auth := x\<rparr>) = plain_session s" "plain_session (s\<lparr>ss_state := st\<rparr>) = plain_session s"
  "plain_session (s\<lparr>ss_submitted := xs\<rparr>) = plain_session s" "plain_session (count_command a b s) = plain_session s"
  "plain_session (s\<lparr>ss_recipients := rs\<rparr>) = plain_session s" "plain_session (s\<lparr>ss_helo := d\<rparr>) = plain_session s"
  by (simp_all add: plain_session_def count_command_def)

lemma plain_reset [simp]: "plain_session s \<Longrightarrow> plain_session (resetTransactionState s)"
  by (simp add: plain_session_def resetTransactionState_def)

lemma plain_fresh: "plain_session (sess_Reset cn isTLS remote local cfg sid s)"
  by (simp add: plain_session_def sess_Reset_def resetTransactionState_def Let_def)

lemma plain_handlers:
  assumes "plain_session s"
  shows "plain_session (res_session (handleHelo e cmd d s w))"
    "plain_session (res_session (handleRcpt e l s w))"
    "plain_session (res_session (handleRset e s w))"
    "plain_session (res_session (deliver_data e dat s w))"
  using assms
  by (auto simp: handleHelo_def handleRcpt_def handleRset_def deliver_data_def Let_def
      split: prod.splits option.splits send_result.splits)

lemma plain_handleMail: "plain_session s \<Longrightarrow> plain_session (res_session (handleMail e l s w))"
proof -
  assume s: "plain_session s"
  have "plain_session ((resetTransactionState s)\<lparr>ss_sender := a, ss_state := StateRcpt,
      ss_ctx := WithValue (ss_ctx (resetTransactionState s)) (StringKey n) v\<rparr>)" for a n v
    using plain_reset [OF s] by (simp add: plain_session_def)
  then show ?thesis using s by (auto simp: handleMail_def Let_def split: prod.splits option.splits)
qed

lemma plain_handleData: "plain_session s \<Longrightarrow> plain_session (res_session (handleData e s w))"
proof -
  assume s: "plain_session s"
  have "plain_session (res_session (transfer_data e t w1))" if "plain_session t" for t w1
    using that
    by (cases "data_loop (ss_maxMessageSize t) [] (ss_conn t)"; cases "fst (data_loop (ss_maxMessageSize t) [] (ss_conn t))")
      (auto simp: transfer_data_def intro: plain_handlers(4) split: prod.splits)
  then show ?thesis using s
    by (auto simp: handleData_def receive_data_def dest!: writeResponse_pair split: prod.splits option.splits hres.splits)
qed

lemma plain_handleAuth: "plain_session s \<Longrightarrow> plain_session (res_session (handleAuth e l s w))"
proof -
  assume s: "plain_session s"
  have pw: "plain_session (res_session (check_password e u p t w1))" if "plain_session t" for u p t w1
    using that by (auto simp: check_password_def split: prod.splits option.splits)
  have lp: "plain_session (res_session (login_password e u t w1))" if "plain_session t" for u t w1
    using that by (auto simp: login_password_def Let_def pw dest!: writeResponse_pair
        split: prod.splits option.splits hres.splits)
  have "plain_session (res_session (handleAuthLogin e ps s w))" for ps
    using s by (auto simp: handleAuthLogin_def Let_def lp dest!: writeResponse_pair
        split: prod.splits option.splits hres.splits)
  moreover have "plain_session (res_session (handleAuthPlain e ps s w))" for ps
    using s by (auto simp: handleAuthPlain_def Let_def pw split: option.splits)
  moreover have "plain_session (res_session (handleAuthSireToken e ps s w))" for ps
    using s by (auto simp: handleAuthSireToken_def split: prod.splits option.splits)
  ultimately show ?thesis using s by (auto simp: handleAuth_def Let_def)
qed

lemma plain_handleStartTLS:
  "plain_session s \<Longrightarrow> handleStartTLS e s w = (up, res) \<Longrightarrow> plain_session (res_session res)"
proof -
  assume s: "plain_session s" and h: "handleStartTLS e s w = (up, res)"
  have "plain_session (tls_upgrade ch c t)" if "plain_session t" for ch c t
    using that by (simp add: tls_upgrade_def plain_session_def resetTransactionState_def)
  then show ?thesis using s h
    by (auto simp: handleStartTLS_def Let_def split: prod.splits option.splits sum.splits if_splits)
qed

lemma plain_timed: "plain_session (res_session x) \<Longrightarrow> plain_session (res_session (TimeCommand cmd x))"
  by (cases x) (auto simp: TimeCommand_def split: hres.splits)

lemma plain_line: "plain_session s \<Longrightarrow> plain_session (fst (snd (handle_line e raw s w)))"
proof -
  assume s: "plain_session s"
  have quit: "plain_session (snd (writeResponse e 221 m (count_command a b s)))" for m a b
    using s plain_write [of e 221 m "count_command a b s"] by (metis prod.collapse plain_fields(6))
  obtain up res where tls: "handleStartTLS e s w = (up, res)" by (cases "handleStartTLS e s w")
  have tls': "plain_session (res_session (TimeCommand ''STARTTLS'' res))"
    using plain_handleStartTLS [OF s tls] by (rule plain_timed)
  show ?thesis unfolding handle_line_def Let_def
    using s quit tls tls'
    by (auto simp: case_prod_beta after_handler_def
        intro!: plain_timed plain_handlers plain_handleMail plain_handleData plain_handleAuth)
qed

lemma plain_once: "plain_session s \<Longrightarrow> plain_session (fst (snd (handle_once e s w)))"
proof -
  assume s: "plain_session s"
  have "plain_session (fst (snd (handle_line e raw (s\<lparr>ss_conn := c\<rparr>) w)))" for raw c
    using plain_line [of "s\<lparr>ss_conn := c\<rparr>"] s by simp
  then show ?thesis using s by (auto simp: handle_once_def split: prod.splits option.splits)
qed

section \<open>The states of a session\<close>

inductive sess_reach :: "'w senv \<Rightarrow> session \<Rightarrow> 'w \<Rightarrow> session \<Rightarrow> 'w \<Rightarrow> bool" for e s0 w0 where
  start: "sess_reach e s0 w0 s0 w0"
| pass: "sess_reach e s0 w0 s w \<Longrightarrow> handle_once e s w = (Continue, s', w') \<Longrightarrow> sess_reach e s0 w0 s' w'"

lemma sess_reach_plain: "sess_reach e s0 w0 s w \<Longrightarrow> plain_session s0 \<Longrightarrow> plain_session s"
proof (induction rule: sess_reach.induct)
  case (pass s w s' w')
  then show ?case using plain_once [of s e w] by simp
qed

lemma dmarc_decide_plain:
  assumes "plain_keys c" "parseFromHeader ml dat = Inr (user @ ''@'' @ d)" "CHR ''@'' \<notin> set (user @ d)" "d \<noteq> []"
    "lookupDMARC lookupTXT d w = (Inr (Some policy), w1)"
  shows "dmarc_decide ml lookupTXT c dat w =
    (d, if dm_Policy policy = ''reject''
        then Some (NewError 550 ''5.7.26'' (''Message rejected due to DMARC policy for '' @ d)) else None, w1)"
proof -
  have "ctx_Value c SPFResultKey = None" "ctx_Value c DKIMResultsKey = None"
    using assms(1) by (simp_all add: plain_keys_Value SPFResultKey_def DKIMResultsKey_def)
  moreover have "Split (user @ CHR ''@'' # d) (CHR ''@'') = [user, d]" using assms(3) by (simp add: Split_append)
  ultimately show ?thesis using assms(2,4,5)
    by (simp add: dmarc_decide_def checkSPFAlignment_def checkDKIMAlignment_def Let_def)
qed

text \<open>
  C35: DMARC never sees the results of SPF and DKIM. In every session, with any plugins before
  it (the SPF checker and the DKIM verifier among them, whatever they found), the DMARC checker
  rejects every message whose From domain publishes the policy reject, accepts it under every
  other policy, and in both cases records an event that says DKIM failed, SPF gave no result and
  nothing was done to the message.
\<close>

theorem dmarc_sees_no_results:
  assumes "sess_reach e (sess_Reset cn isTLS remote local cfg sid s0) w0 s w"
    "parseFromHeader ml (mi_Data m) = Inr (user @ ''@'' @ d)" "CHR ''@'' \<notin> set (user @ d)" "d \<noteq> []"
    "lookupDMARC lookupTXT d (dw\<lparr>dw_scheduler := True\<rparr>) = (Inr (Some policy), dw1)"
  shows "\<exists>ev. dmarc_OnMessage ml lookupTXT (ss_ctx s) (sessionInfo s) m dw =
      (if dm_Policy policy = ''reject''
       then Some (NewError 550 ''5.7.26'' (''Message rejected due to DMARC policy for '' @ d)) else None,
       dw1\<lparr>dw_Events := dw_Events dw1 @ [ev]\<rparr>) \<and>
    ev_PolicyDomain ev = d \<and> ev_Disposition ev = ''none'' \<and> ev_DKIMResult ev = ''fail'' \<and> ev_SPFResult ev = ''none''"
proof -
  have "plain_keys (ss_ctx s)" using sess_reach_plain [OF assms(1) plain_fresh] by (simp add: plain_session_def)
  then show ?thesis using dmarc_decide_plain [OF _ assms(2-5)]
    by (intro exI [of _ "dmarc_event (dw_now dw1) (sessionInfo s) m d"]) (simp add: dmarc_OnMessage_def AddEvent_def dmarc_event_def)
qed

text \<open>
  A client at an address that the sender's domain allows, and a message whose signature is
  good: the SPF checker and the DKIM verifier accept, the DMARC checker rejects.
\<close>

definition pass_TXT :: "string \<Rightarrow> dmarc_world \<Rightarrow> (go_error + string list) \<times> dmarc_world" where
  "pass_TXT name w = (if HasPrefix name ''_dmarc.'' then Inr [''v=DMARC1; p=reject''] else Inr [''v=spf1 +all''], w)"

definition pass_mail :: mail_lib where
  "pass_mail = \<lparr>ml_ReadMessage = (\<lambda>_. Inr (\<lambda>_. ''a@b.org'')), ml_ParseAddressList = (\<lambda>a. Inr [a]), ml_ParseAddress = Inr\<rparr>"

definition pass_env :: "dmarc_world senv" where
  "pass_env = \<lparr>
     se_plugins = [SPFChecker (\<lambda>_. Inl (TextError ''CIDR'')) pass_TXT, DKIMVerifier (\<lambda>_. False) (\<lambda>_. False) (\<lambda>_. Inr [\<lparr>v_Domain = ''b.org'', v_Err = None\<rparr>])],
     se_Enqueue = (\<lambda>_ m w. (SendOk, w)), se_userStore = None, se_jwtValidator = None,
     se_CreateTLS = (\<lambda>_ w. (None, w)), se_Handshake = (\<lambda>_ w. (Inr [], w)),
     se_NewString = (\<lambda>w. (''id'', w)), se_Now = (\<lambda>w. (dw_now w, w)),
     se_ioErr = TextError ''io'', se_readErr = TextError ''EOF''\<rparr>"

definition pass_session :: session where
  "pass_session = sess_Reset (new_conn []) False
     (TCPAddr (Some [1, 2, 3, 4]) ''1.2.3.4:5'') ''here'' None ''id'' blank_session"

definition pass_world :: dmarc_world where
  "pass_world = \<lparr>dw_now = 0, dw_Events = [], dw_scheduler = True\<rparr>"

definition pass_msg :: MessageInfo where
  "pass_msg = \<lparr>mi_From = ''a@b.org'', mi_To = [''c@here''], mi_Data = ''From: a@b.org'' @ CRLF\<rparr>"

theorem dmarc_sees_no_results_witness:
  "\<exists>s. sess_reach pass_env pass_session pass_world s pass_world \<and>
     fst (first_error (\<lambda>p. OnMailFrom p (ss_ctx s) (sessionInfo s) ''a@b.org'') (se_plugins pass_env) pass_world) = None \<and>
     fst (first_error (\<lambda>p. OnMessage p (ss_ctx s) (sessionInfo s) pass_msg) (se_plugins pass_env) pass_world) = None \<and>
     fst (dmarc_OnMessage pass_mail pass_TXT (ss_ctx s) (sessionInfo s) pass_msg pass_world) =
       Some (NewError 550 ''5.7.26'' ''Message rejected due to DMARC policy for b.org'')"
proof -
  let ?s1 = "pass_session"
  have r: "sess_reach pass_env pass_session pass_world ?s1 pass_world" by (rule sess_reach.start)
  have ip: "getClientIP (sessionInfo ?s1) = Some [1, 2, 3, 4]"
    by (simp add: pass_session_def sess_Reset_def resetTransactionState_def sessionInfo_def getClientIP_def Let_def)
  have sp: "evaluateSPF x ''v=spf1 +all'' y = Pass" "spf_records [''v=spf1 +all''] = [''v=spf1 +all'']" for x y by code_simp+
  have u: "fst (first_error (\<lambda>p. OnMailFrom p (ss_ctx ?s1) (sessionInfo ?s1) ''a@b.org'') (se_plugins pass_env) pass_world) = None"
    using ip sp by (simp add: first_error_def pass_env_def SPFChecker_def DKIMVerifier_def BasePlugin_def
        spf_OnMailFrom_def spf_check_def pass_TXT_def HasPrefix_def spf_verdict_def)
  have f: "parseFromHeader pass_mail (mi_Data pass_msg) = Inr (''a'' @ ''@'' @ ''b.org'')"
    by (simp add: parseFromHeader_def pass_mail_def)
  have d: "lookupDMARC pass_TXT ''b.org'' (pass_world\<lparr>dw_scheduler := True\<rparr>) =
      (Inr (Some (parseDMARCRecord ''v=DMARC1; p=reject'')), pass_world)" by code_simp
  have p: "dm_Policy (parseDMARCRecord ''v=DMARC1; p=reject'') = ''reject''" by code_simp
  have n: "CHR ''@'' \<notin> set (''a'' @ ''b.org'')" "''b.org'' \<noteq> []" by simp_all
  have v: "fst (first_error (\<lambda>p. OnMessage p c i pass_msg) (se_plugins pass_env) pass_world) = None" for c i
    by (simp add: first_error_def pass_env_def SPFChecker_def DKIMVerifier_def BasePlugin_def dkim_OnMessage_def dkim_check_def)
  show ?thesis
    using dmarc_sees_no_results [OF r [unfolded pass_session_def] f n d, folded pass_session_def] p u v r
    by (intro exI [of _ pass_session]) auto
qed

end
