(* ===== verification/DNSCache.thy ===== *)
theory DNSCache
  imports GoErrors
begin

text \<open>
  The caching resolver of \<open>internal/dns/cache.go\<close>. The DNS is a function of time: what the
  lookups of package \<open>net\<close> answer at a moment. A cached value has a dynamic type, so the
  lookups assert it. The map is a list of entries with distinct keys; the entry that eviction
  meets first when it ranges over the map is given by a number.
\<close>

section \<open>State and operations\<close>

datatype dns_value = Strings "string list" | MXs "(string \<times> nat) list" | ErrorVal go_error

record cacheEntry =
  ce_value :: dns_value
  ce_expiresAt :: time

record Resolver =
  rs_cache :: "(string \<times> cacheEntry) list"
  rs_cacheTTL :: duration
  rs_maxCacheSize :: int
  rs_maxLookups :: int

record upstream =
  net_LookupHost :: "time \<Rightarrow> string \<Rightarrow> go_error + string list"
  net_LookupTXT :: "time \<Rightarrow> string \<Rightarrow> go_error + string list"
  net_LookupMX :: "time \<Rightarrow> string \<Rightarrow> go_error + (string \<times> nat) list"

definition NewResolver :: "duration \<Rightarrow> int \<Rightarrow> int \<Rightarrow> Resolver" where
  "NewResolver cacheTTL maxCacheSize maxLookups =
     \<lparr>rs_cache = [], rs_cacheTTL = cacheTTL, rs_maxCacheSize = maxCacheSize, rs_maxLookups = maxLookups\<rparr>"

definition unpack :: "dns_value \<Rightarrow> go_error + dns_value" where
  "unpack v = (case v of ErrorVal e \<Rightarrow> Inl e | _ \<Rightarrow> Inr v)"

text \<open>The look into the cache, with the read lock first and with the lock again.\<close>

definition cached :: "time \<Rightarrow> string \<Rightarrow> Resolver \<Rightarrow> (go_error + dns_value) option" where
  "cached now key r =
     (case map_of (rs_cache r) key of
        Some entry \<Rightarrow> if now < ce_expiresAt entry then Some (unpack (ce_value entry)) else None
      | None \<Rightarrow> None)"

definition evict :: "nat \<Rightarrow> Resolver \<Rightarrow> Resolver" where
  "evict pick r =
     (if int (length (rs_cache r)) \<ge> rs_maxCacheSize r \<and> rs_cache r \<noteq> []
      then r\<lparr>rs_cache := (let i = pick mod length (rs_cache r) in take i (rs_cache r) @ drop (Suc i) (rs_cache r))\<rparr>
      else r)"

definition store :: "string \<Rightarrow> cacheEntry \<Rightarrow> Resolver \<Rightarrow> Resolver" where
  "store key entry r = r\<lparr>rs_cache := (key, entry) # filter (\<lambda>(k, _). k \<noteq> key) (rs_cache r)\<rparr>"

text \<open>What happens under the lock, at the time \<open>now\<close> of the second look and \<open>now'\<close> of the answer.\<close>

definition lookup_locked ::
  "time \<Rightarrow> time \<Rightarrow> nat \<Rightarrow> string \<Rightarrow> (time \<Rightarrow> go_error + dns_value) \<Rightarrow> Resolver \<Rightarrow> (go_error + dns_value) \<times> Resolver" where
  "lookup_locked now now' pick key fn r =
     (case cached now key r of
        Some res \<Rightarrow> (res, r)
      | None \<Rightarrow>
          (let r1 = evict pick r; exp = now' + rs_cacheTTL r in
           (case fn now' of
              Inl err \<Rightarrow> (Inl err, store key \<lparr>ce_value = ErrorVal err, ce_expiresAt = exp\<rparr> r1)
            | Inr val \<Rightarrow> (Inr val, store key \<lparr>ce_value = val, ce_expiresAt = exp\<rparr> r1))))"

text \<open>\<open>lookup\<close>; between its two locks other lookups may have changed the cache from \<open>r\<close> to \<open>r'\<close>.\<close>

definition dns_lookup ::
  "time \<Rightarrow> time \<Rightarrow> time \<Rightarrow> nat \<Rightarrow> string \<Rightarrow> (time \<Rightarrow> go_error + dns_value) \<Rightarrow> Resolver \<Rightarrow> Resolver \<Rightarrow> (go_error + dns_value) \<times> Resolver" where
  "dns_lookup now1 now2 now3 pick key fn r r' =
     (case cached now1 key r of
        Some res \<Rightarrow> (res, r')
      | None \<Rightarrow> lookup_locked now2 now3 pick key fn r')"

definition as_strings :: "string \<Rightarrow> go_error + dns_value \<Rightarrow> go_error + string list" where
  "as_strings what res =
     (case res of
        Inl err \<Rightarrow> Inl err
      | Inr (Strings ss) \<Rightarrow> Inr ss
      | Inr _ \<Rightarrow> Inl (TextError (''unexpected type for '' @ what @ '' lookup: []*net.MX'')))"

definition as_mxs :: "go_error + dns_value \<Rightarrow> go_error + (string \<times> nat) list" where
  "as_mxs res =
     (case res of
        Inl err \<Rightarrow> Inl err
      | Inr (MXs ms) \<Rightarrow> Inr ms
      | Inr _ \<Rightarrow> Inl (TextError ''unexpected type for MX lookup: []string''))"

definition LookupHost where
  "LookupHost u now1 now2 now3 pick host r r' =
     (let (res, r1) = dns_lookup now1 now2 now3 pick (''host:'' @ host) (\<lambda>t. map_sum id Strings (net_LookupHost u t host)) r r'
      in (as_strings ''host'' res, r1))"

definition LookupTXT where
  "LookupTXT u now1 now2 now3 pick name r r' =
     (let (res, r1) = dns_lookup now1 now2 now3 pick (''txt:'' @ name) (\<lambda>t. map_sum id Strings (net_LookupTXT u t name)) r r'
      in (as_strings ''TXT'' res, r1))"

definition LookupMX where
  "LookupMX u now1 now2 now3 pick name r r' =
     (let (res, r1) = dns_lookup now1 now2 now3 pick (''mx:'' @ name) (\<lambda>t. map_sum id MXs (net_LookupMX u t name)) r r'
      in (as_mxs res, r1))"

section \<open>Sequences of lookups\<close>

text \<open>The changes of the cache, in the order of the lock: one kind of record, a name and the times.\<close>

datatype dns_kind = HostKind | TXTKind | MXKind

definition dns_key :: "dns_kind \<Rightarrow> string \<Rightarrow> string" where
  "dns_key k name = (case k of HostKind \<Rightarrow> ''host:'' | TXTKind \<Rightarrow> ''txt:'' | MXKind \<Rightarrow> ''mx:'') @ name"

definition dns_fn :: "upstream \<Rightarrow> dns_kind \<Rightarrow> string \<Rightarrow> time \<Rightarrow> go_error + dns_value" where
  "dns_fn u k name t =
     (case k of
        HostKind \<Rightarrow> map_sum id Strings (net_LookupHost u t name)
      | TXTKind \<Rightarrow> map_sum id Strings (net_LookupTXT u t name)
      | MXKind \<Rightarrow> map_sum id MXs (net_LookupMX u t name))"

text \<open>
  \<open>dns_reach u r0 t r\<close>: lookups one after the other, the last of them done at \<open>t\<close>, bring the cache
  from \<open>r0\<close> to \<open>r\<close>. The lock is held from the second look into the cache to the answer of the DNS.
\<close>

inductive dns_reach :: "upstream \<Rightarrow> Resolver \<Rightarrow> time \<Rightarrow> Resolver \<Rightarrow> bool" for u r0 where
  start: "dns_reach u r0 t r0"
| step: "dns_reach u r0 t r \<Longrightarrow> t \<le> now \<Longrightarrow> now \<le> now' \<Longrightarrow>
     lookup_locked now now' pick (dns_key k name) (dns_fn u k name) r = (res, r') \<Longrightarrow> dns_reach u r0 now' r'"

lemma dns_key_inj: "dns_key k name = dns_key k' name' \<longleftrightarrow> k = k' \<and> name = name'"
  by (cases k; cases k') (auto simp: dns_key_def)

section \<open>Invariant\<close>

text \<open>
  Every entry is the answer the DNS gave for its key, one time-to-live before it expires and not
  after the time \<open>T\<close>.
\<close>

definition answers :: "upstream \<Rightarrow> duration \<Rightarrow> time \<Rightarrow> string \<times> cacheEntry \<Rightarrow> bool" where
  "answers u ttl T = (\<lambda>(key, e). ce_expiresAt e - ttl \<le> T \<and>
     (\<exists>k name. key = dns_key k name \<and> unpack (ce_value e) = dns_fn u k name (ce_expiresAt e - ttl)))"

definition cache_ok :: "upstream \<Rightarrow> duration \<Rightarrow> int \<Rightarrow> time \<Rightarrow> Resolver \<Rightarrow> bool" where
  "cache_ok u ttl mx T r \<longleftrightarrow> rs_cacheTTL r = ttl \<and> rs_maxCacheSize r = mx \<and> distinct (map fst (rs_cache r)) \<and>
     int (length (rs_cache r)) \<le> max 1 mx \<and> (\<forall>x \<in> set (rs_cache r). answers u ttl T x)"

lemma cache_ok_mono: "cache_ok u ttl mx T r \<Longrightarrow> T \<le> T' \<Longrightarrow> cache_ok u ttl mx T' r"
  by (fastforce simp: cache_ok_def answers_def)

lemma evict_fields: "rs_cacheTTL (evict pick r) = rs_cacheTTL r" "rs_maxCacheSize (evict pick r) = rs_maxCacheSize r"
  by (simp_all add: evict_def)

lemma evict_cache:
  assumes "int (length (rs_cache r)) \<le> max 1 (rs_maxCacheSize r)"
  shows "set (rs_cache (evict pick r)) \<subseteq> set (rs_cache r)" "distinct (map fst (rs_cache r)) \<Longrightarrow> distinct (map fst (rs_cache (evict pick r)))"
    "int (length (rs_cache (evict pick r))) < max 1 (rs_maxCacheSize r)"
proof -
  let ?c = "rs_cache r" and ?i = "pick mod length (rs_cache r)"
  have cut_at: "i < length xs \<Longrightarrow> length (take i xs @ drop (Suc i) xs) = length xs - 1" for i and xs :: "(string \<times> cacheEntry) list" by simp
  have cut: "?c \<noteq> [] \<Longrightarrow> length (take ?i ?c @ drop (Suc ?i) ?c) = length ?c - 1" by (rule cut_at) simp
  have d: "distinct (take i xs @ drop (Suc i) xs)" if "distinct xs" for i and xs :: "string list"
    using that by (metis distinct_append distinct_drop distinct_take set_take_disj_set_drop_if_distinct Suc_n_not_le_n nle_le)
  show "set (rs_cache (evict pick r)) \<subseteq> set ?c"
    by (auto simp: evict_def Let_def dest: in_set_takeD in_set_dropD split: if_splits)
  show "distinct (map fst (rs_cache (evict pick r)))" if "distinct (map fst ?c)"
    using that d [OF that, of ?i] by (simp add: evict_def Let_def take_map drop_map)
  show "int (length (rs_cache (evict pick r))) < max 1 (rs_maxCacheSize r)"
    using assms cut by (cases "?c = []") (auto simp: evict_def Let_def)
qed

lemma store_ok:
  assumes "cache_ok u ttl mx T r" "answers u ttl T (key, e)"
  shows "cache_ok u ttl mx T (store key e (evict pick r))"
proof -
  let ?r = "evict pick r"
  have len: "int (length (rs_cache r)) \<le> max 1 (rs_maxCacheSize r)" using assms(1) by (simp add: cache_ok_def)
  note ev = evict_cache [OF len, of pick]
  let ?rest = "filter (\<lambda>(k, _). k \<noteq> key) (rs_cache ?r)"
  have "int (length ?rest) \<le> int (length (rs_cache ?r))" by simp
  moreover have "int (length (rs_cache ?r)) < max 1 mx" using ev(3) assms(1) by (simp add: cache_ok_def)
  moreover have "int (length (rs_cache (store key e ?r))) = int (length ?rest) + 1" by (simp add: store_def)
  ultimately have "int (length (rs_cache (store key e ?r))) \<le> max 1 mx" by linarith
  moreover have "distinct (map fst (rs_cache (store key e ?r)))"
    using ev(2) assms(1) by (auto simp: store_def cache_ok_def distinct_map_filter)
  moreover have "\<forall>x \<in> set (rs_cache (store key e ?r)). answers u ttl T x"
    using ev(1) assms by (auto simp: store_def cache_ok_def)
  ultimately show ?thesis using assms(1) by (simp add: cache_ok_def store_def evict_fields)
qed

lemma unpack_fn: "dns_fn u k name t = Inr v \<Longrightarrow> unpack v = Inr v"
  by (cases k) (auto simp: dns_fn_def unpack_def map_sum_def split: sum.splits)

lemma locked_ok:
  assumes "cache_ok u ttl mx T r" "now' \<le> T" "lookup_locked now now' pick (dns_key k name) (dns_fn u k name) r = (res, r')"
  shows "cache_ok u ttl mx T r'"
proof (cases "cached now (dns_key k name) r")
  case None
  have ttl: "rs_cacheTTL r = ttl" using assms(1) by (simp add: cache_ok_def)
  have "unpack (case dns_fn u k name now' of Inl e \<Rightarrow> ErrorVal e | Inr v \<Rightarrow> v) = dns_fn u k name now'"
    by (cases "dns_fn u k name now'") (simp_all add: unpack_fn, simp add: unpack_def)
  then have "answers u ttl T (dns_key k name, \<lparr>ce_value = (case dns_fn u k name now' of Inl e \<Rightarrow> ErrorVal e | Inr v \<Rightarrow> v), ce_expiresAt = now' + ttl\<rparr>)"
    using assms(2) by (auto simp: answers_def)
  from store_ok [OF assms(1) this, of pick] show ?thesis using assms(3) None ttl
    by (auto simp: lookup_locked_def Let_def split: sum.splits)
qed (use assms in \<open>simp add: lookup_locked_def\<close>)

lemma dns_reach_ok: "dns_reach u r0 t r \<Longrightarrow> cache_ok u ttl mx T r0 \<Longrightarrow> t \<le> T \<Longrightarrow> cache_ok u ttl mx T r"
  by (induction rule: dns_reach.induct) (auto intro: locked_ok)

lemma NewResolver_ok: "cache_ok u ttl mx T (NewResolver ttl mx ml)"
  by (simp add: cache_ok_def NewResolver_def)

lemma cached_answer:
  assumes "cache_ok u ttl mx T r" "cached now (dns_key k name) r = Some res"
  shows "\<exists>t \<le> T. now < t + ttl \<and> res = dns_fn u k name t"
proof -
  obtain e where e: "map_of (rs_cache r) (dns_key k name) = Some e" "now < ce_expiresAt e" "res = unpack (ce_value e)"
    using assms(2) by (auto simp: cached_def split: option.splits if_splits)
  have "answers u ttl T (dns_key k name, e)" using assms(1) map_of_SomeD [OF e(1)] by (simp add: cache_ok_def)
  then obtain k' name' where "dns_key k name = dns_key k' name'" "unpack (ce_value e) = dns_fn u k' name' (ce_expiresAt e - ttl)"
    "ce_expiresAt e - ttl \<le> T" by (auto simp: answers_def)
  then show ?thesis using e by (intro exI [of _ "ce_expiresAt e - ttl"]) (simp add: dns_key_inj)
qed

text \<open>
  The answer at \<open>now3\<close> to a lookup that began at \<open>now1\<close>: what the DNS answers at \<open>now3\<close>, or what it
  answered before, but less than a time-to-live before \<open>now1\<close>.
\<close>

definition fresh_at :: "duration \<Rightarrow> time \<Rightarrow> time \<Rightarrow> time \<Rightarrow> bool" where
  "fresh_at ttl now1 now3 t \<longleftrightarrow> t \<le> now3 \<and> (t = now3 \<or> now1 < t + ttl)"

lemma lookup_answer:
  assumes "cache_ok u ttl mx now1 r" "cache_ok u ttl mx now2 r'" "now1 \<le> now2" "now2 \<le> now3"
    "dns_lookup now1 now2 now3 pick (dns_key k name) (dns_fn u k name) r r' = (res, r'')"
  shows "\<exists>t. fresh_at ttl now1 now3 t \<and> res = dns_fn u k name t"
proof (cases "cached now1 (dns_key k name) r")
  case None
  show ?thesis
  proof (cases "cached now2 (dns_key k name) r'")
    case None': None
    then show ?thesis using assms(5) None
      by (intro exI [of _ now3]) (auto simp: fresh_at_def dns_lookup_def lookup_locked_def Let_def split: sum.splits)
  next
    case (Some x)
    obtain t where "t \<le> now2" "now2 < t + ttl" "x = dns_fn u k name t" using cached_answer [OF assms(2) Some] by blast
    then show ?thesis using assms(3-5) None Some
      by (intro exI [of _ t]) (simp add: fresh_at_def dns_lookup_def lookup_locked_def)
  qed
next
  case (Some x)
  obtain t where "t \<le> now1" "now1 < t + ttl" "x = dns_fn u k name t" using cached_answer [OF assms(1) Some] by blast
  then show ?thesis using assms(3-5) Some by (intro exI [of _ t]) (simp add: fresh_at_def dns_lookup_def)
qed

lemma LookupTXT_ok:
  assumes r: "cache_ok u ttl mx now1 r" and r': "cache_ok u ttl mx now2 r'" and le: "now1 \<le> now2" "now2 \<le> now3"
    and l: "LookupTXT u now1 now2 now3 pick name r r' = (res, r'')"
  shows "(\<exists>t. fresh_at ttl now1 now3 t \<and> res = net_LookupTXT u t name) \<and> cache_ok u ttl mx now3 r''"
proof -
  obtain x where lk: "dns_lookup now1 now2 now3 pick (dns_key TXTKind name) (dns_fn u TXTKind name) r r' = (x, r'')"
    and res: "res = as_strings ''TXT'' x"
    using l by (auto simp: LookupTXT_def dns_key_def [abs_def] dns_fn_def [abs_def] Let_def split: prod.splits)
  obtain t where t: "fresh_at ttl now1 now3 t" "x = dns_fn u TXTKind name t"
    using lookup_answer [OF r r' le lk] by blast
  have "res = net_LookupTXT u t name"
    using res t(2) by (auto simp: as_strings_def dns_fn_def map_sum_def split: sum.splits)
  moreover have "cache_ok u ttl mx now3 r''"
    using lk locked_ok [OF cache_ok_mono [OF r' le(2)] order_refl] cache_ok_mono [OF r' le(2)]
    by (auto simp: dns_lookup_def split: option.splits)
  ultimately show ?thesis using t(1) by auto
qed

section \<open>Properties\<close>

text \<open>
  The cache answers as the DNS did. After any lookups, by any number of goroutines, a TXT
  lookup returns what the DNS answers now, or answered less than a time-to-live ago, for exactly
  that name: entries of other names or kinds never show, and the type assertion never fails. And
  the cache never holds more entries than its limit (one, if that is not positive).
\<close>

theorem cached_txt_answer:
  assumes "dns_reach u (NewResolver ttl mx ml) t1 r" "t1 \<le> now1" "dns_reach u r t2 r'" "t2 \<le> now2" "now1 \<le> now2" "now2 \<le> now3"
    "LookupTXT u now1 now2 now3 pick name r r' = (res, r'')"
  shows "(\<exists>t. t \<le> now3 \<and> (t = now3 \<or> now1 < t + ttl) \<and> res = net_LookupTXT u t name) \<and> int (length (rs_cache r'')) \<le> max 1 mx"
proof -
  have r: "cache_ok u ttl mx now1 r" by (rule dns_reach_ok [OF assms(1) NewResolver_ok assms(2)])
  have r': "cache_ok u ttl mx now2 r'" by (rule dns_reach_ok [OF assms(3) cache_ok_mono [OF r assms(5)] assms(4)])
  show ?thesis using LookupTXT_ok [OF r r' assms(5-7)] by (auto simp: cache_ok_def fresh_at_def)
qed

definition sample_dns :: upstream where
  "sample_dns = \<lparr>net_LookupHost = \<lambda>_ _. Inr [''10.0.0.1''], net_LookupTXT = \<lambda>t _. Inr [if t < 5 then ''old'' else ''new''],
     net_LookupMX = \<lambda>_ _. Inr [(''mx'', 10)]\<rparr>"

theorem cached_txt_answer_witness:
  "\<exists>r. dns_reach sample_dns (NewResolver 10 1 0) 0 r \<and> fst (LookupTXT sample_dns 6 6 6 0 ''a'' r r) = Inr [''old''] \<and>
     length (rs_cache (snd (LookupTXT sample_dns 6 6 6 0 ''a'' r r))) \<le> 1"
proof -
  obtain res r where l: "lookup_locked 0 0 0 (dns_key TXTKind ''a'') (dns_fn sample_dns TXTKind ''a'') (NewResolver 10 1 0) = (res, r)"
    by (cases "lookup_locked 0 0 0 (dns_key TXTKind ''a'') (dns_fn sample_dns TXTKind ''a'') (NewResolver 10 1 0)")
  have reach: "dns_reach sample_dns (NewResolver 10 1 0) 0 r" by (rule dns_reach.step [OF dns_reach.start order_refl order_refl l])
  have r: "rs_cache r = [(''txt:a'', \<lparr>ce_value = Strings [''old''], ce_expiresAt = 10\<rparr>)]"
    using l by (auto simp: lookup_locked_def cached_def NewResolver_def dns_fn_def sample_dns_def dns_key_def store_def evict_def Let_def)
  have fst: "fst (LookupTXT sample_dns 6 6 6 0 ''a'' r r) = Inr [''old'']"
    by (simp add: LookupTXT_def dns_lookup_def cached_def r unpack_def as_strings_def)
  have "int (length (rs_cache (snd (LookupTXT sample_dns 6 6 6 0 ''a'' r r)))) \<le> max 1 1"
    using cached_txt_answer [OF reach _ dns_reach.start [where t = 0], of 6 6 6 0 "''a''"]
    by (cases "LookupTXT sample_dns 6 6 6 0 ''a'' r r") simp
  then show ?thesis using reach fst by auto
qed

end
