(* ===== verification/AuthLookup.thy ===== *)
theory AuthLookup
  imports MailAuth DNSCache
begin

text \<open>
  The checkers on the DNS cache: \<open>caching_resolver.go\<close> of the packages spf and dmarc. What the
  checkers rely on is the interface of a source of TXT records; the cache provides it.
\<close>

section \<open>What a domain publishes for DMARC\<close>

text \<open>
  A part of a record is a tag: a key and a value around the first equals sign. The policy is the
  value of the last tag p. Case and outer white space do not count.
\<close>

definition has_tag :: "string \<Rightarrow> string \<Rightarrow> string \<Rightarrow> bool" where
  "has_tag part k v \<longleftrightarrow> (\<exists>a b. TrimSpace part = a @ ''='' @ b \<and> CHR ''='' \<notin> set a \<and>
     k = ToLower (TrimSpace a) \<and> v = ToLower (TrimSpace b))"

definition policy_says :: "string \<Rightarrow> string \<Rightarrow> bool" where
  "policy_says record v \<longleftrightarrow> (\<exists>xs part ys. Split record (CHR '';'') = xs @ part # ys \<and> has_tag part ''p'' v \<and>
     (\<forall>y \<in> set ys. \<forall>v. \<not> has_tag y ''p'' v))"

text \<open>The first of the TXT records that starts with v=dmarc1 has the policy.\<close>

definition dmarc_says :: "string list \<Rightarrow> string \<Rightarrow> bool" where
  "dmarc_says txts v \<longleftrightarrow> (\<exists>xs record ys. txts = xs @ record # ys \<and> HasPrefix (ToLower record) ''v=dmarc1'' \<and>
     (\<forall>x \<in> set xs. \<not> HasPrefix (ToLower x) ''v=dmarc1'') \<and> policy_says record v)"

text \<open>
  The domain of a message: that of the first address of its From header, or of its only one where
  the header is not a list, with one at sign.
\<close>

definition from_domain :: "mail_lib \<Rightarrow> string \<Rightarrow> string \<Rightarrow> bool" where
  "from_domain ml dat domain \<longleftrightarrow> (\<exists>get address user. ml_ReadMessage ml dat = Inr get \<and> get ''From'' \<noteq> [] \<and>
     ((\<exists>others. ml_ParseAddressList ml (get ''From'') = Inr (address # others)) \<or>
      (\<nexists>a as. ml_ParseAddressList ml (get ''From'') = Inr (a # as)) \<and> ml_ParseAddress ml (get ''From'') = Inr address) \<and>
     address = user @ ''@'' @ domain \<and> CHR ''@'' \<notin> set (user @ domain) \<and> domain \<noteq> [])"

lemma SplitN_two: "SplitN s c 2 = [k, v] \<longleftrightarrow> s = k @ c # v \<and> c \<notin> set k"
proof -
  have "SplitN s c 2 = (if c \<in> set s then [fst (Cut s c), snd (Cut s c)] else [s])"
    by (simp add: numeral_2_eq_2)
  moreover have "s = fst (Cut s c) @ c # snd (Cut s c) \<and> c \<notin> set (fst (Cut s c))" if "c \<in> set s"
    using that by (induction s) (auto split: prod.splits)
  ultimately show ?thesis by (auto simp: Cut_append)
qed

lemma dmarc_tag_policy:
  "dm_Policy (dmarc_tag part p) = v \<Longrightarrow> has_tag part ''p'' v \<or> (\<forall>v. \<not> has_tag part ''p'' v) \<and> dm_Policy p = v"
proof (cases "\<exists>a b. TrimSpace part = a @ CHR ''='' # b \<and> CHR ''='' \<notin> set a")
  case True
  then obtain a b where ab: "TrimSpace part = a @ CHR ''='' # b" "CHR ''='' \<notin> set a" by blast
  then have sp: "SplitN (TrimSpace part) (CHR ''='') 2 = [a, b]" by (simp add: SplitN_two)
  have tag: "has_tag part k v \<longleftrightarrow> k = ToLower (TrimSpace a) \<and> v = ToLower (TrimSpace b)" for k v
  proof -
    have "a' = a \<and> b' = b" if "TrimSpace part = a' @ CHR ''='' # b'" "CHR ''='' \<notin> set a'" for a' b'
      using that sp SplitN_two [of "TrimSpace part" "CHR ''=''" a' b'] by simp
    then show ?thesis using ab unfolding has_tag_def by auto
  qed
  assume "dm_Policy (dmarc_tag part p) = v"
  then show ?thesis using ab sp unfolding tag by (auto simp: dmarc_tag_def Let_def split: if_splits)
next
  case False
  have "SplitN (TrimSpace part) (CHR ''='') 2 \<noteq> [k, x]" for k x using False by (auto simp: SplitN_two)
  then have "dmarc_tag part p = p" by (auto simp: dmarc_tag_def Let_def split: list.split)
  then show "dm_Policy (dmarc_tag part p) = v \<Longrightarrow> ?thesis" using False by (auto simp: has_tag_def)
qed

lemma parse_policy:
  assumes "dm_Policy (parseDMARCRecord record) = v" "v \<noteq> ''none''"
  shows "policy_says record v"
proof -
  have "\<exists>xs part ys. ps = xs @ part # ys \<and> has_tag part ''p'' v \<and> (\<forall>y \<in> set ys. \<forall>v. \<not> has_tag y ''p'' v)"
    if "dm_Policy (fold dmarc_tag ps p) = v" "dm_Policy p \<noteq> v" for ps p
    using that(1)
  proof (induction ps rule: rev_induct)
    case (snoc x ps)
    then have "dm_Policy (dmarc_tag x (fold dmarc_tag ps p)) = v" by simp
    from dmarc_tag_policy [OF this] show ?case
    proof
      assume "has_tag x ''p'' v"
      then show ?case by (intro exI [of _ ps] exI [of _ x] exI [of _ "[]"]) simp
    next
      assume r: "(\<forall>v. \<not> has_tag x ''p'' v) \<and> dm_Policy (fold dmarc_tag ps p) = v"
      then obtain xs part ys where "ps = xs @ part # ys" "has_tag part ''p'' v" "\<forall>y \<in> set ys. \<forall>v. \<not> has_tag y ''p'' v"
        using snoc.IH by blast
      then show ?case using r by (intro exI [of _ xs] exI [of _ part] exI [of _ "ys @ [x]"]) auto
    qed
  qed (use that(2) in simp)
  then show ?thesis using assms unfolding policy_says_def parseDMARCRecord_def by auto
qed

lemma find_first: "List.find P xs = Some x \<Longrightarrow> \<exists>us vs. xs = us @ x # vs \<and> P x \<and> (\<forall>u \<in> set us. \<not> P u)"
proof (induction xs)
  case (Cons y ys)
  show ?case
  proof (cases "P y")
    case False
    then obtain us vs where "ys = us @ x # vs \<and> P x \<and> (\<forall>u \<in> set us. \<not> P u)" using Cons by auto
    then show ?thesis using False by (intro exI [of _ "y # us"] exI [of _ vs]) simp
  qed (use Cons.prems in \<open>auto intro: exI [of _ "[]"]\<close>)
qed simp

lemma parseFromHeader_domain:
  assumes "parseFromHeader ml dat = Inr address" "Split address (CHR ''@'') = [user, domain]" "domain \<noteq> []"
  shows "from_domain ml dat domain"
proof -
  obtain get where get: "ml_ReadMessage ml dat = Inr get" "get ''From'' \<noteq> []"
    using assms(1) by (auto simp: parseFromHeader_def Let_def split: sum.splits if_splits)
  have "(\<exists>others. ml_ParseAddressList ml (get ''From'') = Inr (address # others)) \<or>
      (\<nexists>a as. ml_ParseAddressList ml (get ''From'') = Inr (a # as)) \<and> ml_ParseAddress ml (get ''From'') = Inr address"
    using assms(1) get by (auto simp: parseFromHeader_def Let_def split: sum.splits list.splits)
  then show ?thesis using get assms(2,3) unfolding from_domain_def Split_pair_iff
    by (intro exI [of _ get] exI [of _ address] exI [of _ user]) simp
qed

section \<open>The interface\<close>

text \<open>
  A source that is in order answers with what was published for the name asked for, and is in
  order after it, at the later time.
\<close>

locale txt_source =
  fixes lookup :: "string \<Rightarrow> 'w \<Rightarrow> (go_error + string list) \<times> 'w"
    and published :: "string \<Rightarrow> go_error + string list \<Rightarrow> bool"
    and in_order in_order' :: "'w \<Rightarrow> bool"
  assumes answer: "in_order w \<Longrightarrow> published name (fst (lookup name w))"
    and stays: "in_order w \<Longrightarrow> in_order' (snd (lookup name w))"
    and later: "in_order w \<Longrightarrow> in_order' w"
begin

lemma spf_reject_published:
  assumes "in_order w"
    "fst (spf_OnMailFrom parseCIDR lookup c session sender w) = Some (NewError 550 ''5.7.23'' ''Message rejected due to SPF policy'')"
  shows "\<exists>ip domain txts. client_at session ip \<and> sender_in sender domain \<and>
     published domain (Inr txts) \<and> domain_says parseCIDR ip txts Fail"
proof -
  have "fst (spf_OnMailFrom parseCIDR lookup c session sender w) = spf_verdict Fail" using assms(2) by (simp add: spf_verdict_def)
  then show ?thesis using answer [OF assms(1)] spf_550 [of Fail parseCIDR lookup c session sender w] by (metis insertI1)
qed

lemma spf_keeps: "in_order w \<Longrightarrow> in_order' (snd (spf_OnMailFrom parseCIDR lookup c session sender w))"
  using stays [of w] later [of w]
  by (auto simp: spf_OnMailFrom_def spf_check_def Let_def split: option.splits list.splits prod.splits sum.splits)
    (metis snd_conv)+

lemma lookupDMARC_published:
  assumes "in_order w" "lookupDMARC lookup d w = (Inr (Some policy), w1)" "dm_Policy policy = v" "v \<noteq> ''none''"
  shows "\<exists>txts. published (''_dmarc.'' @ d) (Inr txts) \<and> dmarc_says txts v"
proof -
  obtain txts rcd where l: "lookup (''_dmarc.'' @ d) w = (Inr txts, w1)"
    and f: "List.find (\<lambda>r. HasPrefix (ToLower r) ''v=dmarc1'') txts = Some rcd" "policy = parseDMARCRecord rcd"
    using assms(2) by (auto simp: lookupDMARC_def split: prod.splits sum.splits)
  have "dmarc_says txts v" using find_first [OF f(1)] parse_policy [of rcd v] assms(3,4) f(2) unfolding dmarc_says_def by blast
  then show ?thesis using answer [OF assms(1), of "''_dmarc.'' @ d"] l by auto
qed

lemma dmarc_reject_published:
  assumes "in_order w" "fst (snd (dmarc_decide ml lookup c dat w)) = Some (NewError 550 ''5.7.26'' m)"
  shows "\<exists>domain txts. from_domain ml dat domain \<and> m = ''Message rejected due to DMARC policy for '' @ domain \<and>
     published (''_dmarc.'' @ domain) (Inr txts) \<and> dmarc_says txts ''reject''"
proof -
  obtain address where a: "parseFromHeader ml dat = Inr address"
    using assms(2) by (auto simp: dmarc_decide_def NewError_def split: sum.splits)
  obtain user domain where d: "Split address (CHR ''@'') = [user, domain]" "domain \<noteq> []"
    using assms(2) a by (auto simp: dmarc_decide_def NewError_def Let_def split: list.splits if_splits)
  obtain policy w2 where "lookupDMARC lookup domain w = (Inr (Some policy), w2)" "dm_Policy policy = ''reject''"
    and m: "m = ''Message rejected due to DMARC policy for '' @ domain"
    using assms(2) a d
    by (auto simp: dmarc_decide_def Let_def NewError_def split: sum.splits if_splits prod.splits option.splits)
  then show ?thesis using lookupDMARC_published [OF assms(1)] parseFromHeader_domain [OF a d] by fastforce
qed

end

section \<open>The cache as a source\<close>

text \<open>
  Lookups of other goroutines, which may come between the two locks of one: the times of their
  second look and of the answer of the DNS, the entry that eviction picks, and what they ask for.
\<close>

type_synonym other_lookup = "time \<times> time \<times> nat \<times> dns_kind \<times> string"

definition run_others :: "upstream \<Rightarrow> other_lookup list \<Rightarrow> Resolver \<Rightarrow> Resolver" where
  "run_others u = fold (\<lambda>(now, now', pick, k, name) r. snd (lookup_locked now now' pick (dns_key k name) (dns_fn u k name) r))"

definition others_by :: "time \<Rightarrow> other_lookup list \<Rightarrow> bool" where
  "others_by T = list_all (\<lambda>(now, now', _). now \<le> now' \<and> now' \<le> T)"

lemma run_others_ok: "others_by T ls \<Longrightarrow> cache_ok u ttl mx T r \<Longrightarrow> cache_ok u ttl mx T (run_others u ls r)"
proof (induction ls arbitrary: r)
  case (Cons x ls)
  obtain now now' pick k name where x: "x = (now, now', pick, k, name)" by (cases x)
  obtain res r1 where l: "lookup_locked now now' pick (dns_key k name) (dns_fn u k name) r = (res, r1)"
    by (cases "lookup_locked now now' pick (dns_key k name) (dns_fn u k name) r")
  have "cache_ok u ttl mx T r1" using locked_ok [OF Cons.prems(2) _ l] Cons.prems(1) x by (simp add: others_by_def)
  then show ?case using Cons x l by (simp add: run_others_def others_by_def)
qed (simp add: run_others_def)

text \<open>
  \<open>cachingResolver.LookupTXT\<close>: the cache is looked at at \<open>now\<close>; the lookups \<open>ls\<close> of others pass; it is
  looked at again \<open>d\<close> later, with the lock, and the DNS has answered \<open>d'\<close> after that.
\<close>

definition caching_LookupTXT ::
  "upstream \<Rightarrow> time \<Rightarrow> nat \<Rightarrow> nat \<Rightarrow> nat \<Rightarrow> other_lookup list \<Rightarrow> string \<Rightarrow> Resolver \<Rightarrow> (go_error + string list) \<times> Resolver" where
  "caching_LookupTXT u now d d' pick ls name r =
     LookupTXT u now (now + int d) (now + int d + int d') pick name r (run_others u ls r)"

definition NewCachingSPFChecker where
  "NewCachingSPFChecker parseCIDR u now d d' pick ls = SPFChecker parseCIDR (caching_LookupTXT u now d d' pick ls)"

text \<open>Published at the time of the answer, or before it but less than a time-to-live before the check began.\<close>

definition recently :: "upstream \<Rightarrow> duration \<Rightarrow> time \<Rightarrow> time \<Rightarrow> string \<Rightarrow> go_error + string list \<Rightarrow> bool" where
  "recently u ttl now now' name res \<longleftrightarrow> (\<exists>t. fresh_at ttl now now' t \<and> res = net_LookupTXT u t name)"

lemma caching_ok:
  assumes "cache_ok u ttl mx now r" "others_by (now + int d) ls"
  shows "recently u ttl now (now + int d + int d') name (fst (caching_LookupTXT u now d d' pick ls name r))"
    "cache_ok u ttl mx (now + int d + int d') (snd (caching_LookupTXT u now d d' pick ls name r))"
proof -
  let ?r = "run_others u ls r"
  have r: "cache_ok u ttl mx (now + int d) ?r" using run_others_ok [OF assms(2) cache_ok_mono [OF assms(1)]] by simp
  obtain res r' where l: "LookupTXT u now (now + int d) (now + int d + int d') pick name r ?r = (res, r')"
    by (cases "LookupTXT u now (now + int d) (now + int d + int d') pick name r ?r")
  from LookupTXT_ok [OF assms(1) r _ _ l]
  show "recently u ttl now (now + int d + int d') name (fst (caching_LookupTXT u now d d' pick ls name r))"
    "cache_ok u ttl mx (now + int d + int d') (snd (caching_LookupTXT u now d d' pick ls name r))"
    by (simp_all add: caching_LookupTXT_def l recently_def)
qed

interpretation cached: txt_source "caching_LookupTXT u now d d' pick ls" "recently u ttl now (now + int d + int d')"
    "\<lambda>r. cache_ok u ttl mx now r \<and> others_by (now + int d) ls" "cache_ok u ttl mx (now + int d + int d')"
  for u now d d' pick ls ttl mx
  by unfold_locales (auto intro: caching_ok cache_ok_mono)

section \<open>Properties\<close>

text \<open>
  C19: A rejection is based on what was published. With the checkers on the DNS cache, in every
  state the cache can reach, with other lookups in between: when SPF rejects a sender, the TXT
  records of the sender's domain, at the time of the answer or before it but less than a
  time-to-live before the check began, say \<open>Fail\<close> of the client's address. When DMARC rejects a
  message, the TXT records of the name _dmarc. in front of the domain of the message's own From
  header had, in the same sense, a DMARC record whose policy is reject.
\<close>

theorem rejection_published:
  assumes "dns_reach u (NewResolver ttl mx ml) t0 r" "t0 \<le> now" "others_by (now + int d) ls"
  shows "(fst (spf_OnMailFrom parseCIDR (caching_LookupTXT u now d d' pick ls) c session sender r) =
       Some (NewError 550 ''5.7.23'' ''Message rejected due to SPF policy'') \<longrightarrow>
     (\<exists>ip domain t txts. client_at session ip \<and> sender_in sender domain \<and>
        t \<le> now + int d + int d' \<and> (t = now + int d + int d' \<or> now < t + ttl) \<and>
        net_LookupTXT u t domain = Inr txts \<and> domain_says parseCIDR ip txts Fail)) \<and>
    (fst (snd (dmarc_decide lib (caching_LookupTXT u now d d' pick ls) c dat r)) = Some (NewError 550 ''5.7.26'' m) \<longrightarrow>
     (\<exists>domain t txts. from_domain lib dat domain \<and> m = ''Message rejected due to DMARC policy for '' @ domain \<and>
        t \<le> now + int d + int d' \<and> (t = now + int d + int d' \<or> now < t + ttl) \<and>
        net_LookupTXT u t (''_dmarc.'' @ domain) = Inr txts \<and> dmarc_says txts ''reject''))"
proof -
  have ok: "cache_ok u ttl mx now r \<and> others_by (now + int d) ls"
    using dns_reach_ok [OF assms(1) NewResolver_ok assms(2)] assms(3) by blast
  show ?thesis
    using cached.spf_reject_published [OF ok, of parseCIDR d' pick c session sender]
      cached.dmarc_reject_published [OF ok, of lib d' pick c dat m]
    unfolding recently_def fresh_at_def by (intro conjI impI) (blast dest: sym, metis)
qed

definition spf_dns :: upstream where
  "spf_dns = \<lparr>net_LookupHost = \<lambda>_ _. Inr [], net_LookupTXT = \<lambda>_ _. Inr [''v=spf1 ?include:x -all''], net_LookupMX = \<lambda>_ _. Inr []\<rparr>"

definition spf_client :: SessionInfo where
  "spf_client = \<lparr>si_SessionID = [], si_RemoteAddr = Some (TCPAddr (Some [1, 2, 3, 4]) ''1.2.3.4:5''), si_LocalAddr = [],
     si_IsTLS = False, si_HeloDomain = [], si_Username = []\<rparr>"

definition dmarc_dns :: upstream where
  "dmarc_dns = spf_dns\<lparr>net_LookupTXT := \<lambda>_ n. Inr (if n = ''_dmarc.b.org'' then [''v=DMARC1; p=reject''] else [])\<rparr>"

definition one_from :: mail_lib where
  "one_from = \<lparr>ml_ReadMessage = \<lambda>_. Inr (\<lambda>_. ''a@b.org''), ml_ParseAddressList = \<lambda>v. Inr [v], ml_ParseAddress = Inr\<rparr>"

theorem rejection_published_witness:
  "fst (spf_OnMailFrom (\<lambda>_. Inl (TextError ''CIDR'')) (caching_LookupTXT spf_dns 5 0 0 0 []) [] spf_client ''a@b.org'' (NewResolver 10 1 0)) =
     Some (NewError 550 ''5.7.23'' ''Message rejected due to SPF policy'') \<and>
   (\<exists>ip domain t txts. sender_in ''a@b.org'' domain \<and> t \<le> 5 \<and> net_LookupTXT spf_dns t domain = Inr txts \<and>
      domain_says (\<lambda>_. Inl (TextError ''CIDR'')) ip txts Fail) \<and>
   fst (snd (dmarc_decide one_from (caching_LookupTXT dmarc_dns 5 0 0 0 []) [] ''x'' (NewResolver 10 1 0))) =
     Some (NewError 550 ''5.7.26'' ''Message rejected due to DMARC policy for b.org'') \<and>
   (\<exists>domain t txts. from_domain one_from ''x'' domain \<and> net_LookupTXT dmarc_dns t (''_dmarc.'' @ domain) = Inr txts \<and>
      dmarc_says txts ''reject'')"
proof -
  let ?r = "NewResolver 10 1 0" and ?P = "\<lambda>_. Inl (TextError ''CIDR'')"
  have o: "others_by (5 + int 0) []" by (simp add: others_by_def)
  have spf: "fst (spf_OnMailFrom ?P (caching_LookupTXT spf_dns 5 0 0 0 []) [] spf_client ''a@b.org'' ?r) =
      Some (NewError 550 ''5.7.23'' ''Message rejected due to SPF policy'')" by code_simp
  have dmarc: "fst (snd (dmarc_decide one_from (caching_LookupTXT dmarc_dns 5 0 0 0 []) [] ''x'' ?r)) =
      Some (NewError 550 ''5.7.26'' ''Message rejected due to DMARC policy for b.org'')" by code_simp
  have "\<exists>ip domain t txts. sender_in ''a@b.org'' domain \<and> t \<le> 5 \<and> net_LookupTXT spf_dns t domain = Inr txts \<and> domain_says ?P ip txts Fail"
    using mp [OF conjunct1 [OF rejection_published [OF dns_reach.start order_refl o]] spf] by fastforce
  moreover have "\<exists>domain t txts. from_domain one_from ''x'' domain \<and> net_LookupTXT dmarc_dns t (''_dmarc.'' @ domain) = Inr txts \<and>
      dmarc_says txts ''reject''"
    using mp [OF conjunct2 [OF rejection_published [OF dns_reach.start order_refl o]] dmarc] by blast
  ultimately show ?thesis using spf dmarc by blast
qed

end
