(* ===== verification/DmarcReport.thy ===== *)
theory DmarcReport
  imports MailAuth "HOL-Library.List_Lexorder" "HOL-Library.Char_ord" "HOL-Library.Product_Lexorder"
begin

text \<open>
  The aggregate reports of the DMARC plugin, \<open>internal/plugins/dmarc/reporting.go\<close> and the report
  scheduler of \<open>dmarc.go\<close>. The XML encoder and the file system are arguments. The order in
  which Go visits the groups of a map is the argument \<open>ord\<close>; sorting is stable here, which
  loses nothing: as \<open>ord\<close> is any order, every sorted order of the records is a result.
\<close>

section \<open>Reports\<close>

record PolicyEvaluated =
  pe_Disposition :: string
  pe_DKIM :: string
  pe_SPF :: string

record Row =
  row_SourceIP :: string
  row_Count :: int
  row_PolicyEvaluated :: PolicyEvaluated

record Identifiers =
  id_EnvelopeFrom :: string
  id_HeaderFrom :: string

record AuthResult =
  ar_Domain :: string
  ar_Result :: string

record AuthResults =
  au_DKIM :: "AuthResult list"
  au_SPF :: "AuthResult list"

record Record =
  rc_Row :: Row
  rc_Identifiers :: Identifiers
  rc_AuthResults :: AuthResults

record ReportMetadata =
  rm_OrgName :: string
  rm_Email :: string
  rm_ReportID :: string
  rm_Begin :: int
  rm_End :: int

record PolicyPublished =
  pp_Domain :: string
  pp_ADKIM :: string
  pp_ASPF :: string
  pp_P :: string
  pp_SP :: string

record DMARCReport =
  dr_ReportMetadata :: ReportMetadata
  dr_PolicyPublished :: PolicyPublished
  dr_Records :: "Record list"

section \<open>Grouping\<close>

text \<open>Policy domain, source address and disposition.\<close>

type_synonym groupKey = "string \<times> string \<times> string"

definition groupKey_of :: "DMARCEvent \<Rightarrow> groupKey" where
  "groupKey_of e = (ev_PolicyDomain e, ev_SourceIP e, ev_Disposition e)"

fun add_event :: "groupKey \<Rightarrow> DMARCEvent \<Rightarrow> (groupKey \<times> DMARCEvent list) list \<Rightarrow> (groupKey \<times> DMARCEvent list) list" where
  "add_event k e [] = [(k, [e])]"
| "add_event k e ((k', evs) # gs) = (if k' = k then (k', evs @ [e]) # gs else (k', evs) # add_event k e gs)"

definition group_events :: "DMARCEvent list \<Rightarrow> (groupKey \<times> DMARCEvent list) list" where
  "group_events evs = fold (\<lambda>e. add_event (groupKey_of e) e) evs []"

fun record_of :: "groupKey \<times> DMARCEvent list \<Rightarrow> Record" where
  "record_of ((domain, sourceIP, disposition), evs) =
     \<lparr>rc_Row = \<lparr>row_SourceIP = sourceIP, row_Count = int (length evs),
        row_PolicyEvaluated = \<lparr>pe_Disposition = disposition, pe_DKIM = ev_DKIMResult (hd evs), pe_SPF = ev_SPFResult (hd evs)\<rparr>\<rparr>,
      rc_Identifiers = \<lparr>id_EnvelopeFrom = ev_EnvelopeFrom (hd evs), id_HeaderFrom = ev_HeaderFrom (hd evs)\<rparr>,
      rc_AuthResults =
        \<lparr>au_DKIM = [\<lparr>ar_Domain = ev_PolicyDomain (hd evs), ar_Result = ev_DKIMResult (hd evs)\<rparr>],
         au_SPF = [\<lparr>ar_Domain = ev_PolicyDomain (hd evs), ar_Result = ev_SPFResult (hd evs)\<rparr>]\<rparr>\<rparr>"

definition sort_records :: "Record list \<Rightarrow> Record list" where
  "sort_records = sort_key (\<lambda>r. (row_SourceIP (rc_Row r), id_EnvelopeFrom (rc_Identifiers r)))"

definition report_records ::
  "((groupKey \<times> DMARCEvent list) list \<Rightarrow> (groupKey \<times> DMARCEvent list) list) \<Rightarrow> DMARCEvent list \<Rightarrow> Record list" where
  "report_records ord evs = sort_records (map record_of (ord (group_events evs)))"

definition build_report :: "string \<Rightarrow> string \<Rightarrow> int \<Rightarrow> int \<Rightarrow> Record list \<Rightarrow> DMARCReport" where
  "build_report orgName orgEmail begins ends records =
     \<lparr>dr_ReportMetadata = \<lparr>rm_OrgName = orgName, rm_Email = orgEmail, rm_ReportID = Itoa begins @ ''-'' @ orgName,
        rm_Begin = begins, rm_End = ends\<rparr>,
      dr_PolicyPublished = \<lparr>pp_Domain = id_EnvelopeFrom (rc_Identifiers (hd records)), pp_ADKIM = ''r'', pp_ASPF = ''r'',
        pp_P = pe_Disposition (row_PolicyEvaluated (rc_Row (hd records))), pp_SP = ''none''\<rparr>,
      dr_Records = records\<rparr>"

section \<open>The event store\<close>

text \<open>\<open>AddEvent\<close> is with the plugin. The file written, if any, is returned with the result.\<close>

definition Clear :: "dmarc_world \<Rightarrow> dmarc_world" where
  "Clear w = w\<lparr>dw_Events := []\<rparr>"

record report_lib =
  rl_ord :: "(groupKey \<times> DMARCEvent list) list \<Rightarrow> (groupKey \<times> DMARCEvent list) list"
  rl_Encode :: "DMARCReport \<Rightarrow> go_error + string"
  rl_WriteFile :: "string \<Rightarrow> string \<Rightarrow> go_error option"

definition AggregateAndGenerateReport ::
  "report_lib \<Rightarrow> string \<Rightarrow> string \<Rightarrow> string \<Rightarrow> int \<Rightarrow> int \<Rightarrow> dmarc_world \<Rightarrow>
     (go_error + string) \<times> (string \<times> DMARCReport) option" where
  "AggregateAndGenerateReport L storagePath orgName orgEmail begins ends w =
     (if dw_Events w = [] then (Inr [], None)
      else
        (let report = build_report orgName orgEmail begins ends (report_records (rl_ord L) (dw_Events w)) in
         (case rl_Encode L report of
            Inl err \<Rightarrow> (Inl err, None)
          | Inr buf \<Rightarrow>
              (let filename = storagePath @ ''/dmarc_report_'' @ Itoa ends @ ''.xml'' in
               (case rl_WriteFile L filename buf of
                  Some err \<Rightarrow> (Inl err, None)
                | None \<Rightarrow> (Inr filename, Some (filename, report)))))))"

section \<open>Sending\<close>

definition ParseRUA :: "string \<Rightarrow> string list" where
  "ParseRUA record =
     concat (map (\<lambda>part. let p = TrimSpace part in
         if HasPrefix p ''rua='' then filter (\<lambda>uri. uri \<noteq> []) (map TrimSpace (Split (TrimPrefix p ''rua='') (CHR '','')))
         else []) (Split record (CHR '';'')))"

text \<open>What \<open>SendAggregateReport\<close> prints: it sends nothing.\<close>

definition SendAggregateReport :: "string \<Rightarrow> string list \<Rightarrow> string list" where
  "SendAggregateReport reportPath rua =
     map (\<lambda>uri. ''Would send DMARC report '' @ reportPath @ '' to '' @ TrimPrefix uri ''mailto:'' @ [LF])
       (filter (\<lambda>uri. HasPrefix uri ''mailto:'') rua)"

section \<open>The scheduler\<close>

definition Unix :: "time \<Rightarrow> int" where
  "Unix t = t div second - 62135596800"

text \<open>
  One pass of the scheduler's loop, begun at \<open>now\<close>. The store is locked by \<open>AggregateAndGenerateReport\<close>
  and again by \<open>Clear\<close>; \<open>late\<close> are the events that sessions record between the two.
\<close>

definition report_pass ::
  "report_lib \<Rightarrow> string \<Rightarrow> duration \<Rightarrow> string \<Rightarrow> time \<Rightarrow> DMARCEvent list \<Rightarrow> dmarc_world \<Rightarrow>
     dmarc_world \<times> (string \<times> DMARCReport) option \<times> string list" where
  "report_pass L storagePath interval lastPolicy now late w =
     (let orgName = (if storagePath = [] then ''Mailnative'' else storagePath);
          orgEmail = (if storagePath @ ''@localhost'' = ''@localhost'' then ''postmaster@mailnative.local''
                      else storagePath @ ''@localhost'');
          (res, file) = AggregateAndGenerateReport L storagePath orgName orgEmail (Unix (now - interval)) (Unix now) w;
          w1 = fold AddEvent late w
      in (case res of
            Inl err \<Rightarrow> (w1, file, [''Error generating DMARC report: '' @ err_Error err @ [LF]])
          | Inr reportPath \<Rightarrow>
              if reportPath \<noteq> [] then (Clear w1, file, SendAggregateReport reportPath (ParseRUA lastPolicy))
              else (w1, file, [])))"

section \<open>Properties\<close>

text \<open>Ranging over a map visits every entry once, in some order.\<close>

definition visits_all :: "('a list \<Rightarrow> 'a list) \<Rightarrow> 'a list \<Rightarrow> bool" where
  "visits_all ord gs \<longleftrightarrow> mset (ord gs) = mset gs"

text \<open>The group that a record stands for.\<close>

definition record_key :: "Record \<Rightarrow> groupKey" where
  "record_key r = (ar_Domain (hd (au_DKIM (rc_AuthResults r))), row_SourceIP (rc_Row r),
     pe_Disposition (row_PolicyEvaluated (rc_Row r)))"

text \<open>A grouping of events: the keys are distinct, and a key has the events with that key, in order.\<close>

definition grouped :: "DMARCEvent list \<Rightarrow> (groupKey \<times> DMARCEvent list) list \<Rightarrow> bool" where
  "grouped evs gs \<longleftrightarrow> distinct (map fst gs) \<and> set (map fst gs) = set (map groupKey_of evs) \<and>
     (\<forall>k es. (k, es) \<in> set gs \<longrightarrow> es = filter (\<lambda>e. groupKey_of e = k) evs)"

lemma add_event_keys:
  "set (map fst (add_event k e gs)) = insert k (set (map fst gs))"
  "distinct (map fst gs) \<Longrightarrow> distinct (map fst (add_event k e gs))"
  by (induction gs rule: add_event.induct) auto

lemma add_event_mem:
  "distinct (map fst gs) \<Longrightarrow> (k', es) \<in> set (add_event k e gs) \<longleftrightarrow>
     (if k' = k then es = (case map_of gs k of None \<Rightarrow> [e] | Some xs \<Rightarrow> xs @ [e]) else (k', es) \<in> set gs)"
  by (induction k e gs rule: add_event.induct) (auto simp: image_iff dest: map_of_SomeD weak_map_of_SomeI split: option.splits)

lemma group_events_snoc: "group_events (evs @ [e]) = add_event (groupKey_of e) e (group_events evs)"
  by (simp add: group_events_def)

lemma group_events_grouped: "grouped evs (group_events evs)"
proof (induction evs rule: rev_induct)
  case Nil
  then show ?case by (simp add: grouped_def group_events_def)
next
  case (snoc e evs)
  let ?g = "group_events evs" and ?k = "groupKey_of e"
  have d: "distinct (map fst ?g)" and ks: "set (map fst ?g) = set (map groupKey_of evs)"
    and m: "\<And>k es. (k, es) \<in> set ?g \<Longrightarrow> es = filter (\<lambda>x. groupKey_of x = k) evs"
    using snoc by (auto simp: grouped_def)
  have new: "(case map_of ?g ?k of None \<Rightarrow> [e] | Some xs \<Rightarrow> xs @ [e]) = filter (\<lambda>x. groupKey_of x = ?k) (evs @ [e])"
  proof (cases "map_of ?g ?k")
    case None
    then have "?k \<notin> set (map groupKey_of evs)" using ks by (metis map_of_eq_None_iff set_map)
    then have "filter (\<lambda>x. groupKey_of x = ?k) evs = []" by (auto simp: filter_empty_conv image_iff)
    then show ?thesis using None by simp
  next
    case (Some xs)
    then show ?thesis using m [OF map_of_SomeD [OF Some]] by simp
  qed
  have "es = filter (\<lambda>x. groupKey_of x = k) (evs @ [e])" if "(k, es) \<in> set (add_event ?k e ?g)" for k es
    using that m [of k es] new unfolding add_event_mem [OF d] by (cases "k = ?k") simp_all
  then show ?case unfolding grouped_def group_events_snoc add_event_keys(1) ks
    using add_event_keys(2) [OF d] by auto
qed

lemma record_key_of:
  assumes "grouped evs gs" "(k, es) \<in> set gs"
  shows "record_key (record_of (k, es)) = k"
    "row_Count (rc_Row (record_of (k, es))) = int (length (filter (\<lambda>e. groupKey_of e = k) evs))"
proof -
  obtain d ip x where k: "k = (d, ip, x)" by (cases k)
  have es: "es = filter (\<lambda>e. groupKey_of e = k) evs" using assms unfolding grouped_def by blast
  have "k \<in> set (map groupKey_of evs)" using assms by (force simp: grouped_def)
  then have "es \<noteq> []" using es by (auto simp: filter_empty_conv)
  then have "hd es \<in> set es" by simp
  then have "groupKey_of (hd es) = k" using es by auto
  then show "record_key (record_of (k, es)) = k" by (auto simp: record_key_def k groupKey_of_def)
  show "row_Count (rc_Row (record_of (k, es))) = int (length (filter (\<lambda>e. groupKey_of e = k) evs))"
    using es by (simp add: k)
qed

lemma report_records_mset:
  assumes "visits_all ord (group_events evs)"
  shows "mset (report_records ord evs) = mset (map record_of (group_events evs))"
  using assms by (simp add: report_records_def sort_records_def visits_all_def)

lemma report_records_keys:
  assumes "visits_all ord (group_events evs)"
  shows "distinct (map record_key (report_records ord evs))"
    "set (map record_key (report_records ord evs)) = set (map groupKey_of evs)"
proof -
  note g = group_events_grouped [of evs]
  have "map record_key (map record_of (group_events evs)) = map fst (group_events evs)"
    using record_key_of(1) [OF g] by auto
  then have "mset (map record_key (report_records ord evs)) = mset (map fst (group_events evs))"
    using report_records_mset [OF assms] by (metis mset_map)
  then show "distinct (map record_key (report_records ord evs))"
    "set (map record_key (report_records ord evs)) = set (map groupKey_of evs)"
    using g unfolding grouped_def by (metis mset_eq_imp_distinct_iff, metis mset_eq_setD)
qed

lemma report_records_counts:
  assumes "visits_all ord (group_events evs)" "r \<in> set (report_records ord evs)"
  shows "row_Count (rc_Row r) = int (length (filter (\<lambda>e. groupKey_of e = record_key r) evs))"
proof -
  have "r \<in> set (map record_of (group_events evs))"
    using assms(2) report_records_mset [OF assms(1)] by (metis set_mset_mset)
  then obtain k es where "(k, es) \<in> set (group_events evs)" "r = record_of (k, es)" by auto
  then show ?thesis using record_key_of [OF group_events_grouped] by simp
qed

lemma sum_of_groups:
  assumes "distinct ks" "set ks = set (map f xs)"
  shows "sum_list (map (\<lambda>k. length (filter (\<lambda>x. f x = k) xs)) ks) = length xs"
proof -
  have "count (mset (map f xs)) k = length (filter (\<lambda>x. f x = k) xs)" for k
    by (induction xs) auto
  then have "sum_list (map (\<lambda>k. length (filter (\<lambda>x. f x = k) xs)) ks) = sum (count (mset (map f xs))) (set ks)"
    using assms(1) by (simp add: sum_list_distinct_conv_sum_set)
  also have "\<dots> = size (mset (map f xs))"
    using assms(2) by (simp only: size_multiset_overloaded_eq set_mset_mset)
  finally show ?thesis by simp
qed

lemma report_records_total:
  assumes "visits_all ord (group_events evs)"
  shows "sum_list (map (\<lambda>r. row_Count (rc_Row r)) (report_records ord evs)) = int (length evs)"
proof -
  let ?rs = "report_records ord evs"
  have "map (\<lambda>r. row_Count (rc_Row r)) ?rs = map (\<lambda>k. int (length (filter (\<lambda>e. groupKey_of e = k) evs))) (map record_key ?rs)"
    using report_records_counts [OF assms] by simp
  then have "sum_list (map (\<lambda>r. row_Count (rc_Row r)) ?rs) =
      int (sum_list (map (\<lambda>k. length (filter (\<lambda>e. groupKey_of e = k) evs)) (map record_key ?rs)))"
    by (simp add: sum_list_sum_nth)
  then show ?thesis using sum_of_groups [OF report_records_keys [OF assms]] by simp
qed

lemma AddEvent_fold: "fold AddEvent evs w = w\<lparr>dw_Events := dw_Events w @ evs\<rparr>"
  by (induction evs arbitrary: w) (simp_all add: AddEvent_def)

text \<open>
  C27: A report counts every event once, and a late event never. When a pass of the scheduler
  writes a report, in whatever order the groups are visited, its records are sorted, have
  distinct groups, and the count of a record is the number of events of its group that were in
  the store when the report was made; the counts add up to all of them. After it the store is
  empty: events recorded while the report was being written are in no report. When no report is
  written every event is kept.
\<close>

theorem report_counts:
  assumes "visits_all (rl_ord L) (group_events (dw_Events w))"
    "report_pass L path interval pol now late w = (w', file, out)"
  shows "case file of
      None \<Rightarrow> dw_Events w' = dw_Events w @ late
    | Some (name, report) \<Rightarrow>
        dw_Events w' = [] \<and> distinct (map record_key (dr_Records report)) \<and>
        sorted (map (\<lambda>r. (row_SourceIP (rc_Row r), id_EnvelopeFrom (rc_Identifiers r))) (dr_Records report)) \<and>
        list_all (\<lambda>r. row_Count (rc_Row r) = int (length (filter (\<lambda>e. groupKey_of e = record_key r) (dw_Events w)))) (dr_Records report) \<and>
        sum_list (map (\<lambda>r. row_Count (rc_Row r)) (dr_Records report)) = int (length (dw_Events w))"
proof -
  let ?rs = "report_records (rl_ord L) (dw_Events w)"
  have "sorted (map (\<lambda>r. (row_SourceIP (rc_Row r), id_EnvelopeFrom (rc_Identifiers r))) ?rs)"
    by (simp add: report_records_def sort_records_def)
  moreover have "list_all (\<lambda>r. row_Count (rc_Row r) = int (length (filter (\<lambda>e. groupKey_of e = record_key r) (dw_Events w)))) ?rs"
    using report_records_counts [OF assms(1)] by (simp add: list_all_iff)
  moreover have "file = None \<and> dw_Events w' = dw_Events w @ late \<or>
      (\<exists>name report. file = Some (name, report) \<and> dr_Records report = ?rs \<and> dw_Events w' = [])"
    using assms(2)
    by (auto simp: report_pass_def AggregateAndGenerateReport_def Let_def build_report_def AddEvent_fold Clear_def
        split: if_splits sum.splits option.splits)
  ultimately show ?thesis
    using report_records_keys(1) [OF assms(1)] report_records_total [OF assms(1)] by (elim disjE exE) simp_all
qed

definition event_from :: "string \<Rightarrow> string \<Rightarrow> DMARCEvent" where
  "event_from ip d = dmarc_event 0
     \<lparr>si_SessionID = [], si_RemoteAddr = Some (OtherAddr ip), si_LocalAddr = [], si_IsTLS = False, si_HeloDomain = [], si_Username = []\<rparr>
     \<lparr>mi_From = ''a@'' @ d, mi_To = [], mi_Data = []\<rparr> d"

theorem report_counts_witness:
  "\<exists>w' name report out.
     report_pass \<lparr>rl_ord = rev, rl_Encode = (\<lambda>_. Inr ''xml''), rl_WriteFile = (\<lambda>_ _. None)\<rparr> ''/tmp'' (24 * 60 * minute)
       ''rua=mailto:postmaster@mailnative.local'' 0 [event_from ''9.9.9.9'' ''late.org'']
       \<lparr>dw_now = 0, dw_Events = [event_from ''2.2.2.2'' ''b.org'', event_from ''1.1.1.1'' ''a.org'', event_from ''2.2.2.2'' ''b.org''],
        dw_scheduler = True\<rparr> = (w', Some (name, report), out) \<and>
     dw_Events w' = [] \<and> sum_list (map (\<lambda>r. row_Count (rc_Row r)) (dr_Records report)) = 3"
proof -
  let ?L = "\<lparr>rl_ord = rev, rl_Encode = (\<lambda>_. Inr ''xml''), rl_WriteFile = (\<lambda>_ _. None)\<rparr>"
  let ?w = "\<lparr>dw_now = 0, dw_Events = [event_from ''2.2.2.2'' ''b.org'', event_from ''1.1.1.1'' ''a.org'', event_from ''2.2.2.2'' ''b.org''],
        dw_scheduler = True\<rparr>"
  let ?p = "report_pass ?L ''/tmp'' (24 * 60 * minute) ''rua=mailto:postmaster@mailnative.local'' 0 [event_from ''9.9.9.9'' ''late.org''] ?w"
  obtain w' written out where p: "?p = (w', written, out)" by (cases ?p)
  have "fst (snd ?p) \<noteq> None"
    by (auto simp: report_pass_def AggregateAndGenerateReport_def Let_def)
  then obtain name report where f: "written = Some (name, report)" using p by auto
  show ?thesis using report_counts [OF _ p] p f by (auto simp: visits_all_def)
qed

end
