(* ===== verification/Health.thy ===== *)
theory Health
  imports ServerLoop
begin

text \<open>
  The health endpoint, \<open>internal/health/health.go\<close>. The two gauges of package metrics that it reads
  hold whole numbers and are arguments, as are the texts of durations and times; the body of
  the response is the value that is encoded as JSON.
\<close>

record HealthStatus =
  hs_Status :: string
  hs_Version :: string
  hs_Uptime :: string
  hs_Connections :: int
  hs_QueueSize :: int
  hs_LastError :: string
  hs_Timestamp :: time

record HealthChecker =
  hc_startTime :: time
  hc_lastError :: string

definition NewHealthChecker :: "time \<Rightarrow> HealthChecker" where
  "NewHealthChecker now = \<lparr>hc_startTime = now, hc_lastError = []\<rparr>"

definition SetLastError :: "string \<Rightarrow> HealthChecker \<Rightarrow> HealthChecker" where
  "SetLastError err h = h\<lparr>hc_lastError := err\<rparr>"

definition GetStatus :: "(duration \<Rightarrow> string) \<Rightarrow> time \<Rightarrow> int \<Rightarrow> int \<Rightarrow> HealthChecker \<Rightarrow> HealthStatus" where
  "GetStatus durText now active ready h =
     \<lparr>hs_Status = (if hc_lastError h \<noteq> [] then ''degraded'' else ''healthy''), hs_Version = ''1.0.0'',
      hs_Uptime = durText (time_Sub now (hc_startTime h)), hs_Connections = active, hs_QueueSize = ready,
      hs_LastError = hc_lastError h, hs_Timestamp = now\<rparr>"

record Status =
  st_Status :: string
  st_ActiveConnections :: int
  st_QueueSize :: int
  st_Timestamp :: string

text \<open>A response: status code, content type and body.\<close>

record 'b response =
  rs_Code :: nat
  rs_ContentType :: string
  rs_Body :: 'b

definition health_response :: "string \<Rightarrow> 'b \<Rightarrow> 'b response" where
  "health_response status body =
     \<lparr>rs_Code = (if status = ''degraded'' then 503 else 200), rs_ContentType = ''application/json'', rs_Body = body\<rparr>"

definition checker_Handler :: "(duration \<Rightarrow> string) \<Rightarrow> time \<Rightarrow> int \<Rightarrow> int \<Rightarrow> HealthChecker \<Rightarrow> HealthStatus response" where
  "checker_Handler durText now active ready h =
     (let status = GetStatus durText now active ready h in health_response (hs_Status status) status)"

definition health_Handler :: "(time \<Rightarrow> string) \<Rightarrow> time \<Rightarrow> int \<Rightarrow> int \<Rightarrow> Status response" where
  "health_Handler timeText now active ready =
     (let status = (if active > 1000 \<or> ready > 10000 then ''degraded'' else ''healthy'') in
      health_response status \<lparr>st_Status = status, st_ActiveConnections = active, st_QueueSize = ready, st_Timestamp = timeText now\<rparr>)"

section \<open>The endpoint and the server\<close>

lemma health_Handler_code:
  "rs_Code (health_Handler timeText now active ready) = (if active > 1000 \<or> ready > 10000 then 503 else 200)"
  by (simp add: health_Handler_def health_response_def)

lemma checker_Handler_code:
  "rs_Code (checker_Handler durText now active ready (SetLastError err (NewHealthChecker t))) = (if err = [] then 200 else 503)"
  by (simp add: checker_Handler_def health_response_def GetStatus_def SetLastError_def NewHealthChecker_def Let_def)

end
