(* ===== verification/SmtpClient.thy ===== *)
theory SmtpClient
  imports GoErrors Config
begin

text \<open>
  The SMTP client and its pool, \<open>pkg/outbound/smtp_client.go\<close>. Of package \<open>net/smtp\<close> the
  client's handshake state is modelled (whether it has said hello, the extensions of the
  server), with the checks its methods make on it; what the peer answers to a command is an
  operation of the record \<open>smtp_net\<close> on a world \<open>'w\<close>, for a connection given by its number.
  Clients are shared by pointer, so the pool keeps them in a store under their numbers.
\<close>

section \<open>Package net/smtp\<close>

record 'w smtp_net =
  sn_Dial :: "nat \<Rightarrow> string \<Rightarrow> 'w \<Rightarrow> go_error option \<times> 'w"
  sn_Greeting :: "nat \<Rightarrow> 'w \<Rightarrow> go_error option \<times> 'w"
  sn_Ehlo :: "nat \<Rightarrow> string \<Rightarrow> 'w \<Rightarrow> (go_error + (string \<times> string) list) \<times> 'w"
  sn_Helo :: "nat \<Rightarrow> string \<Rightarrow> 'w \<Rightarrow> go_error option \<times> 'w"
  sn_StartTLS :: "nat \<Rightarrow> string \<Rightarrow> 'w \<Rightarrow> go_error option \<times> 'w"
  sn_Cmd :: "nat \<Rightarrow> string \<Rightarrow> 'w \<Rightarrow> go_error option \<times> 'w"
  sn_Write :: "nat \<Rightarrow> string \<Rightarrow> 'w \<Rightarrow> go_error option \<times> 'w"
  sn_DataEnd :: "nat \<Rightarrow> 'w \<Rightarrow> go_error option \<times> 'w"
  sn_Close :: "nat \<Rightarrow> 'w \<Rightarrow> go_error option \<times> 'w"

text \<open>\<open>smtp.Client\<close>: extensions are None where the map is nil.\<close>

record net_client =
  nc_localName :: string
  nc_didHello :: bool
  nc_helloError :: "go_error option"
  nc_ext :: "(string \<times> string) list option"

definition nc_new :: net_client where
  "nc_new = \<lparr>nc_localName = ''localhost'', nc_didHello = False, nc_helloError = None, nc_ext = None\<rparr>"

definition validateLine :: "string \<Rightarrow> go_error option" where
  "validateLine l = (if ContainsAny l (LF # [CR]) then Some (TextError ''smtp: A line must not contain CR or LF'') else None)"

definition nc_ehlo :: "'w smtp_net \<Rightarrow> nat \<Rightarrow> net_client \<Rightarrow> 'w \<Rightarrow> go_error option \<times> net_client \<times> 'w" where
  "nc_ehlo n c cl w =
     (case sn_Ehlo n c (nc_localName cl) w of
        (Inl err, w1) \<Rightarrow> (Some err, cl, w1)
      | (Inr ext, w1) \<Rightarrow> (None, cl\<lparr>nc_ext := Some ext\<rparr>, w1))"

text \<open>The unexported \<open>hello\<close>: EHLO once, HELO where that fails.\<close>

definition nc_hello :: "'w smtp_net \<Rightarrow> nat \<Rightarrow> net_client \<Rightarrow> 'w \<Rightarrow> go_error option \<times> net_client \<times> 'w" where
  "nc_hello n c cl w =
     (if nc_didHello cl then (nc_helloError cl, cl, w)
      else (case nc_ehlo n c (cl\<lparr>nc_didHello := True\<rparr>) w of
        (None, cl1, w1) \<Rightarrow> (nc_helloError cl1, cl1, w1)
      | (Some _, cl1, w1) \<Rightarrow>
          (let (err, w2) = sn_Helo n c (nc_localName cl1) w1
           in (err, cl1\<lparr>nc_ext := None, nc_helloError := err\<rparr>, w2))))"

definition nc_Hello :: "'w smtp_net \<Rightarrow> nat \<Rightarrow> string \<Rightarrow> net_client \<Rightarrow> 'w \<Rightarrow> go_error option \<times> net_client \<times> 'w" where
  "nc_Hello n c localName cl w =
     (case validateLine localName of
        Some err \<Rightarrow> (Some err, cl, w)
      | None \<Rightarrow>
          if nc_didHello cl then (Some (TextError ''smtp: Hello called after other methods''), cl, w)
          else nc_hello n c (cl\<lparr>nc_localName := localName\<rparr>) w)"

definition nc_Extension :: "'w smtp_net \<Rightarrow> nat \<Rightarrow> string \<Rightarrow> net_client \<Rightarrow> 'w \<Rightarrow> bool \<times> net_client \<times> 'w" where
  "nc_Extension n c ext cl w =
     (case nc_hello n c cl w of
        (Some _, cl1, w1) \<Rightarrow> (False, cl1, w1)
      | (None, cl1, w1) \<Rightarrow>
          ((case nc_ext cl1 of None \<Rightarrow> False | Some m \<Rightarrow> map_of (rev m) (ToUpper ext) \<noteq> None), cl1, w1))"

definition nc_StartTLS :: "'w smtp_net \<Rightarrow> nat \<Rightarrow> string \<Rightarrow> net_client \<Rightarrow> 'w \<Rightarrow> go_error option \<times> net_client \<times> 'w" where
  "nc_StartTLS n c serverName cl w =
     (case nc_hello n c cl w of
        (Some err, cl1, w1) \<Rightarrow> (Some err, cl1, w1)
      | (None, cl1, w1) \<Rightarrow>
          (case sn_StartTLS n c serverName w1 of
             (Some err, w2) \<Rightarrow> (Some err, cl1, w2)
           | (None, w2) \<Rightarrow> nc_ehlo n c cl1 w2))"

definition nc_Reset :: "'w smtp_net \<Rightarrow> nat \<Rightarrow> net_client \<Rightarrow> 'w \<Rightarrow> go_error option \<times> net_client \<times> 'w" where
  "nc_Reset n c cl w =
     (case nc_hello n c cl w of
        (Some err, cl1, w1) \<Rightarrow> (Some err, cl1, w1)
      | (None, cl1, w1) \<Rightarrow> (let (err, w2) = sn_Cmd n c ''RSET'' w1 in (err, cl1, w2)))"

definition nc_Mail :: "'w smtp_net \<Rightarrow> nat \<Rightarrow> string \<Rightarrow> net_client \<Rightarrow> 'w \<Rightarrow> go_error option \<times> net_client \<times> 'w" where
  "nc_Mail n c from cl w =
     (case validateLine from of
        Some err \<Rightarrow> (Some err, cl, w)
      | None \<Rightarrow>
          (case nc_hello n c cl w of
             (Some err, cl1, w1) \<Rightarrow> (Some err, cl1, w1)
           | (None, cl1, w1) \<Rightarrow>
               (let has = (\<lambda>x. case nc_ext cl1 of None \<Rightarrow> False | Some m \<Rightarrow> map_of (rev m) x \<noteq> None);
                    (err, w2) = sn_Cmd n c (''MAIL FROM:<'' @ from @ ''>'' @
                       (if has ''8BITMIME'' then '' BODY=8BITMIME'' else []) @ (if has ''SMTPUTF8'' then '' SMTPUTF8'' else [])) w1
                in (err, cl1, w2))))"

definition nc_Rcpt :: "'w smtp_net \<Rightarrow> nat \<Rightarrow> string \<Rightarrow> 'w \<Rightarrow> go_error option \<times> 'w" where
  "nc_Rcpt n c to w =
     (case validateLine to of
        Some err \<Rightarrow> (Some err, w)
      | None \<Rightarrow> sn_Cmd n c (''RCPT TO:<'' @ to @ ''>'') w)"

definition nc_Quit :: "'w smtp_net \<Rightarrow> nat \<Rightarrow> net_client \<Rightarrow> 'w \<Rightarrow> go_error option \<times> net_client \<times> 'w" where
  "nc_Quit n c cl w =
     (case nc_hello n c cl w of
        (_, cl1, w1) \<Rightarrow>
          (case sn_Cmd n c ''QUIT'' w1 of
             (Some err, w2) \<Rightarrow> (Some err, cl1, w2)
           | (None, w2) \<Rightarrow> (let (err, w3) = sn_Close n c w2 in (err, cl1, w3))))"

section \<open>The client\<close>

text \<open>
  The TLS configuration is a pointer shared by all clients of a pool; of it the server name
  matters, which the code sets when it is empty.
\<close>

record SMTPClientConfig =
  so_ConnectTimeout :: duration
  so_SendTimeout :: duration
  so_IdleTimeout :: duration
  so_MaxConnections :: int
  so_TLSEnabled :: bool
  so_TLSConfig :: "string option"
  so_HeloHostname :: string

definition DefaultSMTPClientConfig :: "string \<Rightarrow> SMTPClientConfig" where
  "DefaultSMTPClientConfig hostname =
     \<lparr>so_ConnectTimeout = 10 * second, so_SendTimeout = 30 * second, so_IdleTimeout = 5 * minute,
      so_MaxConnections = 10, so_TLSEnabled = True, so_TLSConfig = None,
      so_HeloHostname = if hostname = [] then ''localhost.localdomain'' else hostname\<rparr>"

definition convertSMTPClientConfig :: "string \<Rightarrow> SMTPClientSettings \<Rightarrow> SMTPClientConfig" where
  "convertSMTPClientConfig hostname cfg =
     (DefaultSMTPClientConfig hostname)
       \<lparr>so_ConnectTimeout := ConnectTimeout cfg, so_MaxConnections := cl_MaxConnections cfg,
        so_IdleTimeout := cl_IdleTimeout cfg\<rparr>"

text \<open>A client whose fields \<open>client\<close> and \<open>conn\<close> are nil has None.\<close>

text \<open>
  A client with its mutex; the connection is closed with the client (\<open>conn\<close> and \<open>client\<close> are nil
  together). A \<open>sync.Mutex\<close> is not reentrant: whoever locks it while it is locked, the goroutine
  that holds it included, waits until it is unlocked.
\<close>

record SMTPClient =
  sc_host :: string
  sc_client :: "net_client option"
  sc_locked :: bool

definition mu_Lock :: "SMTPClient \<Rightarrow> SMTPClient option" where
  "mu_Lock s = (if sc_locked s then None else Some (s\<lparr>sc_locked := True\<rparr>))"

definition mu_Unlock :: "SMTPClient \<Rightarrow> SMTPClient" where
  "mu_Unlock s = s\<lparr>sc_locked := False\<rparr>"

definition dial_address :: "string \<Rightarrow> string" where
  "dial_address host = (if Contains host '':'' then host else host @ '':25'')"

definition secure_client ::
  "'w smtp_net \<Rightarrow> nat \<Rightarrow> string \<Rightarrow> SMTPClientConfig \<Rightarrow> net_client \<Rightarrow> 'w \<Rightarrow>
     (go_error + net_client) \<times> SMTPClientConfig \<times> 'w" where
  "secure_client n c host config cl w =
     (if \<not> so_TLSEnabled config then (Inr cl, config, w)
      else (case nc_Extension n c ''STARTTLS'' cl w of
        (False, cl1, w1) \<Rightarrow> (Inr cl1, config, w1)
      | (True, cl1, w1) \<Rightarrow>
          (let (serverName, config1) = (case so_TLSConfig config of
                  None \<Rightarrow> (host, config)
                | Some name \<Rightarrow> if name = [] then (host, config\<lparr>so_TLSConfig := Some host\<rparr>) else (name, config))
           in (case nc_StartTLS n c serverName cl1 w1 of
                 (Some err, cl2, w2) \<Rightarrow>
                   (Inl (Wrapped (''STARTTLS failed for '' @ host @ '': '') err []), config1, snd (sn_Close n c w2))
               | (None, cl2, w2) \<Rightarrow>
                   (case nc_Hello n c (so_HeloHostname config1) cl2 w2 of
                      (Some err, cl3, w3) \<Rightarrow>
                        (Inl (Wrapped (''failed HELO/EHLO after STARTTLS to '' @ host @ '': '') err []), config1,
                         snd (sn_Close n c w3))
                    | (None, cl3, w3) \<Rightarrow> (Inr cl3, config1, w3))))))"

definition newSMTPClient ::
  "'w smtp_net \<Rightarrow> nat \<Rightarrow> string \<Rightarrow> SMTPClientConfig \<Rightarrow> 'w \<Rightarrow> (go_error + SMTPClient) \<times> SMTPClientConfig \<times> 'w" where
  "newSMTPClient n c host config w =
     (case sn_Dial n c (dial_address host) w of
        (Some err, w1) \<Rightarrow> (Inl (Wrapped (''failed to dial '' @ dial_address host @ '': '') err []), config, w1)
      | (None, w1) \<Rightarrow>
          (case sn_Greeting n c w1 of
             (Some err, w2) \<Rightarrow>
               (Inl (Wrapped (''failed to create smtp client for '' @ host @ '': '') err []), config, snd (sn_Close n c w2))
           | (None, w2) \<Rightarrow>
               (case nc_Hello n c (so_HeloHostname config) nc_new w2 of
                  (Some err, cl, w3) \<Rightarrow>
                    (Inl (Wrapped (''failed HELO/EHLO to '' @ host @ '': '') err []), config, snd (sn_Close n c w3))
                | (None, cl, w3) \<Rightarrow>
                    (case secure_client n c host config cl w3 of
                       (Inl err, config1, w4) \<Rightarrow> (Inl err, config1, w4)
                     | (Inr cl1, config1, w4) \<Rightarrow> (Inr \<lparr>sc_host = host, sc_client = Some cl1, sc_locked = False\<rparr>, config1, w4)))))"

fun send_rcpts :: "'w smtp_net \<Rightarrow> nat \<Rightarrow> string list \<Rightarrow> 'w \<Rightarrow> go_error option \<times> 'w" where
  "send_rcpts n c [] w = (None, w)"
| "send_rcpts n c (addr # to) w =
     (case nc_Rcpt n c addr w of
        (Some err, w1) \<Rightarrow> (Some (Wrapped (''RCPT TO '' @ addr @ '' failed: '') err []), w1)
      | (None, w1) \<Rightarrow> send_rcpts n c to w1)"

definition send_data :: "'w smtp_net \<Rightarrow> nat \<Rightarrow> string \<Rightarrow> 'w \<Rightarrow> go_error option \<times> 'w" where
  "send_data n c dat w =
     (case sn_Cmd n c ''DATA'' w of
        (Some err, w1) \<Rightarrow> (Some (Wrapped ''DATA command failed: '' err []), w1)
      | (None, w1) \<Rightarrow>
          (case sn_Write n c dat w1 of
             (Some err, w2) \<Rightarrow> (Some (Wrapped ''failed writing message data: '' err []), snd (sn_DataEnd n c w2))
           | (None, w2) \<Rightarrow>
               (case sn_DataEnd n c w2 of
                  (Some err, w3) \<Rightarrow> (Some (Wrapped ''failed closing data writer: '' err []), w3)
                | (None, w3) \<Rightarrow> (None, w3))))"

text \<open>
  \<open>Close\<close> and \<open>Send\<close> lock the mutex first and unlock it when they return (the deferred call).
  Each is given as its body, which runs with the mutex held, and the method around it. A call
  that waits for a mutex which nobody will unlock does not return.
\<close>

datatype close_outcome = CloseReturns "go_error option" | CloseBlocks

definition close_locked :: "'w smtp_net \<Rightarrow> nat \<Rightarrow> SMTPClient \<Rightarrow> 'w \<Rightarrow> go_error option \<times> SMTPClient \<times> 'w" where
  "close_locked n c s w =
     (case sc_client s of
        None \<Rightarrow> (None, s, w)
      | Some cl \<Rightarrow>
          (let (errQuit, cl1, w1) = nc_Quit n c cl w;
               (errClose, w2) = sn_Close n c w1
           in ((case errClose of
                  Some e \<Rightarrow>
                    (case errQuit of
                       Some q \<Rightarrow> Some (Wrapped (''quit failed ('' @ err_Error q @ '') and close failed: '') e [])
                     | None \<Rightarrow> Some (Wrapped ''failed to close connection: '' e []))
                | None \<Rightarrow> map_option (\<lambda>q. Wrapped ''QUIT command failed: '' q []) errQuit),
               s\<lparr>sc_client := None\<rparr>, w2)))"

definition client_Close :: "'w smtp_net \<Rightarrow> nat \<Rightarrow> SMTPClient \<Rightarrow> 'w \<Rightarrow> close_outcome \<times> SMTPClient \<times> 'w" where
  "client_Close n c s w =
     (case mu_Lock s of
        None \<Rightarrow> (CloseBlocks, s, w)
      | Some s0 \<Rightarrow> (let (err, s1, w1) = close_locked n c s0 w in (CloseReturns err, mu_Unlock s1, w1)))"

datatype send_outcome = SendReturns "go_error option" | SendBlocks

definition send_locked ::
  "'w smtp_net \<Rightarrow> nat \<Rightarrow> string \<Rightarrow> string list \<Rightarrow> string \<Rightarrow> SMTPClient \<Rightarrow> 'w \<Rightarrow> send_outcome \<times> SMTPClient \<times> 'w" where
  "send_locked n c from to dat s w =
     (case sc_client s of
        None \<Rightarrow> (SendReturns (Some (TextError ''SMTP client is closed or not initialized'')), s, w)
      | Some cl \<Rightarrow>
          (case nc_Reset n c cl w of
             (Some err, cl1, w1) \<Rightarrow>
               (case client_Close n c (s\<lparr>sc_client := Some cl1\<rparr>) w1 of
                  (CloseBlocks, s1, w2) \<Rightarrow> (SendBlocks, s1, w2)
                | (CloseReturns _, s1, w2) \<Rightarrow>
                    (SendReturns (Some (Wrapped ''failed to reset SMTP client state: '' err [])), s1, w2))
           | (None, cl1, w1) \<Rightarrow>
               (case nc_Mail n c from cl1 w1 of
                  (Some err, cl2, w2) \<Rightarrow>
                    (SendReturns (Some (Wrapped (''MAIL FROM '' @ from @ '' failed: '') err [])), s\<lparr>sc_client := Some cl2\<rparr>, w2)
                | (None, cl2, w2) \<Rightarrow>
                    (case send_rcpts n c to w2 of
                       (Some err, w3) \<Rightarrow> (SendReturns (Some err), s\<lparr>sc_client := Some cl2\<rparr>, w3)
                     | (None, w3) \<Rightarrow>
                         (let (err, w4) = send_data n c dat w3 in (SendReturns err, s\<lparr>sc_client := Some cl2\<rparr>, w4))))))"

definition client_Send ::
  "'w smtp_net \<Rightarrow> nat \<Rightarrow> string \<Rightarrow> string list \<Rightarrow> string \<Rightarrow> SMTPClient \<Rightarrow> 'w \<Rightarrow> send_outcome \<times> SMTPClient \<times> 'w" where
  "client_Send n c from to dat s w =
     (case mu_Lock s of
        None \<Rightarrow> (SendBlocks, s, w)
      | Some s0 \<Rightarrow>
          (case send_locked n c from to dat s0 w of
             (SendBlocks, s1, w1) \<Rightarrow> (SendBlocks, s1, w1)
           | (SendReturns err, s1, w1) \<Rightarrow> (SendReturns err, mu_Unlock s1, w1)))"

definition client_Host :: "SMTPClient \<Rightarrow> string" where
  "client_Host s = sc_host s"

section \<open>The mutex of a client\<close>

lemma client_Close_unlocked:
  "\<not> sc_locked s \<Longrightarrow> \<exists>err s' w'. client_Close n c s w = (CloseReturns err, s', w') \<and> \<not> sc_locked s'"
  by (auto simp: client_Close_def mu_Lock_def mu_Unlock_def split: prod.splits)

lemma client_Close_locked: "sc_locked s \<Longrightarrow> client_Close n c s w = (CloseBlocks, s, w)"
  by (simp add: client_Close_def mu_Lock_def)

lemma client_Close_host: "client_Close n c s w = (r, s', w') \<Longrightarrow> sc_host s' = sc_host s"
  by (auto simp: client_Close_def close_locked_def mu_Lock_def mu_Unlock_def Let_def split: option.splits prod.splits if_splits)

lemma client_Send_host: "client_Send n c from to dat s w = (r, s', w') \<Longrightarrow> sc_host s' = sc_host s"
  by (auto simp: client_Send_def send_locked_def mu_Lock_def mu_Unlock_def Let_def dest!: client_Close_host
      split: option.splits prod.splits if_splits send_outcome.splits close_outcome.splits)

lemma client_Send_returns: "client_Send n c from to dat s w = (SendReturns r, s', w') \<Longrightarrow> \<not> sc_locked s'"
  by (auto simp: client_Send_def mu_Unlock_def split: option.splits prod.splits send_outcome.splits)

text \<open>
  Whether a call of \<open>Send\<close> returns: exactly when the mutex is free and the client, if it is open,
  answers RSET. Otherwise the mutex is locked when the call comes to a halt.
\<close>

lemma client_Send_blocks_iff:
  "fst (client_Send n c from to dat s w) = SendBlocks \<longleftrightarrow>
     sc_locked s \<or> (\<exists>cl. sc_client s = Some cl \<and> fst (nc_Reset n c cl w) \<noteq> None)"
  by (auto simp: client_Send_def send_locked_def mu_Lock_def client_Close_locked Let_def
      split: option.splits prod.splits)

lemma client_Send_keeps_lock: "client_Send n c from to dat s w = (SendBlocks, s', w') \<Longrightarrow> sc_locked s'"
  by (auto simp: client_Send_def send_locked_def mu_Lock_def client_Close_locked Let_def
      split: option.splits prod.splits if_splits send_outcome.splits)

end
