(* ===== verification/ClientPool.thy ===== *)
theory ClientPool
  imports SmtpClient
begin

text \<open>
  The pool of \<open>pkg/outbound/smtp_client.go\<close>. A host's pool is a buffered channel of client
  pointers; channels and clients are in stores under their numbers, since a goroutine may hold
  a channel that \<open>CloseAll\<close> has closed and removed from the map. \<open>GetClient\<close> and
  \<open>ReleaseClient\<close> first fetch the channel under the pool's mutex and then use it without.
\<close>

section \<open>State and operations\<close>

text \<open>Not in the code: \<open>hp_host\<close>, the host a channel was made for, and \<open>po_held\<close>, the clients handed out.\<close>

record hostPool =
  hp_host :: string
  hp_buf :: "nat list"
  hp_cap :: nat
  hp_closed :: bool

record SMTPClientPool =
  po_config :: SMTPClientConfig
  po_maxConnsPerHost :: int
  po_pools :: "(string \<times> nat) list"
  po_chans :: "hostPool list"
  po_clients :: "nat \<rightharpoonup> SMTPClient"
  po_next :: nat
  po_held :: "nat list"

definition NewSMTPClientPool :: "SMTPClientConfig \<Rightarrow> SMTPClientPool" where
  "NewSMTPClientPool config =
     \<lparr>po_config = config, po_maxConnsPerHost = so_MaxConnections config, po_pools = [], po_chans = [],
      po_clients = Map.empty, po_next = 0, po_held = []\<rparr>"

definition getOrCreateHostPool :: "string \<Rightarrow> SMTPClientPool \<Rightarrow> nat \<times> SMTPClientPool" where
  "getOrCreateHostPool host p =
     (case map_of (po_pools p) host of
        Some ch \<Rightarrow> (ch, p)
      | None \<Rightarrow>
          (let sz = if po_maxConnsPerHost p \<le> 0 then 1 else po_maxConnsPerHost p; ch = length (po_chans p)
           in (ch, p\<lparr>po_chans := po_chans p @ [\<lparr>hp_host = host, hp_buf = [], hp_cap = nat sz, hp_closed = False\<rparr>],
                     po_pools := (host, ch) # po_pools p\<rparr>)))"

definition set_chan :: "nat \<Rightarrow> nat list \<Rightarrow> SMTPClientPool \<Rightarrow> SMTPClientPool" where
  "set_chan ch buf p = p\<lparr>po_chans := (po_chans p)[ch := (po_chans p ! ch)\<lparr>hp_buf := buf\<rparr>]\<rparr>"

definition create_client ::
  "'w smtp_net \<Rightarrow> string \<Rightarrow> SMTPClientPool \<Rightarrow> 'w \<Rightarrow> (go_error + nat) \<times> SMTPClientPool \<times> 'w" where
  "create_client n host p w =
     (let c = po_next p in
      (case newSMTPClient n c host (po_config p) w of
         (Inl err, config, w1) \<Rightarrow> (Inl err, p\<lparr>po_config := config, po_next := c + 1\<rparr>, w1)
       | (Inr s, config, w1) \<Rightarrow>
           (Inr c, p\<lparr>po_config := config, po_next := c + 1, po_clients := (po_clients p)(c \<mapsto> s),
                     po_held := c # po_held p\<rparr>, w1)))"

text \<open>The select of \<open>GetClient\<close>; a closed and empty channel yields nil, and a client is created.\<close>

definition take_client ::
  "'w smtp_net \<Rightarrow> string \<Rightarrow> nat \<Rightarrow> SMTPClientPool \<Rightarrow> 'w \<Rightarrow> (go_error + nat) \<times> SMTPClientPool \<times> 'w" where
  "take_client n host ch p w =
     (case hp_buf (po_chans p ! ch) of
        c # cs \<Rightarrow> (Inr c, (set_chan ch cs p)\<lparr>po_held := c # po_held p\<rparr>, w)
      | [] \<Rightarrow> create_client n host p w)"

definition GetClient ::
  "'w smtp_net \<Rightarrow> string \<Rightarrow> SMTPClientPool \<Rightarrow> 'w \<Rightarrow> (go_error + nat) \<times> SMTPClientPool \<times> 'w" where
  "GetClient n host p w = (let (ch, p1) = getOrCreateHostPool host p in take_client n host ch p1 w)"

text \<open>
  Sending on a closed channel panics. A client that does not fit is closed, which waits for its
  mutex; \<open>ReleaseBlocks\<close> says that this never ends.
\<close>

datatype release_outcome = Released | ReleasePanics | ReleaseBlocks

definition put_client ::
  "'w smtp_net \<Rightarrow> nat \<Rightarrow> nat \<Rightarrow> SMTPClient \<Rightarrow> SMTPClientPool \<Rightarrow> 'w \<Rightarrow> release_outcome \<times> SMTPClientPool \<times> 'w" where
  "put_client n ch c s p w =
     (let p1 = p\<lparr>po_held := remove1 c (po_held p)\<rparr>; hp = po_chans p ! ch in
      if sc_client s = None then (Released, p1, w)
      else if hp_closed hp then (ReleasePanics, p, w)
      else if length (hp_buf hp) < hp_cap hp then (Released, set_chan ch (hp_buf hp @ [c]) p1, w)
      else (case client_Close n c s w of
              (CloseReturns _, s', w1) \<Rightarrow> (Released, p1\<lparr>po_clients := (po_clients p1)(c \<mapsto> s')\<rparr>, w1)
            | (CloseBlocks, s', w1) \<Rightarrow> (ReleaseBlocks, p\<lparr>po_clients := (po_clients p)(c \<mapsto> s')\<rparr>, w1)))"

definition ReleaseClient :: "'w smtp_net \<Rightarrow> nat \<Rightarrow> SMTPClientPool \<Rightarrow> 'w \<Rightarrow> release_outcome \<times> SMTPClientPool \<times> 'w" where
  "ReleaseClient n c p w =
     (case po_clients p c of
        None \<Rightarrow> (Released, p, w)
      | Some s \<Rightarrow> (let (ch, p1) = getOrCreateHostPool (client_Host s) p in put_client n ch c s p1 w))"

text \<open>\<open>CloseAll\<close> does not return (None) when the \<open>Close\<close> of a pooled client does not.\<close>

fun close_clients :: "'w smtp_net \<Rightarrow> nat list \<Rightarrow> (nat \<rightharpoonup> SMTPClient) \<Rightarrow> 'w \<Rightarrow> ((nat \<rightharpoonup> SMTPClient) \<times> 'w) option" where
  "close_clients n [] m w = Some (m, w)"
| "close_clients n (c # cs) m w =
     (case m c of
        None \<Rightarrow> close_clients n cs m w
      | Some s \<Rightarrow>
          (case client_Close n c s w of
             (CloseReturns _, s', w1) \<Rightarrow> close_clients n cs (m(c \<mapsto> s')) w1
           | (CloseBlocks, _, _) \<Rightarrow> None))"

definition close_chan :: "'w smtp_net \<Rightarrow> nat \<Rightarrow> SMTPClientPool \<Rightarrow> 'w \<Rightarrow> (SMTPClientPool \<times> 'w) option" where
  "close_chan n ch p w =
     map_option (\<lambda>(m, w1).
        (p\<lparr>po_clients := m, po_chans := (po_chans p)[ch := (po_chans p ! ch)\<lparr>hp_buf := [], hp_closed := True\<rparr>]\<rparr>, w1))
       (close_clients n (hp_buf (po_chans p ! ch)) (po_clients p) w)"

fun close_pools :: "'w smtp_net \<Rightarrow> (string \<times> nat) list \<Rightarrow> SMTPClientPool \<Rightarrow> 'w \<Rightarrow> (SMTPClientPool \<times> 'w) option" where
  "close_pools n [] p w = Some (p, w)"
| "close_pools n ((host, ch) # hs) p w =
     (case close_chan n ch p w of None \<Rightarrow> None | Some (p1, w1) \<Rightarrow> close_pools n hs p1 w1)"

definition CloseAll :: "'w smtp_net \<Rightarrow> SMTPClientPool \<Rightarrow> 'w \<Rightarrow> (SMTPClientPool \<times> 'w) option" where
  "CloseAll n p w = map_option (\<lambda>(p1, w1). (p1\<lparr>po_pools := []\<rparr>, w1)) (close_pools n (po_pools p) p w)"

section \<open>Goroutines that share the pool\<close>

text \<open>
  Any interleaving of the steps: a channel is fetched; it is used, by whoever fetched it, to
  take a client or to put one back; the holder of a client sends with it; the pool is closed.
  A client whose \<open>Send\<close> did not return stays locked, and its holder never puts it back.
\<close>

inductive pool_step :: "'w smtp_net \<Rightarrow> SMTPClientPool \<times> 'w \<Rightarrow> SMTPClientPool \<times> 'w \<Rightarrow> bool" for n where
  fetch: "getOrCreateHostPool host p = (ch, p') \<Longrightarrow> pool_step n (p, w) (p', w)"
| take_it: "ch < length (po_chans p) \<Longrightarrow> hp_host (po_chans p ! ch) = host \<Longrightarrow> take_client n host ch p w = (r, p', w') \<Longrightarrow>
     pool_step n (p, w) (p', w')"
| transmit: "c \<in> set (po_held p) \<Longrightarrow> po_clients p c = Some s \<Longrightarrow> client_Send n c from to dat s w = (r, s', w') \<Longrightarrow>
     pool_step n (p, w) (p\<lparr>po_clients := (po_clients p)(c \<mapsto> s')\<rparr>, w')"
| put_back: "c \<in> set (po_held p) \<Longrightarrow> po_clients p c = Some s \<Longrightarrow> \<not> sc_locked s \<Longrightarrow> ch < length (po_chans p) \<Longrightarrow>
     hp_host (po_chans p ! ch) = client_Host s \<Longrightarrow> put_client n ch c s p w = (Released, p', w') \<Longrightarrow> pool_step n (p, w) (p', w')"
| close_all: "CloseAll n p w = Some (p', w') \<Longrightarrow> pool_step n (p, w) (p', w')"

inductive pool_reach :: "'w smtp_net \<Rightarrow> SMTPClientPool \<times> 'w \<Rightarrow> SMTPClientPool \<times> 'w \<Rightarrow> bool" for n s0 where
  start: "pool_reach n s0 s0"
| step: "pool_reach n s0 s \<Longrightarrow> pool_step n s s' \<Longrightarrow> pool_reach n s0 s'"

section \<open>Invariant\<close>

definition pooled :: "SMTPClientPool \<Rightarrow> nat list" where
  "pooled p = concat (map hp_buf (po_chans p))"

definition chan_ok :: "(nat \<rightharpoonup> SMTPClient) \<Rightarrow> int \<Rightarrow> hostPool \<Rightarrow> bool" where
  "chan_ok m mx hp \<longleftrightarrow> length (hp_buf hp) \<le> hp_cap hp \<and> hp_cap hp = nat (max 1 mx) \<and>
     (\<forall>c \<in> set (hp_buf hp). \<exists>s. m c = Some s \<and> sc_client s \<noteq> None \<and> sc_host s = hp_host hp \<and> \<not> sc_locked s)"

definition pool_ok :: "SMTPClientPool \<Rightarrow> bool" where
  "pool_ok p \<longleftrightarrow> distinct (pooled p @ po_held p) \<and>
     (\<forall>c \<in> set (pooled p @ po_held p). c < po_next p) \<and>
     (\<forall>hp \<in> set (po_chans p). chan_ok (po_clients p) (po_maxConnsPerHost p) hp) \<and>
     (\<forall>(h, ch) \<in> set (po_pools p). ch < length (po_chans p) \<and> hp_host (po_chans p ! ch) = h)"

lemma pool_okD:
  assumes "pool_ok p"
  shows "distinct (pooled p @ po_held p)" "c \<in> set (pooled p @ po_held p) \<Longrightarrow> c < po_next p"
    "hp \<in> set (po_chans p) \<Longrightarrow> chan_ok (po_clients p) (po_maxConnsPerHost p) hp"
    "(h, ch) \<in> set (po_pools p) \<Longrightarrow> ch < length (po_chans p) \<and> hp_host (po_chans p ! ch) = h"
  using assms unfolding pool_ok_def by blast+

lemma pooled_update:
  assumes "ch < length (po_chans p)"
  shows "mset (pooled (set_chan ch buf p)) + mset (hp_buf (po_chans p ! ch)) = mset (pooled p) + mset buf"
proof -
  have "mset (concat (map hp_buf (xs[ch := (xs ! ch)\<lparr>hp_buf := buf\<rparr>]))) + mset (hp_buf (xs ! ch)) =
      mset (concat (map hp_buf xs)) + mset buf" if "ch < length xs" for xs :: "hostPool list"
    using that by (induction xs arbitrary: ch) (auto split: nat.splits simp: nth_Cons)
  then show ?thesis using assms by (simp add: pooled_def set_chan_def)
qed

lemma set_chan_fields [simp]:
  "po_clients (set_chan ch buf p) = po_clients p" "po_held (set_chan ch buf p) = po_held p"
  "po_next (set_chan ch buf p) = po_next p" "po_pools (set_chan ch buf p) = po_pools p"
  "po_maxConnsPerHost (set_chan ch buf p) = po_maxConnsPerHost p"
  "length (po_chans (set_chan ch buf p)) = length (po_chans p)"
  by (simp_all add: set_chan_def)

lemma set_chan_host [simp]: "hp_host (po_chans (set_chan ch buf p) ! i) = hp_host (po_chans p ! i)"
  by (cases "ch < length (po_chans p)") (auto simp: set_chan_def nth_list_update list_update_beyond)

lemma pooled_fields [simp]:
  "pooled (p\<lparr>po_held := x\<rparr>) = pooled p" "pooled (p\<lparr>po_clients := m\<rparr>) = pooled p"
  "pooled (p\<lparr>po_config := y\<rparr>) = pooled p" "pooled (p\<lparr>po_next := k\<rparr>) = pooled p" "pooled (p\<lparr>po_pools := l\<rparr>) = pooled p"
  by (simp_all add: pooled_def)

lemma chan_ok_mono:
  assumes "chan_ok m mx hp" "\<And>c. c \<in> set (hp_buf hp) \<Longrightarrow> m' c = m c"
  shows "chan_ok m' mx hp"
  using assms by (auto simp: chan_ok_def)

lemma set_chan_elems: "hp \<in> set (po_chans (set_chan ch buf p)) \<Longrightarrow> hp \<in> set (po_chans p) \<or> hp = (po_chans p ! ch)\<lparr>hp_buf := buf\<rparr>"
  by (auto simp: set_chan_def dest: set_update_subset_insert [THEN subsetD])

lemma in_pooled: "hp \<in> set (po_chans p) \<Longrightarrow> c \<in> set (hp_buf hp) \<Longrightarrow> c \<in> set (pooled p)"
  by (auto simp: pooled_def)


lemma fetch_ok:
  assumes "pool_ok p" "getOrCreateHostPool host p = (ch, p')"
  shows "pool_ok p' \<and> ch < length (po_chans p') \<and> hp_host (po_chans p' ! ch) = host"
proof (cases "map_of (po_pools p) host")
  case None
  let ?sz = "nat (if po_maxConnsPerHost p \<le> 0 then 1 else po_maxConnsPerHost p)"
  have sz: "?sz = nat (max 1 (po_maxConnsPerHost p))" by (simp add: max_def)
  have "(ch, p') = (length (po_chans p), p\<lparr>po_chans := po_chans p @ [\<lparr>hp_host = host, hp_buf = [], hp_cap = ?sz, hp_closed = False\<rparr>],
      po_pools := (host, length (po_chans p)) # po_pools p\<rparr>)"
    unfolding assms(2) [symmetric] by (simp only: getOrCreateHostPool_def None option.case Let_def)
  then have ch: "ch = length (po_chans p)" and p': "p' = p\<lparr>po_chans := po_chans p @ [\<lparr>hp_host = host, hp_buf = [], hp_cap = ?sz, hp_closed = False\<rparr>],
      po_pools := (host, length (po_chans p)) # po_pools p\<rparr>" by blast+
  have pl: "pooled p' = pooled p" by (simp add: p' pooled_def)
  have flds: "po_held p' = po_held p" "po_next p' = po_next p" "po_clients p' = po_clients p"
    "po_maxConnsPerHost p' = po_maxConnsPerHost p" by (simp_all add: p')
  have "chan_ok (po_clients p) (po_maxConnsPerHost p) hp" if "hp \<in> set (po_chans p')" for hp
    using that pool_okD(3) [OF assms(1)] by (auto simp: p' sz chan_ok_def)
  moreover have "i < length (po_chans p') \<and> hp_host (po_chans p' ! i) = h" if "(h, i) \<in> set (po_pools p')" for h i
    using that pool_okD(4) [OF assms(1)] by (auto simp: p' nth_append)
  ultimately have "pool_ok p'" using pool_okD(1,2) [OF assms(1)] unfolding pool_ok_def pl flds by blast
  then show ?thesis by (simp add: p' ch)
next
  case (Some x)
  then have "(host, x) \<in> set (po_pools p)" by (rule map_of_SomeD)
  then show ?thesis using assms Some by (auto simp: getOrCreateHostPool_def pool_ok_def)
qed

lemma create_ok:
  assumes "pool_ok p" "create_client n host p w = (r, p', w')"
  shows "pool_ok p'"
proof -
  note old = pool_okD(2) [OF assms(1)] and ch = pool_okD(3) [OF assms(1)]
  have new: "po_next p \<notin> set (pooled p @ po_held p)" using old [of "po_next p"] by blast
  have cl: "chan_ok ((po_clients p)(po_next p \<mapsto> s)) (po_maxConnsPerHost p) hp" if "hp \<in> set (po_chans p)" for s hp
    by (rule chan_ok_mono [OF ch [OF that]]) (use in_pooled [OF that] new in force)
  have "pool_ok (p\<lparr>po_config := cfg, po_next := Suc (po_next p)\<rparr>)" for cfg
    unfolding pool_ok_def using pool_okD [OF assms(1)] by (auto simp: less_Suc_eq)
  moreover have "pool_ok (p\<lparr>po_config := cfg, po_next := Suc (po_next p), po_clients := (po_clients p)(po_next p \<mapsto> s),
      po_held := po_next p # po_held p\<rparr>)" for cfg s
    unfolding pool_ok_def using pool_okD(1,2,4) [OF assms(1)] new cl [of _ s] by (auto simp: less_Suc_eq)
  ultimately show ?thesis using assms(2) by (auto simp: create_client_def Let_def split: sum.splits prod.splits)
qed

lemma pool_ok_set_chan:
  assumes "pool_ok p" "ch < length (po_chans p)" "distinct (pooled (set_chan ch buf p) @ held)"
    "set (pooled (set_chan ch buf p) @ held) \<subseteq> set (pooled p @ po_held p)"
    "chan_ok (po_clients p) (po_maxConnsPerHost p) ((po_chans p ! ch)\<lparr>hp_buf := buf\<rparr>)"
  shows "pool_ok ((set_chan ch buf p)\<lparr>po_held := held\<rparr>)"
  using assms unfolding pool_ok_def by (auto dest: set_chan_elems)

lemma take_ok:
  assumes ok: "pool_ok p" and ch: "ch < length (po_chans p)" and t: "take_client n host ch p w = (r, p', w')"
  shows "pool_ok p'"
proof (cases "hp_buf (po_chans p ! ch)")
  case Nil
  then show ?thesis using create_ok [OF ok] t by (simp add: take_client_def)
next
  case (Cons c cs)
  have ms: "mset (pooled p) = add_mset c (mset (pooled (set_chan ch cs p)))"
    using pooled_update [OF ch, of cs] Cons by simp
  have "mset (pooled (set_chan ch cs p) @ c # po_held p) = mset (pooled p @ po_held p)" using ms by simp
  then have d: "distinct (pooled (set_chan ch cs p) @ c # po_held p)" "set (pooled (set_chan ch cs p) @ c # po_held p) = set (pooled p @ po_held p)"
    using ok by (metis mset_eq_imp_distinct_iff pool_ok_def) (metis \<open>mset (pooled (set_chan ch cs p) @ c # po_held p) = _\<close> mset_eq_setD)
  have "chan_ok (po_clients p) (po_maxConnsPerHost p) (po_chans p ! ch)" using ok ch by (simp add: pool_ok_def)
  then have "chan_ok (po_clients p) (po_maxConnsPerHost p) ((po_chans p ! ch)\<lparr>hp_buf := cs\<rparr>)" using Cons by (simp add: chan_ok_def)
  from pool_ok_set_chan [OF ok ch d(1) eq_refl [OF d(2)] this] show ?thesis using t Cons by (simp add: take_client_def)
qed

lemma pool_ok_clients:
  assumes "pool_ok p" "set held \<subseteq> set (po_held p)" "distinct held" "c \<in> set (po_held p)"
  shows "pool_ok (p\<lparr>po_held := held, po_clients := (po_clients p)(c \<mapsto> s)\<rparr>)"
proof -
  have no: "c \<notin> set (pooled p)" using assms(1,4) by (auto simp: pool_ok_def)
  have "chan_ok ((po_clients p)(c \<mapsto> s)) (po_maxConnsPerHost p) hp" if "hp \<in> set (po_chans p)" for hp
    by (rule chan_ok_mono [OF pool_okD(3) [OF assms(1) that]]) (use no in_pooled [OF that] in force)
  then show ?thesis unfolding pool_ok_def using pool_okD(1,2,4) [OF assms(1)] assms(2,3) by auto
qed

lemma put_ok:
  assumes ok: "pool_ok p" and c: "c \<in> set (po_held p)" and s: "po_clients p c = Some s" and ch: "ch < length (po_chans p)"
    and host: "hp_host (po_chans p ! ch) = client_Host s" and free: "\<not> sc_locked s" and put: "put_client n ch c s p w = (r, p', w')"
  shows "pool_ok p'"
proof -
  let ?held = "remove1 c (po_held p)" and ?hp = "po_chans p ! ch"
  have held: "set ?held \<subseteq> set (po_held p)" "distinct ?held" "c \<notin> set ?held"
    using ok by (auto simp: pool_ok_def dest: notin_set_remove1)
  have gone: "pool_ok (p\<lparr>po_held := ?held\<rparr>)" using ok held by (auto simp: pool_ok_def)
  have ins: "pool_ok ((set_chan ch (hp_buf ?hp @ [c]) p)\<lparr>po_held := ?held\<rparr>)"
    if "sc_client s \<noteq> None" "length (hp_buf ?hp) < hp_cap ?hp"
  proof (rule pool_ok_set_chan [OF ok ch])
    have "mset (pooled (set_chan ch (hp_buf ?hp @ [c]) p)) = add_mset c (mset (pooled p))"
      using pooled_update [OF ch, of "hp_buf ?hp @ [c]"] by simp
    then have "mset (pooled (set_chan ch (hp_buf ?hp @ [c]) p) @ ?held) = mset (pooled p @ po_held p)" using c by simp
    then show "distinct (pooled (set_chan ch (hp_buf ?hp @ [c]) p) @ ?held)"
      "set (pooled (set_chan ch (hp_buf ?hp @ [c]) p) @ ?held) \<subseteq> set (pooled p @ po_held p)"
      using ok by (metis mset_eq_imp_distinct_iff pool_ok_def, metis mset_eq_setD order_refl)
    have "chan_ok (po_clients p) (po_maxConnsPerHost p) ?hp" using ok ch by (simp add: pool_ok_def)
    then show "chan_ok (po_clients p) (po_maxConnsPerHost p) (?hp\<lparr>hp_buf := hp_buf ?hp @ [c]\<rparr>)"
      using that s host free by (auto simp: chan_ok_def client_Host_def)
  qed
  have "set_chan ch b (p\<lparr>po_held := h\<rparr>) = (set_chan ch b p)\<lparr>po_held := h\<rparr>" for b h by (simp add: set_chan_def)
  then show ?thesis using put gone ok ins pool_ok_clients [OF ok held(1,2) c] client_Close_unlocked [OF free, of n c w]
    by (auto simp: put_client_def Let_def split: if_splits prod.splits)
qed

lemma close_clients_other: "close_clients n cs m w = Some (m', w') \<Longrightarrow> c \<notin> set cs \<Longrightarrow> m' c = m c"
  by (induction cs arbitrary: m w) (fastforce split: option.splits prod.splits close_outcome.splits)+

lemma close_clients_returns:
  "\<forall>c \<in> set cs. \<forall>s. m c = Some s \<longrightarrow> \<not> sc_locked s \<Longrightarrow> close_clients n cs m w \<noteq> None"
proof (induction cs arbitrary: m w)
  case (Cons c cs)
  show ?case
  proof (cases "m c")
    case (Some s)
    then have "\<not> sc_locked s" using Cons.prems by simp
    then obtain err s' w' where cl: "client_Close n c s w = (CloseReturns err, s', w')" "\<not> sc_locked s'"
      using client_Close_unlocked [of s n c w] by blast
    then have "\<forall>x \<in> set cs. \<forall>s. (m(c \<mapsto> s')) x = Some s \<longrightarrow> \<not> sc_locked s" using Cons.prems by simp
    from Cons.IH [OF this, of w'] show ?thesis by (simp add: Some cl del: fun_upd_apply)
  qed (use Cons in simp)
qed simp

lemma close_chan_ok:
  assumes ok: "pool_ok p" and ch: "ch < length (po_chans p)" and c: "close_chan n ch p w = Some (p', w')"
  shows "pool_ok p' \<and> length (po_chans p') = length (po_chans p) \<and> po_pools p' = po_pools p"
proof -
  let ?hp = "po_chans p ! ch"
  obtain m w1 where m: "close_clients n (hp_buf ?hp) (po_clients p) w = Some (m, w1)" using c by (auto simp: close_chan_def)
  let ?q = "set_chan ch [] p"
  have p': "p' = ?q\<lparr>po_clients := m, po_chans := (po_chans ?q)[ch := (po_chans ?q ! ch)\<lparr>hp_closed := True\<rparr>]\<rparr>"
    using c m ch by (simp add: close_chan_def set_chan_def)
  have ms: "mset (pooled p) = mset (pooled ?q) + mset (hp_buf ?hp)" using pooled_update [OF ch, of "[]"] by simp
  have "mset (pooled p @ po_held p) = mset (hp_buf ?hp @ pooled ?q @ po_held p)" using ms by simp
  then have d: "distinct (hp_buf ?hp @ pooled ?q @ po_held p)" using ok by (metis mset_eq_imp_distinct_iff pool_ok_def)
  have sub: "set (pooled ?q) \<subseteq> set (pooled p)" using ms by (metis set_mset_mset set_mset_union sup_ge1)
  have "map hp_buf ((po_chans ?q)[ch := (po_chans ?q ! ch)\<lparr>hp_closed := True\<rparr>]) = map hp_buf (po_chans ?q)"
    by (cases "ch < length (po_chans ?q)") (auto simp: map_update list_update_beyond intro!: nth_equalityI simp: nth_list_update)
  then have pl: "pooled p' = pooled ?q" unfolding p' by (simp add: pooled_def)
  have chs: "chan_ok m (po_maxConnsPerHost p) hp" if "hp \<in> set (po_chans p')" for hp
  proof -
    have "hp \<in> insert ((po_chans ?q ! ch)\<lparr>hp_closed := True\<rparr>) (set (po_chans ?q))"
      using that unfolding p' by (auto dest: set_update_subset_insert [THEN subsetD])
    moreover have "set (po_chans ?q) \<subseteq> insert (?hp\<lparr>hp_buf := []\<rparr>) (set (po_chans p))" by (auto dest: set_chan_elems)
    moreover have "po_chans ?q ! ch = ?hp\<lparr>hp_buf := []\<rparr>" using ch by (simp add: set_chan_def)
    ultimately consider "hp_buf hp = []" "hp_cap hp = hp_cap ?hp" | "hp \<in> set (po_chans p)" "hp \<in> set (po_chans ?q)"
      by (auto dest: set_chan_elems)
    then show ?thesis
    proof cases
      case 1
      then show ?thesis using ok ch by (auto simp: pool_ok_def chan_ok_def)
    next
      case 2
      have "set (hp_buf hp) \<inter> set (hp_buf ?hp) = {}" using in_pooled [OF 2(2)] d by auto
      then have "m c = po_clients p c" if "c \<in> set (hp_buf hp)" for c using close_clients_other [OF m] that by blast
      then show ?thesis by (rule chan_ok_mono [OF pool_okD(3) [OF ok 2(1)]])
    qed
  qed
  have hosts: "hp_host (po_chans p' ! i) = hp_host (po_chans p ! i)" if "i < length (po_chans p)" for i
    unfolding p' using that ch by (cases "i = ch") (simp_all add: set_chan_def)
  have flds: "po_held p' = po_held p" "po_next p' = po_next p" "po_pools p' = po_pools p" "po_clients p' = m"
    "po_maxConnsPerHost p' = po_maxConnsPerHost p" "length (po_chans p') = length (po_chans p)" unfolding p' by simp_all
  have "pool_ok p'" unfolding pool_ok_def flds pl using d sub ok chs hosts by (auto simp: pool_ok_def)
  then show ?thesis using flds by simp
qed

lemma close_chan_returns:
  assumes "pool_ok p" "ch < length (po_chans p)"
  shows "close_chan n ch p w \<noteq> None"
proof -
  have "chan_ok (po_clients p) (po_maxConnsPerHost p) (po_chans p ! ch)" using pool_okD(3) [OF assms(1)] assms(2) by simp
  then have "\<forall>c \<in> set (hp_buf (po_chans p ! ch)). \<forall>s. po_clients p c = Some s \<longrightarrow> \<not> sc_locked s" by (force simp: chan_ok_def)
  from close_clients_returns [OF this, of n w] show ?thesis by (simp add: close_chan_def)
qed

lemma close_pools_ok:
  "pool_ok p \<Longrightarrow> set hs \<subseteq> set (po_pools p) \<Longrightarrow>
     \<exists>p' w'. close_pools n hs p w = Some (p', w') \<and> pool_ok p' \<and> po_maxConnsPerHost p' = po_maxConnsPerHost p"
proof (induction hs arbitrary: p w)
  case (Cons x hs)
  obtain h ch where x: "x = (h, ch)" by (cases x)
  have ch: "ch < length (po_chans p)" using pool_okD(4) [OF Cons.prems(1), of h ch] Cons.prems(2) x by simp
  obtain p1 w1 where c: "close_chan n ch p w = Some (p1, w1)" using close_chan_returns [OF Cons.prems(1) ch, of n w] by auto
  have "po_maxConnsPerHost p1 = po_maxConnsPerHost p" using c by (auto simp: close_chan_def)
  then show ?case using close_chan_ok [OF Cons.prems(1) ch c] Cons.IH [of p1 w1] Cons.prems x c by simp
qed simp

text \<open>In a pool that is in order, \<open>CloseAll\<close> returns.\<close>

lemma CloseAll_ok:
  assumes "pool_ok p"
  shows "\<exists>p' w'. CloseAll n p w = Some (p', w') \<and> pool_ok p' \<and> po_maxConnsPerHost p' = po_maxConnsPerHost p"
proof -
  obtain q v where q: "close_pools n (po_pools p) p w = Some (q, v)" "pool_ok q" "po_maxConnsPerHost q = po_maxConnsPerHost p"
    using close_pools_ok [OF assms order_refl, of n w] by blast
  have "pool_ok (q\<lparr>po_pools := []\<rparr>)" using q(2) by (simp add: pool_ok_def)
  then show ?thesis using q by (simp add: CloseAll_def)
qed

lemma pool_step_ok: "pool_step n s s' \<Longrightarrow> pool_ok (fst s) \<Longrightarrow> pool_ok (fst s')"
proof (induction rule: pool_step.induct)
  case (transmit c p s fr rcpts dat w r s' w')
  then show ?case using pool_ok_clients [of p "po_held p" c s'] by (simp add: pool_ok_def)
next
  case (close_all p w p' w')
  then show ?case using CloseAll_ok [of p n w] by simp
qed (auto dest: fetch_ok take_ok put_ok)

lemma pool_step_max: "pool_step n s s' \<Longrightarrow> pool_ok (fst s) \<Longrightarrow> po_maxConnsPerHost (fst s') = po_maxConnsPerHost (fst s)"
proof (induction rule: pool_step.induct)
  case (close_all p w p' w')
  then show ?case using CloseAll_ok [of p n w] by simp
qed (auto simp: getOrCreateHostPool_def take_client_def create_client_def put_client_def Let_def
      split: option.splits list.splits sum.splits prod.splits if_splits close_outcome.splits)

lemma pool_reach_ok: "pool_reach n s0 s \<Longrightarrow> pool_ok (fst s0) \<Longrightarrow> pool_ok (fst s)"
  by (induction rule: pool_reach.induct) (auto intro: pool_step_ok)

lemma NewSMTPClientPool_ok: "pool_ok (NewSMTPClientPool config)"
  by (simp add: pool_ok_def NewSMTPClientPool_def pooled_def)

text \<open>A client that the pool gives out is open and its mutex is free.\<close>

lemma newSMTPClient_fresh: "newSMTPClient n c host config w = (Inr s, config', w') \<Longrightarrow> sc_client s \<noteq> None \<and> \<not> sc_locked s"
  by (auto simp: newSMTPClient_def split: option.splits prod.splits sum.splits)

lemma GetClient_free:
  assumes ok: "pool_ok p" and get: "GetClient n host p w = (Inr c, p', w')"
  shows "c \<in> set (po_held p') \<and> (\<exists>s cl. po_clients p' c = Some s \<and> sc_client s = Some cl \<and> \<not> sc_locked s)"
proof -
  obtain ch p1 where f: "getOrCreateHostPool host p = (ch, p1)" by (cases "getOrCreateHostPool host p")
  note p1 = fetch_ok [OF ok f]
  have t: "take_client n host ch p1 w = (Inr c, p', w')" using get f by (simp add: GetClient_def)
  show ?thesis
  proof (cases "hp_buf (po_chans p1 ! ch)")
    case Nil
    then obtain s config w2 where "newSMTPClient n c host (po_config p1) w = (Inr s, config, w2)"
      and "p' = p1\<lparr>po_config := config, po_next := c + 1, po_clients := (po_clients p1)(c \<mapsto> s), po_held := c # po_held p1\<rparr>"
      using t by (auto simp: take_client_def create_client_def Let_def split: sum.splits prod.splits)
    then show ?thesis using newSMTPClient_fresh by fastforce
  next
    case (Cons d cs)
    then have "c = d" "p' = (set_chan ch cs p1)\<lparr>po_held := d # po_held p1\<rparr>" using t by (auto simp: take_client_def)
    moreover have "chan_ok (po_clients p1) (po_maxConnsPerHost p1) (po_chans p1 ! ch)" using pool_okD(3) p1 by simp
    ultimately show ?thesis using Cons by (auto simp: chan_ok_def)
  qed
qed

section \<open>Clients with STARTTLS\<close>

lemma nc_hello_didHello: "nc_hello n c cl w = (r, cl', w') \<Longrightarrow> nc_didHello cl'"
  by (auto simp: nc_hello_def nc_ehlo_def split: if_splits sum.splits prod.splits option.splits)

lemma nc_Hello_didHello: "nc_Hello n c name cl w = (None, cl', w') \<Longrightarrow> nc_didHello cl' \<and> nc_helloError cl' = None"
  by (auto simp: nc_Hello_def nc_hello_def nc_ehlo_def split: if_splits sum.splits prod.splits option.splits)

lemma nc_StartTLS_didHello: "nc_StartTLS n c name cl w = (r, cl', w') \<Longrightarrow> nc_didHello cl'"
  by (auto simp: nc_StartTLS_def nc_ehlo_def dest: nc_hello_didHello split: sum.splits prod.splits option.splits)

lemma Hello_twice: "nc_didHello cl \<Longrightarrow> \<exists>err. nc_Hello n c name cl w = (Some err, cl, w)"
  by (auto simp: nc_Hello_def split: option.splits)

lemma secure_client_plain:
  assumes "secure_client n c host config cl w = (Inr cl', config', w')" "so_TLSEnabled config"
  shows "nc_Extension n c ''STARTTLS'' cl w = (False, cl', w')"
proof -
  obtain b cl1 w1 where ext: "nc_Extension n c ''STARTTLS'' cl w = (b, cl1, w1)" by (cases "nc_Extension n c ''STARTTLS'' cl w")
  have "\<not> b"
  proof
    assume b
    obtain sn cf where nm: "(case so_TLSConfig config of None \<Rightarrow> (host, config)
        | Some name \<Rightarrow> if name = [] then (host, config\<lparr>so_TLSConfig := Some host\<rparr>) else (name, config)) = (sn, cf)"
      by fastforce
    obtain r cl2 w2 where tls: "nc_StartTLS n c sn cl1 w1 = (r, cl2, w2)" by (cases "nc_StartTLS n c sn cl1 w1")
    obtain err where "nc_Hello n c (so_HeloHostname cf) cl2 w2 = (Some err, cl2, w2)"
      using Hello_twice [OF nc_StartTLS_didHello [OF tls], of n c "so_HeloHostname cf" w2] by blast
    then show False using assms ext tls nm \<open>b\<close> by (cases r) (simp_all add: secure_client_def)
  qed
  then show ?thesis using assms ext by (simp add: secure_client_def)
qed

section \<open>Properties\<close>

text \<open>A peer that accepts everything and offers the given extensions.\<close>

definition willing_net :: "(string \<times> string) list \<Rightarrow> unit smtp_net" where
  "willing_net ext =
     \<lparr>sn_Dial = \<lambda>_ _ w. (None, w), sn_Greeting = \<lambda>_ w. (None, w), sn_Ehlo = \<lambda>_ _ w. (Inr ext, w),
      sn_Helo = \<lambda>_ _ w. (None, w), sn_StartTLS = \<lambda>_ _ w. (None, w), sn_Cmd = \<lambda>_ _ w. (None, w),
      sn_Write = \<lambda>_ _ w. (None, w), sn_DataEnd = \<lambda>_ w. (None, w), sn_Close = \<lambda>_ w. (None, w)\<rparr>"

definition plain_client :: SMTPClient where
  "plain_client = \<lparr>sc_host = ''mx'', sc_client = Some \<lparr>nc_localName = ''me'', nc_didHello = True, nc_helloError = None, nc_ext = Some []\<rparr>,
     sc_locked = False\<rparr>"

lemma willing_client: "newSMTPClient (willing_net []) c ''mx'' (DefaultSMTPClientConfig ''me'') w = (Inr plain_client, DefaultSMTPClientConfig ''me'', w)"
  by (simp add: newSMTPClient_def willing_net_def nc_Hello_def nc_hello_def nc_ehlo_def nc_new_def secure_client_def
      nc_Extension_def DefaultSMTPClientConfig_def validateLine_def plain_client_def ContainsAny_def)

text \<open>
  C17: Exclusive use of pooled connections. Whatever goroutines do with the pool, in any
  interleaving, closing included: no client is in the pool twice, or in the pool while somebody
  uses it, or used by two; every client in a host's pool is open and connected to that host;
  and no pool holds more clients than the configured number (one, if that is not positive).
\<close>

theorem pool_exclusive:
  assumes "pool_reach n (NewSMTPClientPool config, w0) (p, w)"
  shows "distinct (concat (map hp_buf (po_chans p)) @ po_held p) \<and>
    set (po_chans p) \<subseteq> {hp. length (hp_buf hp) \<le> nat (max 1 (so_MaxConnections config)) \<and>
      set (hp_buf hp) \<subseteq> {c. \<exists>s. po_clients p c = Some s \<and> sc_client s \<noteq> None \<and> sc_host s = hp_host hp}}"
proof -
  have ok: "pool_ok p" using pool_reach_ok [OF assms] NewSMTPClientPool_ok by simp
  have mx: "po_maxConnsPerHost (fst s) = so_MaxConnections config"
    if "pool_reach n (NewSMTPClientPool config, w0) s" for s
    using that
  proof (induction rule: pool_reach.induct)
    case start
    show ?case by (simp add: NewSMTPClientPool_def)
  next
    case (step s s')
    then show ?case using pool_step_max [OF step.hyps(2)] pool_reach_ok [OF step.hyps(1)] NewSMTPClientPool_ok by simp
  qed
  show ?thesis using pool_okD(1,3) [OF ok] mx [OF assms] by (fastforce simp: pooled_def chan_ok_def)
qed

theorem pool_exclusive_witness:
  "\<exists>p. pool_reach (willing_net []) (NewSMTPClientPool (DefaultSMTPClientConfig ''me''), ()) (p, ()) \<and>
     po_held p = [0] \<and> distinct (concat (map hp_buf (po_chans p)) @ po_held p)"
proof -
  let ?n = "willing_net []" and ?p0 = "NewSMTPClientPool (DefaultSMTPClientConfig ''me'')"
  obtain ch p1 where f: "getOrCreateHostPool ''mx'' ?p0 = (ch, p1)" by (cases "getOrCreateHostPool ''mx'' ?p0")
  have p1: "ch = 0" "po_chans p1 = [\<lparr>hp_host = ''mx'', hp_buf = [], hp_cap = 10, hp_closed = False\<rparr>]"
    "po_next p1 = 0" "po_config p1 = DefaultSMTPClientConfig ''me''" "po_held p1 = []"
    using f by (auto simp: getOrCreateHostPool_def NewSMTPClientPool_def Let_def DefaultSMTPClientConfig_def)
  obtain r p2 u where t: "take_client ?n ''mx'' ch p1 () = (r, p2, u)" by (cases "take_client ?n ''mx'' ch p1 ()")
  have p2: "po_held p2 = [0]" using t p1 by (auto simp: take_client_def create_client_def willing_client Let_def)
  have "pool_reach ?n (?p0, ()) (p1, ())" by (rule pool_reach.step [OF start fetch [OF f]])
  from pool_reach.step [OF this take_it [OF _ _ t]] have r: "pool_reach ?n (?p0, ()) (p2, ())" using p1 by simp
  show ?thesis using pool_exclusive [OF r] r p2 by blast
qed

text \<open>
  C37: A client is never created with STARTTLS. Where TLS is enabled (it is by default), every
  client that \<open>newSMTPClient\<close> returns talks to a server that does not offer STARTTLS: with one
  that does, the second \<open>Hello\<close> after the handshake is refused by the library, so the client is
  closed and an error returned.
\<close>

theorem client_never_upgraded:
  assumes "newSMTPClient n c host config w = (Inr s, config', w')" "so_TLSEnabled config"
  shows "\<exists>cl. sc_client s = Some cl \<and> nc_didHello cl \<and>
    (case nc_ext cl of None \<Rightarrow> True | Some m \<Rightarrow> map_of (rev m) ''STARTTLS'' = None)"
proof -
  obtain cl w3 w4 cl1 where hello: "nc_Hello n c (so_HeloHostname config) nc_new w3 = (None, cl, w4)"
    and sec: "secure_client n c host config cl w4 = (Inr cl1, config', w')" and s: "s = \<lparr>sc_host = host, sc_client = Some cl1, sc_locked = False\<rparr>"
    using assms(1) by (auto simp: newSMTPClient_def split: option.splits prod.splits sum.splits)
  have did: "nc_didHello cl" "nc_helloError cl = None" using nc_Hello_didHello [OF hello] by auto
  have up: "ToUpper ''STARTTLS'' = ''STARTTLS''" by code_simp
  have "nc_Extension n c ''STARTTLS'' cl w4 = (False, cl1, w')" by (rule secure_client_plain [OF sec assms(2)])
  then show ?thesis using s did unfolding nc_Extension_def up by (auto simp: nc_hello_def split: option.splits)
qed

theorem client_never_upgraded_witness:
  "\<exists>s. newSMTPClient (willing_net []) 0 ''mx'' (DefaultSMTPClientConfig ''me'') () = (Inr s, DefaultSMTPClientConfig ''me'', ()) \<and>
     (\<exists>cl. sc_client s = Some cl \<and> nc_didHello cl)"
  using client_never_upgraded [OF willing_client] willing_client [of 0 "()"] by (auto simp: DefaultSMTPClientConfig_def)

end
