(* ===== verification/Deliverer.thy ===== *)
theory Deliverer
  imports ClientPool RetryHeap
begin

text \<open>
  Delivery to remote servers, \<open>pkg/outbound/deliverer.go\<close>: grouping of the recipients by
  domain, MX lookup, DKIM signing, the attempts at the MX hosts with their error classes, and
  the statuses recorded. The resolver and the signer are arguments. The goroutines of
  \<open>Deliver\<close> are taken one after the other, in any order of the domains.
\<close>

section \<open>Error classes\<close>

definition isTemporaryDNSError :: "go_error \<Rightarrow> bool" where
  "isTemporaryDNSError err =
     (case errors_As is_DNSError err of
        Some d \<Rightarrow> IsTemporary d \<or> IsTimeout d
      | None \<Rightarrow> errors_Is err DeadlineExceeded)"

definition temp_codes :: "string list" where
  "temp_codes = [''421'', ''450'', ''451'', ''452'', ''454'', ''455'']"

definition perm_codes :: "string list" where
  "perm_codes = [''500'', ''501'', ''502'', ''503'', ''504'', ''521'', ''530'', ''541'', ''550'', ''551'', ''552'', ''553'', ''554'', ''555'', ''571'']"

definition has_code :: "string list \<Rightarrow> string \<Rightarrow> bool" where
  "has_code codes errStr \<longleftrightarrow>
     list_ex (\<lambda>prefix. list_ex (\<lambda>code. Contains errStr (prefix @ code @ '' '')) codes) ['' '', '': ''] \<or>
     list_ex (\<lambda>code. HasPrefix errStr (code @ '' '')) codes"

definition has_phrase :: "string list \<Rightarrow> string \<Rightarrow> bool" where
  "has_phrase phrases errStr = list_ex (Contains errStr) phrases"

fun op_timeout :: "go_error \<Rightarrow> bool" where
  "op_timeout (OpError _ _ t) = t" | "op_timeout _ = False"

fun op_err :: "go_error \<Rightarrow> string" where
  "op_err (OpError _ e _) = err_Error e" | "op_err _ = []"

definition isTemporarySMTPError :: "go_error \<Rightarrow> bool" where
  "isTemporarySMTPError err =
     (if errors_Is err DeadlineExceeded \<or> errors_Is err Canceled then True
      else if (case errors_As is_OpError err of None \<Rightarrow> False | Some oe \<Rightarrow>
                 op_timeout oe \<or> has_phrase [''connection refused'', ''host is down'', ''network is unreachable'',
                   ''no route to host'', ''connection reset by peer''] (op_err oe)) then True
      else has_code temp_codes (err_Error err) \<or>
           has_phrase [''4.0.'', ''4.1.'', ''4.2.'', ''4.3.'', ''4.4.'', ''4.5.'', ''4.6.'', ''4.7.''] (err_Error err) \<or>
           has_phrase [''temporary'', ''try again later'', ''greylisted'', ''retry'', ''timeout'', ''rate limit'', ''service unavailable'']
             (ToLower (err_Error err)))"

definition isPermanentSMTPError :: "go_error \<Rightarrow> bool" where
  "isPermanentSMTPError err =
     (if errors_Is err DeadlineExceeded \<or> errors_Is err Canceled then False
      else if (case errors_As is_OpError err of None \<Rightarrow> False | Some oe \<Rightarrow> op_timeout oe) then False
      else has_code perm_codes (err_Error err) \<or>
           has_phrase [''5.0.'', ''5.1.'', ''5.2.'', ''5.3.'', ''5.4.'', ''5.5.'', ''5.6.'', ''5.7.''] (err_Error err) \<or>
           has_phrase [''permanent'', ''rejected'', ''blocked'', ''spam'', ''denied'', ''banned'', ''blacklisted''] (ToLower (err_Error err)) \<or>
           has_phrase [''invalid''] (ToLower (err_Error err)) \<and> has_phrase [''address''] (ToLower (err_Error err)))"

section \<open>The deliverer\<close>

text \<open>A signer maps domain, selector, key and message to the signed message or an error.\<close>

type_synonym 'k signer = "string \<Rightarrow> string \<Rightarrow> 'k \<Rightarrow> string \<Rightarrow> go_error + string"

record 'k DKIMSignerOptions =
  ds_Domain :: string
  ds_Selector :: string
  ds_PrivateKey :: "'k option"
  ds_Signer :: "'k signer option"

record 'k Deliverer =
  dl_localDomains :: "string list"
  dl_dkimSigners :: "(string \<times> 'k DKIMSignerOptions) list"
  dl_heloHostname :: string

text \<open>An entry of the signer map: skipped (None) without a key and a signer.\<close>

definition valid_signer :: "'k signer \<Rightarrow> string \<times> 'k DKIMSignerOptions \<Rightarrow> (string \<times> 'k DKIMSignerOptions) option" where
  "valid_signer dkimSign = (\<lambda>(domain, opts0).
     (let opts = (if \<not> EqualFold domain (ds_Domain opts0) then opts0\<lparr>ds_Domain := domain\<rparr> else opts0) in
      if ds_PrivateKey opts \<noteq> None \<and> ds_Signer opts = None then Some (ToLower domain, opts\<lparr>ds_Signer := Some dkimSign\<rparr>)
      else if ds_PrivateKey opts = None \<and> ds_Signer opts = None then None
      else Some (ToLower domain, opts)))"

text \<open>Later entries of the map replace earlier ones: the list is searched from its end.\<close>

definition NewDeliverer ::
  "'k signer \<Rightarrow> (go_error + string) \<Rightarrow> bool \<Rightarrow> bool \<Rightarrow> string list \<Rightarrow> (string \<times> 'k DKIMSignerOptions) list \<Rightarrow> string \<Rightarrow>
     go_error + 'k Deliverer" where
  "NewDeliverer dkimSign osHostname hasResolver hasPool localDomains dkimConfigs heloName =
     (if \<not> hasResolver then Inl (TextError ''resolver cannot be nil'')
      else if \<not> hasPool then Inl (TextError ''clientPool cannot be nil'')
      else Inr \<lparr>dl_localDomains = map (\<lambda>d. ToLower (TrimSpace d)) localDomains,
                dl_dkimSigners = List.map_filter (valid_signer dkimSign) dkimConfigs,
                dl_heloHostname =
                  (if heloName \<noteq> [] then heloName
                   else (case osHostname of Inl _ \<Rightarrow> ''localhost'' | Inr h \<Rightarrow> if h = [] then ''localhost'' else h))\<rparr>)"

definition isLocal :: "'k Deliverer \<Rightarrow> string \<Rightarrow> bool" where
  "isLocal d domain \<longleftrightarrow> ToLower domain \<in> set (dl_localDomains d)"

definition prepareMessageData :: "'k Deliverer \<Rightarrow> Message \<Rightarrow> go_error + string" where
  "prepareMessageData d m =
     (case Split (From m) (CHR ''@'') of
        [_, dmn] \<Rightarrow>
          (case map_of (rev (dl_dkimSigners d)) (ToLower dmn) of
             None \<Rightarrow> Inr (Data m)
           | Some opts \<Rightarrow>
               (case (ds_Signer opts, ds_PrivateKey opts) of
                  (Some sign, Some key) \<Rightarrow>
                    (case sign (ds_Domain opts) (ds_Selector opts) key (Data m) of
                       Inl err \<Rightarrow> Inl (Wrapped (''dkim signing failed for domain '' @ ToLower dmn @ '': '') err [])
                     | Inr signedData \<Rightarrow> Inr signedData)
                | _ \<Rightarrow> Inr (Data m)))
      | _ \<Rightarrow> Inr (Data m))"

definition outgoing_data :: "'k Deliverer \<Rightarrow> Message \<Rightarrow> string" where
  "outgoing_data d m = (case prepareMessageData d m of Inl _ \<Rightarrow> Data m | Inr signedData \<Rightarrow> signedData)"

section \<open>One domain\<close>

text \<open>
  A delivery ends with an error or nil, or never (a method of a client does not return), or in a
  panic (a client is put into a closed pool). With it come the attempts made, not in the code,
  and the statuses recorded in the metrics.
\<close>

datatype dom_result = DomReturns "go_error option" | DomBlocks | DomPanics

datatype attempt = NoClient string go_error | Sent string "go_error option"

type_synonym statuses = "(string \<times> string) list"

fun mx_loop ::
  "'w smtp_net \<Rightarrow> string \<Rightarrow> string list \<Rightarrow> string \<Rightarrow> string \<Rightarrow> string list \<Rightarrow> go_error option \<Rightarrow> SMTPClientPool \<Rightarrow> 'w \<Rightarrow>
     dom_result \<times> attempt list \<times> statuses \<times> SMTPClientPool \<times> 'w" where
  "mx_loop n from rcpts dat domain [] lastErr p w =
     (DomReturns (Some (case lastErr of
          Some e \<Rightarrow> Wrapped (''failed to deliver to domain '' @ domain @ '' after trying all MX hosts: '') e []
        | None \<Rightarrow> TextError (''failed to deliver to domain '' @ domain @ '' after trying all MX hosts (no specific error)''))),
      [], [(''delivery_perm_failed_domain'', domain)], p, w)"
| "mx_loop n from rcpts dat domain (mx # mxs) lastErr p w =
     (let mxHost = TrimSuffix mx ''.'' in
      (case GetClient n mxHost p w of
         (Inl err, p1, w1) \<Rightarrow>
           (let (r, as, st, p2, w2) = mx_loop n from rcpts dat domain mxs
                   (Some (Wrapped (''failed to get client for '' @ mxHost @ '': '') err [])) p1 w1
            in (r, NoClient mxHost err # as, st, p2, w2))
       | (Inr c, p1, w1) \<Rightarrow>
           (case client_Send n c from rcpts dat (the (po_clients p1 c)) w1 of
              (SendBlocks, s, w2) \<Rightarrow> (DomBlocks, [], [], p1\<lparr>po_clients := (po_clients p1)(c \<mapsto> s)\<rparr>, w2)
            | (SendReturns res, s, w2) \<Rightarrow>
                (case ReleaseClient n c (p1\<lparr>po_clients := (po_clients p1)(c \<mapsto> s)\<rparr>) w2 of
                   (ReleasePanics, p3, w3) \<Rightarrow> (DomPanics, [Sent mxHost res], [], p3, w3)
                 | (ReleaseBlocks, p3, w3) \<Rightarrow> (DomBlocks, [Sent mxHost res], [], p3, w3)
                 | (Released, p3, w3) \<Rightarrow>
                     (case res of
                        None \<Rightarrow> (DomReturns None, [Sent mxHost res], [(''delivered'', domain)], p3, w3)
                      | Some err \<Rightarrow>
                          if isTemporarySMTPError err then
                            (DomReturns (Some (Wrapped (''temporary failure at '' @ mxHost @ '': '') err [])),
                             [Sent mxHost res], [(''delivery_temp_failed'', domain)], p3, w3)
                          else if isPermanentSMTPError err then
                            (let (r, as, st, p4, w4) = mx_loop n from rcpts dat domain mxs (Some err) p3 w3
                             in (r, Sent mxHost res # as, (''delivery_perm_failed_mx'', domain) # st, p4, w4))
                          else (DomReturns None, [Sent mxHost res], [(''delivered'', domain)], p3, w3))))))"

definition deliverToDomain ::
  "'w smtp_net \<Rightarrow> (string \<Rightarrow> 'w \<Rightarrow> (go_error + string list) \<times> 'w) \<Rightarrow> 'k Deliverer \<Rightarrow> Message \<Rightarrow> string \<Rightarrow> string list \<Rightarrow>
     SMTPClientPool \<Rightarrow> 'w \<Rightarrow> dom_result \<times> attempt list \<times> statuses \<times> SMTPClientPool \<times> 'w" where
  "deliverToDomain n lookupMX d m domain rcpts p w =
     (case lookupMX domain w of
        (Inl err, w1) \<Rightarrow>
          if isTemporaryDNSError err
          then (DomReturns (Some (Wrapped (''temporary MX lookup failure for '' @ domain @ '': '') err [])), [],
                [(''mx_lookup_temp_failed'', domain)], p, w1)
          else (DomReturns (Some (Wrapped (''permanent MX lookup failure for '' @ domain @ '': '') err [])), [],
                [(''mx_lookup_perm_failed'', domain)], p, w1)
      | (Inr hosts, w1) \<Rightarrow>
          if hosts = []
          then (DomReturns (Some (TextError (''no MX records found for domain '' @ domain))), [], [(''no_mx_records'', domain)], p, w1)
          else mx_loop n (From m) rcpts (outgoing_data d m) domain hosts None p w1)"

section \<open>All domains\<close>

definition rcpt_domain :: "string \<Rightarrow> string option" where
  "rcpt_domain rcpt =
     (case Split rcpt (CHR ''@'') of
        [a, b] \<Rightarrow> if a = [] \<or> b = [] then None else Some (ToLower b)
      | _ \<Rightarrow> None)"

fun add_rcpt :: "string \<Rightarrow> string \<Rightarrow> (string \<times> string list) list \<Rightarrow> (string \<times> string list) list" where
  "add_rcpt dmn rcpt [] = [(dmn, [rcpt])]"
| "add_rcpt dmn rcpt ((k, rs) # gs) = (if k = dmn then (k, rs @ [rcpt]) # gs else (k, rs) # add_rcpt dmn rcpt gs)"

definition domainRecipients :: "string list \<Rightarrow> (string \<times> string list) list" where
  "domainRecipients to = fold (\<lambda>rcpt gs. case rcpt_domain rcpt of None \<Rightarrow> gs | Some dmn \<Rightarrow> add_rcpt dmn rcpt gs) to []"

datatype deliver_result = DeliverReturns "go_error option" | DeliverBlocks | DeliverPanics

text \<open>The domains, in the order \<open>gs\<close>; the log has the calls of \<open>deliverToDomain\<close> with their results.\<close>

fun deliver_domains ::
  "'w smtp_net \<Rightarrow> (string \<Rightarrow> 'w \<Rightarrow> (go_error + string list) \<times> 'w) \<Rightarrow> 'k Deliverer \<Rightarrow> Message \<Rightarrow> (string \<times> string list) list \<Rightarrow>
     SMTPClientPool \<Rightarrow> 'w \<Rightarrow> (string \<times> string list \<times> dom_result) list \<times> statuses \<times> SMTPClientPool \<times> 'w" where
  "deliver_domains n lookupMX d m [] p w = ([], [], p, w)"
| "deliver_domains n lookupMX d m ((dmn, rcpts) # gs) p w =
     (if isLocal d dmn then deliver_domains n lookupMX d m gs p w
      else
        (let (r, as, st, p1, w1) = deliverToDomain n lookupMX d m dmn rcpts p w;
             (rs, st2, p2, w2) = deliver_domains n lookupMX d m gs p1 w1
         in ((dmn, rcpts, r) # rs, st @ st2, p2, w2)))"

text \<open>\<open>Deliver\<close>; \<open>ord\<close> is the order in which Go ranges over the map. It waits for every goroutine.\<close>

definition Deliver ::
  "'w smtp_net \<Rightarrow> (string \<Rightarrow> 'w \<Rightarrow> (go_error + string list) \<times> 'w) \<Rightarrow> 'k Deliverer \<Rightarrow>
     ((string \<times> string list) list \<Rightarrow> (string \<times> string list) list) \<Rightarrow> Message option \<Rightarrow> SMTPClientPool \<Rightarrow> 'w \<Rightarrow>
     deliver_result \<times> (string \<times> string list \<times> dom_result) list \<times> statuses \<times> SMTPClientPool \<times> 'w" where
  "Deliver n lookupMX d ord mo p w =
     (case mo of
        None \<Rightarrow> (DeliverReturns (Some (TextError ''cannot deliver nil message'')), [], [], p, w)
      | Some m \<Rightarrow>
          (let gs = domainRecipients (To m) in
           if gs = [] then (DeliverReturns None, [], [], p, w)
           else
             (let (rs, st, p1, w1) = deliver_domains n lookupMX d m (ord gs) p w;
                  ends = map (\<lambda>(_, _, r). r) rs
              in (if DomPanics \<in> set ends then DeliverPanics
                  else if DomBlocks \<in> set ends then DeliverBlocks else DeliverReturns None, rs, st, p1, w1))))"

section \<open>Grouping the recipients\<close>

lemma add_rcpt_keys: "fst ` set (add_rcpt k r gs) = insert k (fst ` set gs)"
proof (induction gs)
  case (Cons g gs)
  then show ?case by (cases g) (simp add: insert_commute)
qed simp

lemma add_rcpt_distinct: "distinct (map fst gs) \<Longrightarrow> distinct (map fst (add_rcpt k r gs))"
proof (induction gs)
  case (Cons g gs)
  then show ?case by (cases g) (auto simp: add_rcpt_keys)
qed simp

text \<open>Each group has the recipients of its domain, in the order in which the message names them.\<close>

definition groups_ok :: "(string \<times> string list) list \<Rightarrow> string list \<Rightarrow> bool" where
  "groups_ok gs to \<longleftrightarrow> distinct (map fst gs) \<and> fst ` set gs = {k. \<exists>x \<in> set to. rcpt_domain x = Some k} \<and>
     (\<forall>(k, rs) \<in> set gs. rs = filter (\<lambda>x. rcpt_domain x = Some k) to)"

lemma add_rcpt_elems:
  "distinct (map fst gs) \<Longrightarrow> (k', rs) \<in> set (add_rcpt k r gs) \<Longrightarrow>
     (k', rs) \<in> set gs \<and> k' \<noteq> k \<or> k' = k \<and> (k \<notin> fst ` set gs \<and> rs = [r] \<or> (\<exists>rs0. (k, rs0) \<in> set gs \<and> rs = rs0 @ [r]))"
  by (induction gs) (force split: if_splits)+

lemma groups_ok_add:
  assumes "groups_ok gs to"
  shows "groups_ok (case rcpt_domain r of None \<Rightarrow> gs | Some k \<Rightarrow> add_rcpt k r gs) (to @ [r])"
proof (cases "rcpt_domain r")
  case None
  then show ?thesis using assms by (auto simp: groups_ok_def)
next
  case (Some k)
  have old: "distinct (map fst gs)" "fst ` set gs = {k. \<exists>x \<in> set to. rcpt_domain x = Some k}"
    and rs: "\<And>k rs. (k, rs) \<in> set gs \<Longrightarrow> rs = filter (\<lambda>x. rcpt_domain x = Some k) to"
    using assms by (auto simp: groups_ok_def)
  have "distinct (map fst (add_rcpt k r gs))" by (rule add_rcpt_distinct [OF old(1)])
  moreover have "fst ` set (add_rcpt k r gs) = {k. \<exists>x \<in> set (to @ [r]). rcpt_domain x = Some k}"
    using old(2) Some by (auto simp: add_rcpt_keys)
  moreover have "rs' = filter (\<lambda>x. rcpt_domain x = Some k') (to @ [r])" if el: "(k', rs') \<in> set (add_rcpt k r gs)" for k' rs'
  proof -
    have none: "filter (\<lambda>x. rcpt_domain x = Some k) to = []" if "k \<notin> fst ` set gs" using that old(2) by (auto simp: filter_empty_conv)
    show ?thesis using add_rcpt_elems [OF old(1) el] rs Some none by auto
  qed
  ultimately show ?thesis using Some by (auto simp: groups_ok_def)
qed

lemma domainRecipients_ok: "groups_ok (domainRecipients to) to"
proof (induction to rule: rev_induct)
  case (snoc r to)
  then show ?case using groups_ok_add [OF snoc, of r] unfolding domainRecipients_def by simp
qed (simp add: groups_ok_def domainRecipients_def)

lemma deliver_domains_log:
  "deliver_domains n lk d m gs p w = (rs, st, p', w') \<Longrightarrow> map (\<lambda>(k, r, _). (k, r)) rs = filter (\<lambda>(k, _). \<not> isLocal d k) gs"
  by (induction gs arbitrary: p w rs st p' w') (auto split: if_splits prod.splits simp: Let_def)

text \<open>What it means that a recipient is an address in a domain, in its lower-case form.\<close>

definition addressed_to :: "string \<Rightarrow> string \<Rightarrow> bool" where
  "addressed_to x k \<longleftrightarrow> (\<exists>a b. x = a @ ''@'' @ b \<and> a \<noteq> [] \<and> b \<noteq> [] \<and> CHR ''@'' \<notin> set (a @ b) \<and> k = ToLower b)"

lemma rcpt_domain_iff: "rcpt_domain x = Some k \<longleftrightarrow> addressed_to x k"
proof
  assume "rcpt_domain x = Some k"
  then obtain a b where sp: "Split x (CHR ''@'') = [a, b]" "a \<noteq> []" "b \<noteq> []" "k = ToLower b"
    by (auto simp: rcpt_domain_def split: list.splits if_splits)
  then show "addressed_to x k" unfolding addressed_to_def Split_pair_iff by fastforce
next
  assume "addressed_to x k"
  then obtain a b where "x = a @ CHR ''@'' # b" "a \<noteq> []" "b \<noteq> []" "CHR ''@'' \<notin> set a" "CHR ''@'' \<notin> set b" "k = ToLower b"
    by (auto simp: addressed_to_def)
  then show "rcpt_domain x = Some k" by (simp add: rcpt_domain_def Split_append)
qed

section \<open>The attempts at the MX hosts\<close>

fun attempt_host :: "attempt \<Rightarrow> string" where
  "attempt_host (NoClient h _) = h" | "attempt_host (Sent h _) = h"

text \<open>After which attempts the next host is tried, and which count as a delivery.\<close>

fun try_next :: "attempt \<Rightarrow> bool" where
  "try_next (NoClient _ _) = True"
| "try_next (Sent _ None) = False"
| "try_next (Sent _ (Some err)) = (\<not> isTemporarySMTPError err \<and> isPermanentSMTPError err)"

fun counts_delivered :: "attempt \<Rightarrow> bool" where
  "counts_delivered (NoClient _ _) = False"
| "counts_delivered (Sent _ None) = True"
| "counts_delivered (Sent _ (Some err)) = (\<not> isTemporarySMTPError err \<and> \<not> isPermanentSMTPError err)"

definition attempts_ok :: "string list \<Rightarrow> string \<Rightarrow> go_error option \<Rightarrow> attempt list \<Rightarrow> statuses \<Rightarrow> bool" where
  "attempts_ok mxs domain res as st \<longleftrightarrow>
     map attempt_host as = map (\<lambda>mx. TrimSuffix mx ''.'') (take (length as) mxs) \<and>
     list_all try_next (butlast as) \<and>
     (res = None \<longleftrightarrow> as \<noteq> [] \<and> counts_delivered (last as)) \<and>
     (as = [] \<or> try_next (last as) \<longrightarrow> length as = length mxs) \<and>
     ((''delivered'', domain) \<in> set st \<longleftrightarrow> res = None)"

lemma attempts_Cons:
  assumes "attempts_ok mxs domain res as st" "try_next a" "attempt_host a = TrimSuffix mx ''.''" "x \<noteq> ''delivered''"
  shows "attempts_ok (mx # mxs) domain res (a # as) ((x, domain) # st)" "attempts_ok (mx # mxs) domain res (a # as) st"
proof -
  have a: "\<not> counts_delivered a" using assms(2) by (cases a rule: try_next.cases) auto
  show "attempts_ok (mx # mxs) domain res (a # as) ((x, domain) # st)" "attempts_ok (mx # mxs) domain res (a # as) st"
    using assms a by (cases "as = []"; simp add: attempts_ok_def)+
qed

lemma mx_loop_attempts:
  "mx_loop n from rcpts dat domain mxs lastErr p w = (DomReturns res, as, st, p', w') \<Longrightarrow> attempts_ok mxs domain res as st"
proof (induction mxs arbitrary: lastErr p w res as st p' w')
  case Nil
  then show ?case by (auto simp: attempts_ok_def)
next
  case (Cons mx mxs)
  let ?h = "TrimSuffix mx ''.''"
  show ?case
  proof (cases "GetClient n ?h p w")
    case (fields g p1 w1)
    show ?thesis
    proof (cases g)
      case (Inl err)
      then obtain as' where "as = NoClient ?h err # as'"
        and rec: "mx_loop n from rcpts dat domain mxs (Some (Wrapped (''failed to get client for '' @ ?h @ '': '') err [])) p1 w1 =
          (DomReturns res, as', st, p', w')"
        using Cons.prems fields by (auto simp: Let_def split: prod.splits)
      then show ?thesis using attempts_Cons(2) [OF Cons.IH [OF rec], of "NoClient ?h err" mx] by auto
    next
      case (Inr c)
      obtain so s w2 where send: "client_Send n c from rcpts dat (the (po_clients p1 c)) w1 = (so, s, w2)"
        by (cases "client_Send n c from rcpts dat (the (po_clients p1 c)) w1")
      obtain x where so: "so = SendReturns x" using Cons.prems fields Inr send by (cases so) (auto simp: Let_def)
      obtain p3 w3 where rel: "ReleaseClient n c (p1\<lparr>po_clients := (po_clients p1)(c \<mapsto> s)\<rparr>) w2 = (Released, p3, w3)"
        using Cons.prems fields Inr send so
        by (cases "ReleaseClient n c (p1\<lparr>po_clients := (po_clients p1)(c \<mapsto> s)\<rparr>) w2") (auto simp: Let_def split: release_outcome.splits)
      show ?thesis
      proof (cases "\<exists>err. x = Some err \<and> \<not> isTemporarySMTPError err \<and> isPermanentSMTPError err")
        case True
        then obtain err as' st' where x: "x = Some err" "try_next (Sent ?h x)"
          and eq: "as = Sent ?h x # as'" "st = (''delivery_perm_failed_mx'', domain) # st'"
          and rec: "mx_loop n from rcpts dat domain mxs (Some err) p3 w3 = (DomReturns res, as', st', p', w')"
          using Cons.prems fields Inr send so rel by (auto simp: Let_def split: prod.splits)
        then show ?thesis using attempts_Cons(1) [OF Cons.IH [OF rec], of "Sent ?h x" mx] by auto
      next
        case False
        then show ?thesis using Cons.prems fields Inr send so rel
          by (auto simp: Let_def attempts_ok_def split: option.splits if_splits)
      qed
    qed
  qed
qed

section \<open>Properties\<close>

text \<open>
  C15: Every recipient is served once, in order. In whatever order Go ranges over the domains, the
  calls of \<open>deliverToDomain\<close> are for distinct domains: exactly those, in lower case, of the
  message's recipients of the form local part, one at sign, domain, that are not among the local
  domains. Each call has exactly the recipients in its domain, as often as the message names
  them and in the order of the message.
\<close>

theorem recipients_partition:
  assumes "mset (ord (domainRecipients (To m))) = mset (domainRecipients (To m))"
    "Deliver n lookupMX d ord (Some m) p w = (r, calls, st, p', w')"
  shows "distinct (map fst calls) \<and>
    fst ` set calls = {k. (\<exists>x \<in> set (To m). addressed_to x k) \<and> ToLower k \<notin> set (dl_localDomains d)} \<and>
    (\<forall>(k, rs, _) \<in> set calls. rs = filter (\<lambda>x. addressed_to x k) (To m))"
proof -
  let ?gs = "domainRecipients (To m)"
  have ok: "groups_ok ?gs (To m)" by (rule domainRecipients_ok)
  define cs where "cs = map (\<lambda>(k, r, _). (k, r)) calls"
  have cs: "mset cs = mset (filter (\<lambda>(k, _). \<not> isLocal d k) ?gs)"
  proof (cases "?gs = []")
    case True
    then show ?thesis using assms(2) by (simp add: Deliver_def cs_def)
  next
    case False
    then obtain st1 p1 w1 where "deliver_domains n lookupMX d m (ord ?gs) p w = (calls, st1, p1, w1)"
      using assms(2) by (auto simp: Deliver_def Let_def split: prod.splits if_splits)
    from deliver_domains_log [OF this] show ?thesis using assms(1) by (simp add: cs_def)
  qed
  have sel: "map fst calls = map fst cs" by (auto simp: cs_def)
  have "mset (map fst cs) = mset (map fst (filter (\<lambda>(k, _). \<not> isLocal d k) ?gs))" using cs by (metis mset_map)
  then have "distinct (map fst cs) = distinct (map fst (filter (\<lambda>(k, _). \<not> isLocal d k) ?gs))" by (rule mset_eq_imp_distinct_iff)
  then have dist: "distinct (map fst calls)" using ok by (simp add: sel distinct_map_filter groups_ok_def)
  have cset: "set cs = {(k, rs) \<in> set ?gs. \<not> isLocal d k}" using mset_eq_setD [OF cs] by auto
  have keys: "fst ` set ?gs = {k. \<exists>x \<in> set (To m). addressed_to x k}" using ok by (simp add: groups_ok_def rcpt_domain_iff)
  have "fst ` {(k, rs) \<in> set ?gs. \<not> isLocal d k} = {k \<in> fst ` set ?gs. ToLower k \<notin> set (dl_localDomains d)}"
    by (auto simp: isLocal_def image_iff)
  moreover have "fst ` set calls = fst ` set cs" using sel by (metis list.set_map)
  ultimately have doms: "fst ` set calls = {k. (\<exists>x \<in> set (To m). addressed_to x k) \<and> ToLower k \<notin> set (dl_localDomains d)}"
    using keys cset by auto
  have "rs = filter (\<lambda>x. addressed_to x k) (To m)" if "(k, rs, x) \<in> set calls" for k rs x
  proof -
    have "(k, rs) \<in> set cs" using that by (force simp: cs_def)
    then show ?thesis using ok unfolding cset groups_ok_def rcpt_domain_iff by blast
  qed
  then show ?thesis using dist doms by blast
qed

text \<open>
  C16: The order of the attempts. When delivery to a domain with MX hosts returns, the hosts
  were tried in the order of the lookup from the first on; the next one was tried exactly after
  a host without a client and after a permanent failure; delivery stopped early only at an
  attempt that was neither; and it returns nil, and records "delivered", exactly when the last
  attempt ended without an error or with one that is neither temporary nor permanent.
\<close>

theorem mx_order:
  assumes "lookupMX domain w = (Inr hosts, w1)" "hosts \<noteq> []"
    "deliverToDomain n lookupMX d m domain rcpts p w = (DomReturns res, as, st, p', w')"
  shows "map attempt_host as = map (\<lambda>mx. TrimSuffix mx ''.'') (take (length as) hosts) \<and>
    list_all try_next (butlast as) \<and> as \<noteq> [] \<and> (try_next (last as) \<longrightarrow> length as = length hosts) \<and>
    (res = None \<longleftrightarrow> counts_delivered (last as)) \<and> ((''delivered'', domain) \<in> set st \<longleftrightarrow> res = None)"
proof -
  have "mx_loop n (From m) rcpts (outgoing_data d m) domain hosts None p w1 = (DomReturns res, as, st, p', w')"
    using assms by (simp add: deliverToDomain_def)
  from mx_loop_attempts [OF this] have ok: "attempts_ok hosts domain res as st" .
  then have "as \<noteq> []" using assms(2) by (auto simp: attempts_ok_def)
  then show ?thesis using ok by (simp add: attempts_ok_def)
qed

text \<open>
  C38: A stale connection blocks delivery for ever. Take a pool after any use of it. The client
  that it gives out for the first MX host is not locked by anybody. When it fails its RSET (the
  peer has closed an idle connection, say), \<open>Send\<close>, which holds the client's mutex, calls \<open>Close\<close>, which waits for the same
  mutex: the delivery to the domain never returns, nor does \<open>Deliver\<close>, which waits for it, and the
  mutex stays locked, so that no later \<open>Send\<close> or \<open>Close\<close> of this client returns either.
\<close>

theorem stale_connection_blocks:
  assumes "pool_reach n (NewSMTPClientPool config, w0) (p, wp)"
    "domainRecipients (To m) = [(domain, rcpts)]" "\<not> isLocal d domain" "lookupMX domain w = (Inr (mx # mxs), w1)"
    "GetClient n (TrimSuffix mx ''.'') p w1 = (Inr c, p1, w2)"
    "po_clients p1 c = Some s" "sc_client s = Some cl" "nc_Reset n c cl w2 = (Some err, cl1, w3)"
    "Deliver n lookupMX d id (Some m) p w = (r, calls, st, p', w')"
  shows "\<not> sc_locked s \<and> r = DeliverBlocks \<and> (\<exists>s'. po_clients p' c = Some s' \<and> sc_locked s' \<and>
    (\<forall>from to dat w. fst (client_Send n c from to dat s' w) = SendBlocks \<and> fst (client_Close n c s' w) = CloseBlocks))"
proof -
  have "pool_ok p" using pool_reach_ok [OF assms(1)] NewSMTPClientPool_ok by simp
  then have free: "\<not> sc_locked s" using GetClient_free [OF _ assms(5)] assms(6) by auto
  have "fst (client_Send n c (From m) rcpts (outgoing_data d m) s w2) = SendBlocks"
    using assms(7,8) by (simp add: client_Send_blocks_iff)
  then obtain s' w4 where send: "client_Send n c (From m) rcpts (outgoing_data d m) s w2 = (SendBlocks, s', w4)"
    by (metis prod.collapse)
  have lock: "sc_locked s'" by (rule client_Send_keeps_lock [OF send])
  have "deliverToDomain n lookupMX d m domain rcpts p w = (DomBlocks, [], [], p1\<lparr>po_clients := (po_clients p1)(c \<mapsto> s')\<rparr>, w4)"
    using assms(4-6) send by (simp add: deliverToDomain_def Let_def)
  then have "r = DeliverBlocks" "po_clients p' c = Some s'" using assms(2,3,9) by (auto simp: Deliver_def)
  then show ?thesis using free lock by (simp add: client_Send_blocks_iff client_Close_locked)
qed

text \<open>A deliverer, a message and a resolver for the examples.\<close>

definition sample_deliverer :: "unit Deliverer" where
  "sample_deliverer = \<lparr>dl_localDomains = [''here.org''], dl_dkimSigners = [], dl_heloHostname = ''me''\<rparr>"

definition sample_mail :: Message where
  "sample_mail = \<lparr>ID = ''1'', From = ''a@here.org'', To = [''b@There.org'', ''c@here.org'', ''nobody'', ''d@there.org''],
     Data = ''hi'', CreatedAt = 0, RetryCount = 0, NextAttemptAt = 0\<rparr>"

definition sample_MX :: "string \<Rightarrow> unit \<Rightarrow> (go_error + string list) \<times> unit" where
  "sample_MX dmn w = (Inr [''mx.''], w)"

definition sample_pool :: SMTPClientPool where
  "sample_pool = NewSMTPClientPool (DefaultSMTPClientConfig ''me'')"

text \<open>A peer that has closed every connection since its greeting.\<close>

definition stale_net :: "unit smtp_net" where
  "stale_net = (willing_net [])\<lparr>sn_Cmd := \<lambda>_ _ w. (Some (TextError ''EOF''), w)\<rparr>"

lemma sample_groups: "domainRecipients (To sample_mail) = [(''there.org'', [''b@There.org'', ''d@there.org'']), (''here.org'', [''c@here.org''])]"
  by code_simp

theorem recipients_partition_witness:
  "\<exists>r rs. fst (snd (Deliver (willing_net []) sample_MX sample_deliverer rev (Some sample_mail) sample_pool ())) = [(''there.org'', rs, r)] \<and>
     rs = [''b@There.org'', ''d@there.org''] \<and> rs = filter (\<lambda>x. addressed_to x ''there.org'') (To sample_mail)"
proof -
  let ?D = "Deliver (willing_net []) sample_MX sample_deliverer rev (Some sample_mail) sample_pool ()"
  have "map (\<lambda>(k, rs, _). (k, rs)) (fst (snd ?D)) = [(''there.org'', [''b@There.org'', ''d@there.org''])]" by code_simp
  then obtain r where c: "fst (snd ?D) = [(''there.org'', [''b@There.org'', ''d@there.org''], r)]" by auto
  have "\<forall>(k, rs, _) \<in> set (fst (snd ?D)). rs = filter (\<lambda>x. addressed_to x k) (To sample_mail)"
    using recipients_partition [of rev sample_mail "willing_net []" sample_MX sample_deliverer sample_pool "()"]
    by (cases ?D) simp
  then show ?thesis using c by simp
qed

theorem mx_order_witness:
  "fst (deliverToDomain (willing_net []) sample_MX sample_deliverer sample_mail ''there.org'' [''d@there.org''] sample_pool ()) = DomReturns None \<and>
   map attempt_host (fst (snd (deliverToDomain (willing_net []) sample_MX sample_deliverer sample_mail ''there.org'' [''d@there.org''] sample_pool ())))
     = [''mx'']"
proof -
  let ?d = "deliverToDomain (willing_net []) sample_MX sample_deliverer sample_mail ''there.org'' [''d@there.org''] sample_pool ()"
  have r: "fst ?d = DomReturns None" by code_simp
  have l: "length (fst (snd ?d)) = 1" by code_simp
  obtain as st p' w' where d: "?d = (DomReturns None, as, st, p', w')" using r by (cases ?d) auto
  have mx: "sample_MX ''there.org'' () = (Inr [''mx.''], ())" by (simp add: sample_MX_def)
  have "map attempt_host as = map (\<lambda>mx. TrimSuffix mx ''.'') (take (length as) [''mx.''])"
    using mx_order [OF mx _ d] by blast
  then show ?thesis using l r d by (simp add: TrimSuffix_def HasSuffix_def)
qed

theorem stale_connection_blocks_witness:
  "fst (Deliver stale_net sample_MX sample_deliverer id (Some (sample_mail\<lparr>To := [''d@there.org'']\<rparr>)) sample_pool ()) = DeliverBlocks"
proof -
  let ?m = "sample_mail\<lparr>To := [''d@there.org'']\<rparr>"
  have g: "domainRecipients (To ?m) = [(''there.org'', [''d@there.org''])]" by code_simp
  have l: "\<not> isLocal sample_deliverer ''there.org''" by code_simp
  have mx: "sample_MX ''there.org'' () = (Inr [''mx.''], ())" by (simp add: sample_MX_def)
  have new: "newSMTPClient stale_net c ''mx'' (DefaultSMTPClientConfig ''me'') w = (Inr plain_client, DefaultSMTPClientConfig ''me'', w)" for c w
    by (simp add: stale_net_def newSMTPClient_def willing_net_def nc_Hello_def nc_hello_def nc_ehlo_def nc_new_def secure_client_def
        nc_Extension_def DefaultSMTPClientConfig_def validateLine_def plain_client_def ContainsAny_def)
  obtain p1 where get: "GetClient stale_net (TrimSuffix ''mx.'' ''.'') sample_pool () = (Inr 0, p1, ())" and c: "po_clients p1 0 = Some plain_client"
    by (simp add: GetClient_def getOrCreateHostPool_def sample_pool_def NewSMTPClientPool_def Let_def take_client_def create_client_def new
        TrimSuffix_def HasSuffix_def)
  let ?cl = "\<lparr>nc_localName = ''me'', nc_didHello = True, nc_helloError = None, nc_ext = Some []\<rparr>"
  have cl: "sc_client plain_client = Some ?cl" by (simp add: plain_client_def)
  have rs: "nc_Reset stale_net 0 ?cl () = (Some (TextError ''EOF''), ?cl, ())"
    by (simp add: nc_Reset_def nc_hello_def stale_net_def)
  have reach: "pool_reach stale_net (NewSMTPClientPool (DefaultSMTPClientConfig ''me''), ()) (sample_pool, ())"
    unfolding sample_pool_def by (rule pool_reach.start)
  obtain r calls st p' w' where D: "Deliver stale_net sample_MX sample_deliverer id (Some ?m) sample_pool () = (r, calls, st, p', w')"
    by (cases "Deliver stale_net sample_MX sample_deliverer id (Some ?m) sample_pool ()")
  show ?thesis using stale_connection_blocks [OF reach g l mx get c cl rs D] by (simp add: D)
qed

end
