(* ===== verification/SmtpdMain.thy ===== *)
theory SmtpdMain
  imports ServerLoop Deliverer
begin

text \<open>
  The program \<open>cmd/smtpd/main.go\<close>: its flags, the configuration it runs with, the construction and
  the start of the two servers, and what it returns. Of package flag the parser is modelled;
  \<open>strconv.ParseInt\<close> and \<open>time.ParseDuration\<close> are arguments, as are the files and the listeners.
\<close>

section \<open>Package flag\<close>

datatype flag_kind = FString | FBool | FInt | FDuration

datatype flag_val = StrVal (str_val: string) | BoolVal (bool_val: bool) | IntVal (int_val: int)

type_synonym flags = "(string \<times> flag_kind \<times> flag_val) list"

datatype flag_err =
    ErrHelp
  | BadSyntax string
  | NotDefined string
  | NeedsArgument string
  | InvalidBool string string
  | InvalidValue string string

record flag_lib =
  fl_ParseInt :: "string \<Rightarrow> int option"
  fl_ParseDuration :: "string \<Rightarrow> int option"

definition ParseBool :: "string \<Rightarrow> bool option" where
  "ParseBool s =
     (if s \<in> {''1'', ''t'', ''T'', ''true'', ''TRUE'', ''True''} then Some True
      else if s \<in> {''0'', ''f'', ''F'', ''false'', ''FALSE'', ''False''} then Some False else None)"

definition flag_parse :: "flag_lib \<Rightarrow> flag_kind \<Rightarrow> string \<Rightarrow> flag_val option" where
  "flag_parse lib k s =
     (case k of
        FString \<Rightarrow> Some (StrVal s)
      | FBool \<Rightarrow> map_option BoolVal (ParseBool s)
      | FInt \<Rightarrow> map_option IntVal (fl_ParseInt lib s)
      | FDuration \<Rightarrow> map_option IntVal (fl_ParseDuration lib s))"

definition set_flag :: "string \<Rightarrow> flag_val \<Rightarrow> flags \<Rightarrow> flags" where
  "set_flag name v = map (\<lambda>(n, k, x). (n, k, if n = name then v else x))"

definition flag_value :: "flags \<Rightarrow> string \<Rightarrow> flag_val" where
  "flag_value fl name = snd (the (map_of fl name))"

text \<open>The name and, behind the first equals sign, the value of an argument without its dashes.\<close>

fun split_eq :: "string \<Rightarrow> string \<times> string option" where
  "split_eq [] = ([], None)"
| "split_eq (c # s) = (if c = CHR ''='' then ([], Some s) else (let (n, v) = split_eq s in (c # n, v)))"

text \<open>
  \<open>FlagSet.Parse\<close>: an argument that is no flag, or two dashes, ends the flags. The argument is
  classified first: None when it ends the flags.
\<close>

definition flag_arg :: "string \<Rightarrow> (flag_err + string \<times> string option) option" where
  "flag_arg s =
     (if length s < 2 \<or> hd s \<noteq> CHR ''-'' then None
      else (let minuses = (if s ! 1 = CHR ''-'' then 2 else 1) in
        if minuses = 2 \<and> length s = 2 then None
        else (let name = drop minuses s in
          if name = [] \<or> hd name = CHR ''-'' \<or> hd name = CHR ''='' then Some (Inl (BadSyntax s))
          else Some (Inr (split_eq name)))))"

datatype flag_step = EndFlags | FlagErr flag_err | SetTo string flag_val "string list"

definition parseOne :: "flag_lib \<Rightarrow> (string \<Rightarrow> flag_kind option) \<Rightarrow> string \<Rightarrow> string list \<Rightarrow> flag_step" where
  "parseOne lib formal s args =
     (case flag_arg s of
        None \<Rightarrow> EndFlags
      | Some (Inl err) \<Rightarrow> FlagErr err
      | Some (Inr (name, val)) \<Rightarrow>
          (case formal name of
             None \<Rightarrow> FlagErr (if name = ''help'' \<or> name = ''h'' then ErrHelp else NotDefined name)
           | Some k \<Rightarrow>
               if k = FBool then
                 (let v = (case val of Some v \<Rightarrow> v | None \<Rightarrow> ''true'') in
                  (case flag_parse lib FBool v of
                     None \<Rightarrow> FlagErr (InvalidBool v name)
                   | Some x \<Rightarrow> SetTo name x args))
               else
                 (case (val, args) of
                    (None, []) \<Rightarrow> FlagErr (NeedsArgument name)
                  | (Some v, _) \<Rightarrow>
                      (case flag_parse lib k v of None \<Rightarrow> FlagErr (InvalidValue v name) | Some x \<Rightarrow> SetTo name x args)
                  | (None, v # rest) \<Rightarrow>
                      (case flag_parse lib k v of None \<Rightarrow> FlagErr (InvalidValue v name) | Some x \<Rightarrow> SetTo name x rest))))"

lemma parseOne_SetTo:
  "parseOne lib formal s args = SetTo name x rest \<Longrightarrow> length rest \<le> length args \<and> formal name \<noteq> None"
  by (auto simp: parseOne_def Let_def split: option.splits sum.splits prod.splits if_splits list.splits)

definition flag_kind_of :: "flags \<Rightarrow> string \<Rightarrow> flag_kind option" where
  "flag_kind_of fl name = map_option fst (map_of fl name)"

function parse_flags :: "flag_lib \<Rightarrow> flags \<Rightarrow> string list \<Rightarrow> flag_err + flags" where
  "parse_flags lib fl [] = Inr fl"
| "parse_flags lib fl (s # args) =
     (case parseOne lib (flag_kind_of fl) s args of
        EndFlags \<Rightarrow> Inr fl
      | FlagErr err \<Rightarrow> Inl err
      | SetTo name x rest \<Rightarrow> parse_flags lib (set_flag name x fl) rest)"
  by pat_completeness auto
termination
  by (relation "measure (\<lambda>(lib, fl, args). length args)") (auto dest: parseOne_SetTo)

section \<open>The configuration\<close>

definition initial_flags :: flags where
  "initial_flags = [(''config'', FString, StrVal []), (''debug'', FBool, BoolVal False)]"

definition override_flags :: "Config \<Rightarrow> flags" where
  "override_flags cfg =
     [(''listen-addr'', FString, StrVal (ListenAddr (Server cfg))),
      (''port'', FInt, IntVal (Port (Server cfg))),
      (''submission-port'', FInt, IntVal (SubmissionPort (Server cfg))),
      (''max-connections'', FInt, IntVal (MaxConnections (Server cfg))),
      (''max-message-size'', FInt, IntVal (MaxMessageSize (Server cfg))),
      (''read-timeout'', FDuration, IntVal (ReadTimeout (Server cfg))),
      (''write-timeout'', FDuration, IntVal (WriteTimeout (Server cfg))),
      (''idle-timeout'', FDuration, IntVal (IdleTimeout (Server cfg))),
      (''shutdown-timeout'', FDuration, IntVal (ShutdownTimeout (Server cfg))),
      (''auth-enabled'', FBool, BoolVal (ac_Enabled (AuthSettings cfg))),
      (''auth-users-file'', FString, StrVal (ac_UsersFile (AuthSettings cfg))),
      (''tls-enabled'', FBool, BoolVal (TLSEnabled (Security cfg))),
      (''tls-cert-file'', FString, StrVal (TLSCertFile (Security cfg))),
      (''tls-key-file'', FString, StrVal (TLSKeyFile (Security cfg))),
      (''rate-limit'', FInt, IntVal (RateLimit (Security cfg))),
      (''metrics-enabled'', FBool, BoolVal (mc_Enabled (Metrics cfg))),
      (''metrics-addr'', FString, StrVal (mc_ListenAddr (Metrics cfg))),
      (''metrics-path'', FString, StrVal (mc_MetricsPath (Metrics cfg)))]"

definition apply_overrides :: "flags \<Rightarrow> Config \<Rightarrow> Config" where
  "apply_overrides fl cfg =
     (let str = (\<lambda>n. str_val (flag_value fl n)); num = (\<lambda>n. int_val (flag_value fl n)); flg = (\<lambda>n. bool_val (flag_value fl n));
          srv = (Server cfg)
            \<lparr>ListenAddr := str ''listen-addr'', Port := num ''port'', SubmissionPort := num ''submission-port'',
             MaxConnections := num ''max-connections'', MaxMessageSize := num ''max-message-size'',
             ReadTimeout := num ''read-timeout'', WriteTimeout := num ''write-timeout'',
             IdleTimeout := num ''idle-timeout'', ShutdownTimeout := num ''shutdown-timeout''\<rparr>;
          aut = (AuthSettings cfg)\<lparr>ac_Enabled := flg ''auth-enabled'', ac_UsersFile := str ''auth-users-file''\<rparr>;
          sec = (Security cfg)
            \<lparr>TLSEnabled := flg ''tls-enabled'', TLSCertFile := str ''tls-cert-file'', TLSKeyFile := str ''tls-key-file'',
             RateLimit := num ''rate-limit''\<rparr>;
          met = (Metrics cfg)
            \<lparr>mc_Enabled := flg ''metrics-enabled'', mc_ListenAddr := str ''metrics-addr'', mc_MetricsPath := str ''metrics-path''\<rparr>;
          cfg1 = cfg\<lparr>Server := srv, AuthSettings := aut, Security := sec, Metrics := met\<rparr>
      in if flg ''debug'' then cfg1\<lparr>Logging := (Logging cfg1)\<lparr>lc_Level := ''debug''\<rparr>\<rparr> else cfg1)"

datatype run_error =
    FlagError string flag_err
  | LoadError string go_error
  | RunError go_error

text \<open>\<open>Inl None\<close> is the clean exit after the help text.\<close>

definition main_config ::
  "flag_lib \<Rightarrow> (string \<Rightarrow> go_error + string) \<Rightarrow> (string \<Rightarrow> Config \<Rightarrow> go_error + Config) \<Rightarrow> string list \<Rightarrow> run_error option + Config" where
  "main_config lib readFile unmarshal args =
     (case parse_flags lib initial_flags args of
        Inl ErrHelp \<Rightarrow> Inl None
      | Inl err \<Rightarrow> Inl (Some (FlagError ''failed to parse initial flags: '' err))
      | Inr fl \<Rightarrow>
          (let configFile = str_val (flag_value fl ''config'') in
           (case LoadConfig readFile unmarshal configFile of
              Inl err \<Rightarrow> Inl (Some (LoadError configFile err))
            | Inr cfg \<Rightarrow>
                (case parse_flags lib (fl @ override_flags cfg) args of
                   Inl err \<Rightarrow> Inl (Some (FlagError ''failed to parse override flags: '' err))
                 | Inr fl2 \<Rightarrow> Inr (apply_overrides fl2 cfg)))))"

section \<open>Starting\<close>

text \<open>What the program asks its system for; \<open>'k\<close> is the type of private keys.\<close>

record 'k host =
  ho_readFile :: "string \<Rightarrow> go_error + string"
  ho_config :: "string \<Rightarrow> Config \<Rightarrow> go_error + Config"
  ho_users :: "string \<Rightarrow> go_error + (string \<times> string) list"
  ho_bcrypt :: "string \<Rightarrow> go_error + string"
  ho_stat :: "string \<Rightarrow> go_error option"
  ho_Hostname :: "go_error + string"
  ho_LoadPrivateKey :: "string \<Rightarrow> go_error + 'k"
  ho_sign :: "'k signer"
  ho_createTLS :: "TLSConfig \<Rightarrow> go_error option"
  ho_listen :: "bool \<Rightarrow> string \<Rightarrow> go_error + string"

text \<open>The signers and the deliverer that \<open>NewServerWithOptions\<close> builds; a key that cannot be loaded is left out.\<close>

definition dkim_options :: "(string \<Rightarrow> go_error + 'k) \<Rightarrow> 'k signer \<Rightarrow> (string \<times> DKIMConfig) list \<Rightarrow> (string \<times> 'k DKIMSignerOptions) list" where
  "dkim_options loadKey sign =
     List.map_filter (\<lambda>(domain, cfg).
       (case loadKey (PrivateKeyPath cfg) of
          Inl _ \<Rightarrow> None
        | Inr pk \<Rightarrow> Some (domain, \<lparr>ds_Domain = domain, ds_Selector = Selector cfg, ds_PrivateKey = Some pk, ds_Signer = Some sign\<rparr>)))"

definition server_deliverer :: "'k host \<Rightarrow> Config \<Rightarrow> go_error + 'k Deliverer" where
  "server_deliverer h cfg =
     NewDeliverer (ho_sign h) (ho_Hostname h) True True (LocalDomains (Server cfg))
       (dkim_options (ho_LoadPrivateKey h) (ho_sign h) (DKIM (Outbound cfg))) (Hostname (Server cfg))"

definition build_server :: "'k host \<Rightarrow> Config \<Rightarrow> new_result" where
  "build_server h cfg =
     NewServerWithOptions (Some cfg) True True
       (case server_deliverer h cfg of Inl err \<Rightarrow> Some err | Inr _ \<Rightarrow> None)
       (config_AuthStore (ho_readFile h) (ho_users h) (ho_bcrypt h) cfg)"

definition main_server_config :: "Config \<Rightarrow> Config" where
  "main_server_config cfg =
     cfg\<lparr>Server := (Server cfg)\<lparr>ListenAddr := ListenAddr (Server cfg) @ '':'' @ Itoa (Port (Server cfg))\<rparr>\<rparr>"

definition submission_server_config :: "Config \<Rightarrow> Config" where
  "submission_server_config cfg =
     cfg\<lparr>Server := (Server cfg)\<lparr>ListenAddr := ListenAddr (Server cfg) @ '':'' @ Itoa (SubmissionPort (Server cfg)),
                               Port := SubmissionPort (Server cfg)\<rparr>\<rparr>"

record app =
  ap_config :: Config
  ap_queue :: Queue
  ap_plugins :: "unit Manager"
  ap_main :: server
  ap_submission :: server

datatype main_result = MainExit "run_error option" | MainPanic | MainStarted app

definition create_servers :: "'k host \<Rightarrow> Config \<Rightarrow> main_result" where
  "create_servers h cfg =
     (case build_server h (main_server_config cfg) of
        NewPanic \<Rightarrow> MainPanic
      | NewErr err \<Rightarrow> MainExit (Some (RunError (Wrapped ''failed to create main server: '' err [])))
      | NewOk m \<Rightarrow>
          (case build_server h (submission_server_config cfg) of
             NewPanic \<Rightarrow> MainPanic
           | NewErr err \<Rightarrow> MainExit (Some (RunError (Wrapped ''failed to create submission server: '' err [])))
           | NewOk b \<Rightarrow> MainStarted \<lparr>ap_config = cfg, ap_queue = NewQueue (ConnectionBacklog (Server cfg)),
                ap_plugins = NewManager, ap_main = m, ap_submission = b\<rparr>))"

definition main_init :: "flag_lib \<Rightarrow> 'k host \<Rightarrow> string list \<Rightarrow> main_result" where
  "main_init lib h args =
     (case main_config lib (ho_readFile h) (ho_config h) args of
        Inl err \<Rightarrow> MainExit err
      | Inr cfg \<Rightarrow>
          (case Validate (ho_stat h) cfg of
             Some err \<Rightarrow> MainExit (Some (RunError (Wrapped ''invalid configuration: '' err [])))
           | None \<Rightarrow>
               if SubmissionPort (Server cfg) > 0 \<and> lacks_tls cfg
               then MainExit (Some (RunError (TextError
                      (''TLS configuration (enabled, cert, key) is required for submission port '' @ Itoa (SubmissionPort (Server cfg))))))
               else create_servers h cfg))"

section \<open>Running\<close>

text \<open>
  The goroutines of the error group start the servers and, when it is enabled, the metrics
  server, whose error (other than being closed) is \<open>metricsErr\<close>; they finish in the order
  \<open>ord\<close>, and the group keeps the first error.
\<close>

definition group_results :: "'k host \<Rightarrow> go_error option \<Rightarrow> app \<Rightarrow> go_error option list" where
  "group_results h metricsErr a =
     (if mc_Enabled (Metrics (ap_config a)) then [map_option (\<lambda>err. Wrapped ''metrics server failed: '' err []) metricsErr] else []) @
     [map_option (\<lambda>err. Wrapped ''main SMTP server failed: '' err []) (fst (server_Start (ho_createTLS h) (ho_listen h) (ap_main a))),
      map_option (\<lambda>err. Wrapped ''submission server failed: '' err []) (fst (server_Start (ho_createTLS h) (ho_listen h) (ap_submission a)))]"

definition group_Wait :: "go_error option list \<Rightarrow> go_error option" where
  "group_Wait rs = (case filter (\<lambda>r. r \<noteq> None) rs of [] \<Rightarrow> None | r # _ \<Rightarrow> r)"

text \<open>The end of \<open>run\<close>: \<open>stopErr\<close> is the error of the context, \<open>timeoutText\<close> the text of the timeout.\<close>

definition run_result :: "string \<Rightarrow> go_error option \<Rightarrow> go_error option \<Rightarrow> go_error option" where
  "run_result timeoutText stopErr runErr =
     (let is = (\<lambda>target. case stopErr of None \<Rightarrow> False | Some e \<Rightarrow> errors_Is e target) in
      if runErr \<noteq> None \<and> is Canceled then runErr
      else if is DeadlineExceeded then Some (TextError (''graceful shutdown timed out after '' @ timeoutText))
      else if is Canceled then None
      else stopErr)"

definition run ::
  "flag_lib \<Rightarrow> 'k host \<Rightarrow> go_error option \<Rightarrow> (go_error option list \<Rightarrow> go_error option list) \<Rightarrow> string \<Rightarrow> go_error option \<Rightarrow> string list \<Rightarrow>
     run_error option option" where
  "run lib h metricsErr ord timeoutText stopErr args =
     (case main_init lib h args of
        MainExit err \<Rightarrow> Some err
      | MainPanic \<Rightarrow> None
      | MainStarted a \<Rightarrow> Some (map_option RunError (run_result timeoutText stopErr (group_Wait (ord (group_results h metricsErr a))))))"

section \<open>Properties\<close>

subsection \<open>The flags\<close>

text \<open>The names and kinds of flags.\<close>

definition flag_shape :: "flags \<Rightarrow> (string \<times> flag_kind) list" where
  "flag_shape fl = map (\<lambda>(n, k, x). (n, k)) fl"

lemma flag_shape_set [simp]: "flag_shape (set_flag n v fl) = flag_shape fl"
  by (simp add: flag_shape_def set_flag_def case_prod_beta comp_def)

lemma flag_kind_shape: "flag_kind_of fl n = map_of (flag_shape fl) n"
  by (induction fl) (auto simp: flag_shape_def flag_kind_of_def)

lemma set_flag_append: "set_flag n v (a @ b) = set_flag n v a @ set_flag n v b"
  by (simp add: set_flag_def)

lemma set_flag_other: "n \<notin> fst ` set fl \<Longrightarrow> set_flag n v fl = fl"
  by (induction fl) (auto simp: set_flag_def)

text \<open>
  Arguments that parse with a set of flags parse in the same way when more flags are defined,
  and do not touch the others.
\<close>

lemma parseOne_more:
  assumes "parseOne lib formal s args = r" "\<And>err. r \<noteq> FlagErr err" "\<And>n k. formal n = Some k \<Longrightarrow> formal' n = Some k"
  shows "parseOne lib formal' s args = r"
  using assms(1,2) assms(3)
  by (auto simp: parseOne_def Let_def split: option.splits sum.splits prod.splits if_splits list.splits)

lemma parse_more:
  "parse_flags lib fl args = Inr r \<Longrightarrow> flag_shape fl' = flag_shape fl \<Longrightarrow> fst ` set fl \<inter> fst ` set ov = {} \<Longrightarrow>
     \<exists>r'. parse_flags lib (fl' @ ov) args = Inr (r' @ ov) \<and> flag_shape r' = flag_shape fl"
proof (induction lib fl args arbitrary: fl' rule: parse_flags.induct)
  case (2 lib fl s args)
  have kinds: "flag_kind_of (fl' @ ov) n = Some k" if "flag_kind_of fl n = Some k" for n k
    using that "2.prems"(2) by (auto simp: flag_kind_shape flag_shape_def map_add_def)
  let ?p = "parseOne lib (flag_kind_of fl) s args"
  have p: "parseOne lib (flag_kind_of (fl' @ ov)) s args = ?p"
    by (rule parseOne_more [OF refl]) (use "2.prems"(1) kinds in auto)
  show ?case
  proof (cases ?p)
    case (SetTo name x rest)
    then have "name \<in> fst ` set fl"
      using parseOne_SetTo [OF SetTo] by (auto simp: flag_kind_of_def dest: map_of_SomeD intro: rev_image_eqI)
    then have "set_flag name x (fl' @ ov) = set_flag name x fl' @ ov"
      using "2.prems"(3) by (auto simp: set_flag_append intro!: set_flag_other)
    moreover have "fst ` set (set_flag name x fl) = fst ` set fl" by (auto simp: set_flag_def image_image case_prod_beta)
    ultimately show ?thesis
      using "2.IH" [OF SetTo, of "set_flag name x fl'"] "2.prems" SetTo p by simp
  qed (use "2.prems" p in auto)
qed auto

lemma initial_shape:
  assumes "flag_shape fl = flag_shape initial_flags"
  obtains a b where "fl = [(''config'', FString, a), (''debug'', FBool, b)]"
  using assms by (auto simp: flag_shape_def initial_flags_def)

lemma apply_own:
  "apply_overrides ([(''config'', FString, a), (''debug'', FBool, b)] @ override_flags cfg) cfg =
     (if bool_val b then cfg\<lparr>Logging := (Logging cfg)\<lparr>lc_Level := ''debug''\<rparr>\<rparr> else cfg)"
  by (simp add: apply_overrides_def flag_value_def override_flags_def)

lemma parse_initial:
  assumes "parse_flags lib initial_flags args = Inr fl"
  obtains a b where "parse_flags lib (fl @ override_flags cfg) args = Inr ([(''config'', FString, a), (''debug'', FBool, b)] @ override_flags cfg)"
proof -
  have shape: "flag_shape fl = flag_shape initial_flags"
    using parse_more [OF assms refl, of "[]"] assms by auto
  have "fst ` set initial_flags \<inter> fst ` set (override_flags cfg) = {}"
    by (simp add: initial_flags_def override_flags_def)
  then obtain r where "parse_flags lib (fl @ override_flags cfg) args = Inr (r @ override_flags cfg)"
    "flag_shape r = flag_shape initial_flags" using parse_more [OF assms shape] by blast
  then show thesis using that by (auto elim: initial_shape)
qed

text \<open>
  C39: The override flags cannot be used. Whatever the command line, the configuration the
  program runs with is the one loaded from the file (or the default one), with at most the log
  level set to debug; and a command line that begins with one of the eighteen override flags is
  refused, because the first pass over the arguments knows \<open>config\<close> and \<open>debug\<close> only.
\<close>

theorem override_flags_unusable:
  "(main_config lib readFile unmarshal args = Inr cfg \<longrightarrow>
      (\<exists>path c. LoadConfig readFile unmarshal path = Inr c \<and>
         (cfg = c \<or> cfg = c\<lparr>Logging := (Logging c)\<lparr>lc_Level := ''debug''\<rparr>\<rparr>))) \<and>
   list_all (\<lambda>(name, _). main_config lib readFile unmarshal ((CHR ''-'' # name) # rest) =
      Inl (Some (FlagError ''failed to parse initial flags: '' (NotDefined name)))) (override_flags DefaultConfig)"
proof
  show "main_config lib readFile unmarshal args = Inr cfg \<longrightarrow>
      (\<exists>path c. LoadConfig readFile unmarshal path = Inr c \<and>
         (cfg = c \<or> cfg = c\<lparr>Logging := (Logging c)\<lparr>lc_Level := ''debug''\<rparr>\<rparr>))"
  proof
    assume run: "main_config lib readFile unmarshal args = Inr cfg"
    then obtain fl c where fl: "parse_flags lib initial_flags args = Inr fl"
      and c: "LoadConfig readFile unmarshal (str_val (flag_value fl ''config'')) = Inr c"
      by (auto simp: main_config_def Let_def split: sum.splits flag_err.splits)
    obtain a b where "parse_flags lib (fl @ override_flags c) args =
        Inr ([(''config'', FString, a), (''debug'', FBool, b)] @ override_flags c)" by (rule parse_initial [OF fl])
    then have "cfg = apply_overrides ([(''config'', FString, a), (''debug'', FBool, b)] @ override_flags c) c"
      using run fl c by (simp add: main_config_def)
    then have "cfg = (if bool_val b then c\<lparr>Logging := (Logging c)\<lparr>lc_Level := ''debug''\<rparr>\<rparr> else c)"
      by (simp only: apply_own)
    then show "\<exists>path c. LoadConfig readFile unmarshal path = Inr c \<and>
         (cfg = c \<or> cfg = c\<lparr>Logging := (Logging c)\<lparr>lc_Level := ''debug''\<rparr>\<rparr>)"
      using c by auto
  qed
  show "list_all (\<lambda>(name, _). main_config lib readFile unmarshal ((CHR ''-'' # name) # rest) =
      Inl (Some (FlagError ''failed to parse initial flags: '' (NotDefined name)))) (override_flags DefaultConfig)"
    by (simp add: override_flags_def main_config_def parseOne_def flag_arg_def flag_kind_of_def initial_flags_def)
qed

definition no_numbers :: flag_lib where
  "no_numbers = \<lparr>fl_ParseInt = (\<lambda>_. None), fl_ParseDuration = (\<lambda>_. None)\<rparr>"

theorem override_flags_unusable_witness:
  "main_config no_numbers (\<lambda>_. Inr []) (\<lambda>_ c. Inr c) [''-debug'', ''--config=a.yaml''] =
     Inr (DefaultConfig\<lparr>Logging := (Logging DefaultConfig)\<lparr>lc_Level := ''debug''\<rparr>\<rparr>) \<and>
   (\<exists>path c. LoadConfig (\<lambda>_. Inr []) (\<lambda>_ c. Inr c) path = Inr c \<and> lc_Level (Logging c) = ''info'')"
proof -
  let ?cfg = "DefaultConfig\<lparr>Logging := (Logging DefaultConfig)\<lparr>lc_Level := ''debug''\<rparr>\<rparr>"
  let ?args = "[''-debug'', ''--config=a.yaml'']"
  have "main_config no_numbers (\<lambda>_. Inr []) (\<lambda>_ c. Inr c) ?args = Inr ?cfg" by code_simp
  moreover from this obtain path c where "LoadConfig (\<lambda>_. Inr []) (\<lambda>_ c. Inr c) path = Inr c"
    using override_flags_unusable [of no_numbers "\<lambda>_. Inr []" "\<lambda>_ c. Inr c" ?args ?cfg "[]"] by blast
  then have "c = DefaultConfig" by (auto simp: LoadConfig_def split: if_splits)
  ultimately show ?thesis by (auto simp: LoadConfig_def DefaultConfig_def intro!: exI [of _ "[]"])
qed

subsection \<open>Starting\<close>

lemma last_Split: "c \<notin> set b \<Longrightarrow> \<exists>w ws. Split (a @ c # b) c = w # ws @ [b]"
proof (induction a)
  case (Cons x a)
  then show ?case by (cases "x = c") (auto intro: exI [of _ "_ # _"])
qed simp

lemma Itoa_no_colon: "CHR '':'' \<notin> set (Itoa i)"
  using show_nat_ascii [of "CHR '':''"] by (auto simp: Itoa_def is_digit_def)

lemma port_of_address:
  assumes "ListenAddr c = a @ '':'' @ Itoa (Port c)"
  shows "port_to_check c = Port c"
proof -
  have "Contains (ListenAddr c) '':''" unfolding assms Contains_iff by blast
  moreover have "last (Split (ListenAddr c) (CHR '':'')) = Itoa (Port c)"
    using last_Split [OF Itoa_no_colon [of "Port c"], of a] by (auto simp: assms)
  moreover have "Atoi (Itoa 25) = Some 25" "Itoa 0 = ''0''" by code_simp+
  ultimately show ?thesis by (auto simp: port_to_check_def Let_def split: option.split)
qed

lemma NewServer_TLS:
  assumes "NewServerWithOptions (Some c) True True d au = NewOk s"
  shows "sv_forceTLS s = forces_tls c" "sv_tlsConfig s \<noteq> None \<longleftrightarrow> TLSEnabled (Security c)"
  using assms by (auto simp: NewServerWithOptions_def new_server_def split: option.splits if_splits sum.splits)

text \<open>
  C20: What a started program guarantees. When the program gets as far as starting its servers,
  both ports are valid, TLS is enabled with files that exist, both servers have a TLS
  configuration, the submission server accepts TLS connections only, the main server does so
  exactly when the two ports are equal, and no plugin is registered. Without arguments, so with
  the default configuration, the program does not start.
\<close>

theorem started_with_tls:
  "(main_init lib h args = MainStarted a \<longrightarrow>
      (let c = ap_config a in
       Port (Server c) \<in> {1..65535} \<and> SubmissionPort (Server c) \<in> {1..65535} \<and>
       ho_stat h (TLSCertFile (Security c)) = None \<and> ho_stat h (TLSKeyFile (Security c)) = None \<and>
       sv_tlsConfig (ap_main a) \<noteq> None \<and> sv_tlsConfig (ap_submission a) \<noteq> None \<and> sv_forceTLS (ap_submission a) \<and>
       (sv_forceTLS (ap_main a) \<longleftrightarrow> Port (Server c) = SubmissionPort (Server c)) \<and> Plugins (ap_plugins a) = [])) \<and>
   main_init lib h [] = MainExit (Some (RunError (TextError
     ''TLS configuration (enabled, cert, key) is required for submission port 587'')))"
proof
  show "main_init lib h [] = MainExit (Some (RunError (TextError
     ''TLS configuration (enabled, cert, key) is required for submission port 587'')))"
  proof -
    have "parse_flags lib initial_flags [] = Inr initial_flags" by simp
    moreover have "Itoa 587 = ''587''" by code_simp
    ultimately show ?thesis
      by (simp add: main_init_def main_config_def LoadConfig_def apply_overrides_def flag_value_def initial_flags_def
          override_flags_def DefaultConfig_def Validate_def lacks_tls_def)
  qed
  show "main_init lib h args = MainStarted a \<longrightarrow>
      (let c = ap_config a in
       Port (Server c) \<in> {1..65535} \<and> SubmissionPort (Server c) \<in> {1..65535} \<and>
       ho_stat h (TLSCertFile (Security c)) = None \<and> ho_stat h (TLSKeyFile (Security c)) = None \<and>
       sv_tlsConfig (ap_main a) \<noteq> None \<and> sv_tlsConfig (ap_submission a) \<noteq> None \<and> sv_forceTLS (ap_submission a) \<and>
       (sv_forceTLS (ap_main a) \<longleftrightarrow> Port (Server c) = SubmissionPort (Server c)) \<and> Plugins (ap_plugins a) = [])"
  proof
    assume init: "main_init lib h args = MainStarted a"
    then obtain c m b where c: "Validate (ho_stat h) c = None" "\<not> (0 < SubmissionPort (Server c) \<and> lacks_tls c)"
      and m: "build_server h (main_server_config c) = NewOk m" and b: "build_server h (submission_server_config c) = NewOk b"
      and a: "a = \<lparr>ap_config = c, ap_queue = NewQueue (ConnectionBacklog (Server c)), ap_plugins = NewManager,
                ap_main = m, ap_submission = b\<rparr>"
      by (auto simp: main_init_def create_servers_def split: sum.splits option.splits if_splits new_result.splits)
    note ports = Validate_ports [OF c(1)]
    have tls: "\<not> lacks_tls c" using c(2) ports by simp
    then have "ho_stat h (TLSCertFile (Security c)) = None \<and> ho_stat h (TLSKeyFile (Security c)) = None"
      using c(1) by (auto simp: Validate_def lacks_tls_def split: if_splits option.splits)
    moreover have "port_to_check (Server (main_server_config c)) = Port (Server c)"
      using port_of_address [of "Server (main_server_config c)"] by (simp add: main_server_config_def)
    moreover have "port_to_check (Server (submission_server_config c)) = SubmissionPort (Server c)"
      using port_of_address [of "Server (submission_server_config c)"] by (simp add: submission_server_config_def)
    ultimately show "let c = ap_config a in
       Port (Server c) \<in> {1..65535} \<and> SubmissionPort (Server c) \<in> {1..65535} \<and>
       ho_stat h (TLSCertFile (Security c)) = None \<and> ho_stat h (TLSKeyFile (Security c)) = None \<and>
       sv_tlsConfig (ap_main a) \<noteq> None \<and> sv_tlsConfig (ap_submission a) \<noteq> None \<and> sv_forceTLS (ap_submission a) \<and>
       (sv_forceTLS (ap_main a) \<longleftrightarrow> Port (Server c) = SubmissionPort (Server c)) \<and> Plugins (ap_plugins a) = []"
      using NewServer_TLS [OF m [unfolded build_server_def]] NewServer_TLS [OF b [unfolded build_server_def]] ports tls
      by (auto simp: a forces_tls_def lacks_tls_def main_server_config_def submission_server_config_def Plugins_def NewManager_def)
  qed
qed

definition tls_host :: "unit host" where
  "tls_host =
     \<lparr>ho_readFile = (\<lambda>_. Inr []),
      ho_config = (\<lambda>_ c. Inr (c\<lparr>Security := (Security c)\<lparr>TLSEnabled := True, TLSCertFile := ''c.pem'', TLSKeyFile := ''k.pem''\<rparr>\<rparr>)),
      ho_users = (\<lambda>_. Inr []), ho_bcrypt = Inr, ho_stat = (\<lambda>_. None), ho_Hostname = Inr ''mx'',
      ho_LoadPrivateKey = (\<lambda>_. Inr ()), ho_sign = (\<lambda>_ _ _ m. Inr m), ho_createTLS = (\<lambda>_. None), ho_listen = (\<lambda>_ a. Inr a)\<rparr>"

theorem started_with_tls_witness:
  "\<exists>a. main_init no_numbers tls_host [''-config'', ''x.yaml''] = MainStarted a \<and> sv_addr (ap_submission a) = ''0.0.0.0:587'' \<and>
     sv_forceTLS (ap_submission a) \<and> \<not> sv_forceTLS (ap_main a)"
proof -
  let ?cfg = "DefaultConfig\<lparr>Security := (Security DefaultConfig)\<lparr>TLSEnabled := True, TLSCertFile := ''c.pem'', TLSKeyFile := ''k.pem''\<rparr>\<rparr>"
  have c: "main_config no_numbers (ho_readFile tls_host) (ho_config tls_host) [''-config'', ''x.yaml''] = Inr ?cfg" by code_simp
  have v: "Validate (ho_stat tls_host) ?cfg = None" "\<not> lacks_tls ?cfg" by code_simp+
  have s: "case build_server tls_host (submission_server_config ?cfg) of NewOk b \<Rightarrow> sv_addr b = ''0.0.0.0:587'' | _ \<Rightarrow> False" by code_simp
  have m: "case build_server tls_host (main_server_config ?cfg) of NewOk b \<Rightarrow> True | _ \<Rightarrow> False" by code_simp
  obtain a where a: "main_init no_numbers tls_host [''-config'', ''x.yaml''] = MainStarted a"
      "sv_addr (ap_submission a) = ''0.0.0.0:587''" "ap_config a = ?cfg"
    using c v s m by (auto simp: main_init_def create_servers_def split: new_result.splits)
  have "Port (Server ?cfg) \<noteq> SubmissionPort (Server ?cfg)" by code_simp
  then show ?thesis
    using started_with_tls [of no_numbers tls_host "[''-config'', ''x.yaml'']" a] a by (auto simp: Let_def)
qed

end
