(* ===== verification/Logging.thy ===== *)
theory Logging
  imports Metrics
begin

text \<open>
  The logger of \<open>internal/logging/logger.go\<close>, a wrapper of the logger of package log/slog that
  also counts messages, and the adapter of \<open>pkg/outbound/interfaces.go\<close>. Values of attributes that
  are not strings are of a type \<open>'v\<close>; arguments of a message are pairs of key and value. The order in
  which a map of fields is ranged over is the order of the list that stands for it.
\<close>

section \<open>Configuration and levels\<close>

definition DebugLevel :: string where "DebugLevel = ''debug''"
definition InfoLevel :: string where "InfoLevel = ''info''"
definition WarnLevel :: string where "WarnLevel = ''warn''"
definition ErrorLevel :: string where "ErrorLevel = ''error''"

definition JSONFormat :: string where "JSONFormat = ''json''"
definition TextFormat :: string where "TextFormat = ''text''"

record log_Config =
  lc_Level :: string
  lc_Format :: string
  lc_Output :: string
  lc_ServiceName :: string
  lc_Environment :: string
  lc_AddSource :: bool
  lc_TimeFormat :: string

definition log_DefaultConfig :: log_Config where
  "log_DefaultConfig =
     \<lparr>lc_Level = InfoLevel, lc_Format = TextFormat, lc_Output = ''stderr'', lc_ServiceName = ''smtpd'',
      lc_Environment = ''dev'', lc_AddSource = True, lc_TimeFormat = ''2006-01-02T15:04:05.999999999Z07:00''\<rparr>"

text \<open>The levels of slog are integers.\<close>

definition LevelDebug :: int where "LevelDebug = -4"
definition LevelInfo :: int where "LevelInfo = 0"
definition LevelWarn :: int where "LevelWarn = 4"
definition LevelError :: int where "LevelError = 8"

definition parseLevel :: "string \<Rightarrow> int" where
  "parseLevel level =
     (if level = DebugLevel then LevelDebug
      else if level = InfoLevel then LevelInfo
      else if level = WarnLevel then LevelWarn
      else if level = ErrorLevel then LevelError
      else LevelInfo)"

section \<open>Loggers\<close>

datatype log_output = Stdout | Stderr | LogFile string

datatype 'v log_value = LString string | LAny 'v

type_synonym 'v attrs = "(string \<times> 'v log_value) list"

text \<open>A logger of slog: its handler with the attributes added so far.\<close>

record 'v slogger =
  sl_output :: log_output
  sl_json :: bool
  sl_level :: int
  sl_addSource :: bool
  sl_timeFormat :: string
  sl_attrs :: "'v attrs"

record 'v Logger =
  lg_slog :: "'v slogger"
  lg_config :: log_Config

record 'v log_entry =
  en_output :: log_output
  en_json :: bool
  en_level :: int
  en_msg :: string
  en_source :: "(string \<times> nat) option"
  en_attrs :: "'v attrs"

text \<open>
  The state of the process that logging changes: the default loggers, the entries written, the notes on
  standard error, the calls of the metrics, and whether the program has exited.
\<close>

record 'v log_state =
  lo_default :: "'v Logger option"
  lo_slogDefault :: "'v slogger option"
  lo_written :: "'v log_entry list"
  lo_notes :: "string list"
  lo_calls :: "call list"
  lo_exit :: "nat option"

definition SetDefault :: "'v Logger option \<Rightarrow> 'v log_state \<Rightarrow> 'v log_state" where
  "SetDefault l st = st\<lparr>lo_default := l\<rparr>"

definition log_Default :: "'v log_state \<Rightarrow> 'v Logger option" where
  "log_Default st = lo_default st"

text \<open>Files are outside: making the directory of a path and opening a file give an error or succeed.\<close>

definition open_output ::
  "(string \<Rightarrow> go_error option) \<Rightarrow> (string \<Rightarrow> go_error option) \<Rightarrow> log_Config \<Rightarrow> log_output \<times> string list" where
  "open_output mkdirFor openFile config =
     (if lc_Output config = ''stdout'' then (Stdout, [])
      else if lc_Output config = ''stderr'' then (Stderr, [])
      else (case mkdirFor (lc_Output config) of
              Some err \<Rightarrow> (Stderr, [''Failed to create log directory: '' @ err_Error err @ '', falling back to stderr''])
            | None \<Rightarrow>
                (case openFile (lc_Output config) of
                   Some err \<Rightarrow> (Stderr, [''Failed to open log file: '' @ err_Error err @ '', falling back to stderr''])
                 | None \<Rightarrow> (LogFile (lc_Output config), []))))"

definition New_Logger ::
  "(string \<Rightarrow> go_error option) \<Rightarrow> (string \<Rightarrow> go_error option) \<Rightarrow> log_Config option \<Rightarrow> 'v log_state \<Rightarrow> 'v Logger \<times> 'v log_state" where
  "New_Logger mkdirFor openFile cfg st =
     (let config = (case cfg of None \<Rightarrow> log_DefaultConfig | Some c \<Rightarrow> c);
          (output, notes) = open_output mkdirFor openFile config;
          logger = \<lparr>sl_output = output, sl_json = (lc_Format config = JSONFormat), sl_level = parseLevel (lc_Level config),
             sl_addSource = lc_AddSource config, sl_timeFormat = lc_TimeFormat config,
             sl_attrs = [(''service'', LString (lc_ServiceName config)), (''environment'', LString (lc_Environment config))]\<rparr>;
          customLogger = \<lparr>lg_slog = logger, lg_config = config\<rparr>
      in (customLogger, SetDefault (Some customLogger)
            (st\<lparr>lo_slogDefault := Some logger, lo_notes := lo_notes st @ notes\<rparr>)))"

section \<open>Derived loggers\<close>

definition slog_With :: "'v attrs \<Rightarrow> 'v slogger \<Rightarrow> 'v slogger" where
  "slog_With as l = l\<lparr>sl_attrs := sl_attrs l @ as\<rparr>"

definition logger_With :: "'v attrs \<Rightarrow> 'v Logger \<Rightarrow> 'v Logger" where
  "logger_With as l = \<lparr>lg_slog = slog_With as (lg_slog l), lg_config = lg_config l\<rparr>"

definition WithContext :: "ctx \<Rightarrow> 'v Logger \<Rightarrow> 'v Logger" where
  "WithContext c l =
     (case ctx_Value c (StringKey ''request_id'') of
        Some (StringVal reqID) \<Rightarrow> logger_With [(''request_id'', LString reqID)] l
      | _ \<Rightarrow> l)"

definition WithComponent :: "string \<Rightarrow> 'v Logger \<Rightarrow> 'v Logger" where
  "WithComponent component l = logger_With [(''component'', LString component)] l"

text \<open>The name of an error's type and the stack trace it may carry are arguments.\<close>

definition WithError :: "(go_error \<Rightarrow> string) \<Rightarrow> (go_error \<Rightarrow> string option) \<Rightarrow> go_error option \<Rightarrow> 'v Logger \<Rightarrow> 'v Logger" where
  "WithError typeName stackTrace err l =
     (case err of
        None \<Rightarrow> l
      | Some e \<Rightarrow>
          logger_With ([(''error'', LString (err_Error e)), (''error_type'', LString (typeName e))] @
            (case stackTrace e of None \<Rightarrow> [] | Some stack \<Rightarrow> [(''stack'', LString stack)])) l)"

definition WithFields :: "'v attrs \<Rightarrow> 'v Logger \<Rightarrow> 'v Logger" where
  "WithFields flds l = (if flds = [] then l else logger_With flds l)"

definition ToSlog :: "'v Logger \<Rightarrow> 'v slogger" where
  "ToSlog l = lg_slog l"

section \<open>Writing\<close>

text \<open>
  A method of the slog logger: it writes when the handler is enabled for the level. The source is
  the position of its caller.
\<close>

definition slog_Log :: "string \<times> nat \<Rightarrow> int \<Rightarrow> string \<Rightarrow> 'v attrs \<Rightarrow> 'v slogger \<Rightarrow> 'v log_state \<Rightarrow> 'v log_state" where
  "slog_Log src level msg args l st =
     (if level < sl_level l then st
      else st\<lparr>lo_written := lo_written st @
        [\<lparr>en_output = sl_output l, en_json = sl_json l, en_level = level, en_msg = msg,
          en_source = (if sl_addSource l then Some src else None), en_attrs = sl_attrs l @ args\<rparr>]\<rparr>)"

definition count_log :: "string \<Rightarrow> 'v log_state \<Rightarrow> 'v log_state" where
  "count_log level st = st\<lparr>lo_calls := lo_calls st @ RecordLogMessage level\<rparr>"

definition Debug :: "string \<Rightarrow> 'v attrs \<Rightarrow> 'v Logger \<Rightarrow> 'v log_state \<Rightarrow> 'v log_state" where
  "Debug msg args l st = count_log ''debug'' (slog_Log (''logger.go'', 237) LevelDebug msg args (lg_slog l) st)"

definition Info :: "string \<Rightarrow> 'v attrs \<Rightarrow> 'v Logger \<Rightarrow> 'v log_state \<Rightarrow> 'v log_state" where
  "Info msg args l st = count_log ''info'' (slog_Log (''logger.go'', 243) LevelInfo msg args (lg_slog l) st)"

definition Warn :: "string \<Rightarrow> 'v attrs \<Rightarrow> 'v Logger \<Rightarrow> 'v log_state \<Rightarrow> 'v log_state" where
  "Warn msg args l st = count_log ''warn'' (slog_Log (''logger.go'', 249) LevelWarn msg args (lg_slog l) st)"

definition log_Error :: "string \<Rightarrow> 'v attrs \<Rightarrow> 'v Logger \<Rightarrow> 'v log_state \<Rightarrow> 'v log_state" where
  "log_Error msg args l st = count_log ''error'' (slog_Log (''logger.go'', 255) LevelError msg args (lg_slog l) st)"

definition Fatal :: "string \<Rightarrow> 'v attrs \<Rightarrow> 'v Logger \<Rightarrow> 'v log_state \<Rightarrow> 'v log_state" where
  "Fatal msg args l st =
     (let st1 = count_log ''fatal'' (slog_Log (''logger.go'', 261) LevelError msg args (lg_slog l) st)
      in st1\<lparr>lo_exit := Some 1\<rparr>)"

definition logWithContext :: "int \<Rightarrow> string \<Rightarrow> 'v attrs \<Rightarrow> 'v Logger \<Rightarrow> 'v log_state \<Rightarrow> 'v log_state" where
  "logWithContext level msg flds l st = slog_Log (''logger.go'', 300) level msg [] (slog_With flds (lg_slog l)) st"

section \<open>The adapter of the deliverer\<close>

type_synonym 'v LoggerAdapter = "'v Logger option"

definition NewLoggerAdapter :: "'v Logger option \<Rightarrow> 'v LoggerAdapter" where
  "NewLoggerAdapter l = (case l of None \<Rightarrow> None | Some x \<Rightarrow> Some x)"

definition adapter_Debug :: "string \<Rightarrow> 'v attrs \<Rightarrow> 'v LoggerAdapter \<Rightarrow> 'v log_state \<Rightarrow> 'v log_state" where
  "adapter_Debug msg args a st = (case a of None \<Rightarrow> st | Some l \<Rightarrow> Debug msg args l st)"

definition adapter_Info :: "string \<Rightarrow> 'v attrs \<Rightarrow> 'v LoggerAdapter \<Rightarrow> 'v log_state \<Rightarrow> 'v log_state" where
  "adapter_Info msg args a st = (case a of None \<Rightarrow> st | Some l \<Rightarrow> Info msg args l st)"

definition adapter_Warn :: "string \<Rightarrow> 'v attrs \<Rightarrow> 'v LoggerAdapter \<Rightarrow> 'v log_state \<Rightarrow> 'v log_state" where
  "adapter_Warn msg args a st = (case a of None \<Rightarrow> st | Some l \<Rightarrow> Warn msg args l st)"

definition adapter_Error :: "string \<Rightarrow> 'v attrs \<Rightarrow> 'v LoggerAdapter \<Rightarrow> 'v log_state \<Rightarrow> 'v log_state" where
  "adapter_Error msg args a st = (case a of None \<Rightarrow> st | Some l \<Rightarrow> log_Error msg args l st)"

definition adapter_WithComponent :: "string \<Rightarrow> 'v LoggerAdapter \<Rightarrow> 'v LoggerAdapter" where
  "adapter_WithComponent name a = (case a of None \<Rightarrow> a | Some l \<Rightarrow> NewLoggerAdapter (Some (WithComponent name l)))"

section \<open>What is written and what is counted\<close>

datatype severity = AtDebug | AtInfo | AtWarn | AtError | AtFatal

definition log_call :: "severity \<Rightarrow> string \<Rightarrow> 'v attrs \<Rightarrow> 'v Logger \<Rightarrow> 'v log_state \<Rightarrow> 'v log_state" where
  "log_call sev = (case sev of AtDebug \<Rightarrow> Debug | AtInfo \<Rightarrow> Info | AtWarn \<Rightarrow> Warn | AtError \<Rightarrow> log_Error | AtFatal \<Rightarrow> Fatal)"

definition sev_level :: "severity \<Rightarrow> int" where
  "sev_level sev =
     (case sev of AtDebug \<Rightarrow> LevelDebug | AtInfo \<Rightarrow> LevelInfo | AtWarn \<Rightarrow> LevelWarn | AtError \<Rightarrow> LevelError | AtFatal \<Rightarrow> LevelError)"

definition sev_label :: "severity \<Rightarrow> string" where
  "sev_label sev =
     (case sev of AtDebug \<Rightarrow> ''debug'' | AtInfo \<Rightarrow> ''info'' | AtWarn \<Rightarrow> ''warn'' | AtError \<Rightarrow> ''error'' | AtFatal \<Rightarrow> ''fatal'')"

inductive derived :: "'v Logger \<Rightarrow> 'v Logger \<Rightarrow> bool" for l0 where
  base: "derived l0 l0"
| with_context: "derived l0 l \<Longrightarrow> derived l0 (WithContext c l)"
| component: "derived l0 l \<Longrightarrow> derived l0 (WithComponent n l)"
| with_error: "derived l0 l \<Longrightarrow> derived l0 (WithError tn stk err l)"
| flds: "derived l0 l \<Longrightarrow> derived l0 (WithFields as l)"

lemma slog_With_With [simp]: "slog_With as (slog_With bs l) = slog_With (bs @ as) l"
  by (simp add: slog_With_def)

lemma slog_With_Nil [simp]: "slog_With [] l = l"
  by (simp add: slog_With_def)

lemma With_forms:
  "\<exists>as. WithContext c l = logger_With as l" "\<exists>as. WithComponent n l = logger_With as l"
  "\<exists>as. WithError tn stk err l = logger_With as l" "\<exists>as. WithFields fs l = logger_With as l"
proof -
  have nil: "l = logger_With [] l" by (cases l) (simp add: logger_With_def)
  show "\<exists>as. WithContext c l = logger_With as l"
    using nil by (auto simp: WithContext_def split: option.splits ctx_val.splits)
  show "\<exists>as. WithComponent n l = logger_With as l" by (auto simp: WithComponent_def)
  show "\<exists>as. WithError tn stk err l = logger_With as l" using nil by (auto simp: WithError_def split: option.splits)
  show "\<exists>as. WithFields fs l = logger_With as l" using nil by (auto simp: WithFields_def)
qed

lemma derived_form: "derived l0 l \<Longrightarrow> \<exists>as. lg_slog l = slog_With as (lg_slog l0) \<and> lg_config l = lg_config l0"
proof (induction rule: derived.induct)
  case base
  then show ?case using slog_With_Nil by metis
next
  case (with_context l c)
  then show ?case using With_forms(1) [of c l] by (auto simp: logger_With_def)
next
  case (component l n)
  then show ?case using With_forms(2) [of n l] by (auto simp: logger_With_def)
next
  case (with_error l tn stk err)
  then show ?case using With_forms(3) [of tn stk err l] by (auto simp: logger_With_def)
next
  case (flds l as)
  then show ?case using With_forms(4) [of as l] by (auto simp: logger_With_def)
qed

lemma log_call_form:
  "\<exists>ln. lo_written (log_call sev msg args l st) = lo_written (slog_Log (''logger.go'', ln) (sev_level sev) msg args (lg_slog l) st)"
  by (cases sev) (auto simp: log_call_def sev_level_def Debug_def Info_def Warn_def log_Error_def Fatal_def count_log_def Let_def)

lemma log_call_counts: "lo_calls (log_call sev msg args l st) = lo_calls st @ [CInc logMessages [sev_label sev]]"
  by (cases sev) (simp_all add: log_call_def sev_label_def Debug_def Info_def Warn_def log_Error_def Fatal_def count_log_def
      slog_Log_def RecordLogMessage_def Let_def)

text \<open>
  What a logger writes. A logger made by \<open>New\<close> or derived from it in any way writes a message
  exactly when its severity reaches the configured level, to the output that \<open>New\<close> opened, with service
  and environment as the first attributes. Every call is counted, whether it is written or not, and the
  source position of every message is in \<open>logger.go\<close>, not at the place of the call.
\<close>

theorem logger_writes:
  assumes "New_Logger mk opn (Some c) st0 = (l0, st1)" "derived l0 l"
  shows "lo_calls (log_call sev msg args l st) = lo_calls st @ [CInc logMessages [sev_label sev]] \<and>
    (if sev_level sev < parseLevel (lc_Level c) then lo_written (log_call sev msg args l st) = lo_written st
     else \<exists>e ln. lo_written (log_call sev msg args l st) = lo_written st @ [e] \<and>
       en_output e = fst (open_output mk opn c) \<and> en_msg e = msg \<and> en_level e = sev_level sev \<and>
       take 2 (en_attrs e) = [(''service'', LString (lc_ServiceName c)), (''environment'', LString (lc_Environment c))] \<and>
       en_source e = (if lc_AddSource c then Some (''logger.go'', ln) else None))"
proof -
  obtain as where as: "lg_slog l = slog_With as (lg_slog l0)" using derived_form [OF assms(2)] by blast
  have l0: "sl_output (lg_slog l0) = fst (open_output mk opn c)" "sl_level (lg_slog l0) = parseLevel (lc_Level c)"
    "sl_addSource (lg_slog l0) = lc_AddSource c"
    "sl_attrs (lg_slog l0) = [(''service'', LString (lc_ServiceName c)), (''environment'', LString (lc_Environment c))]"
    using assms(1) by (auto simp: New_Logger_def Let_def split: prod.splits)
  obtain ln where ln: "lo_written (log_call sev msg args l st) =
      lo_written (slog_Log (''logger.go'', ln) (sev_level sev) msg args (lg_slog l) st)" using log_call_form by blast
  show ?thesis
    unfolding log_call_counts ln using l0 by (auto simp: slog_Log_def as slog_With_def)
qed

theorem logger_writes_witness:
  "(let (l, st) = New_Logger (\<lambda>_. None) (\<lambda>_. Some (TextError ''denied'')) (Some (log_DefaultConfig\<lparr>lc_Output := ''/var/log/smtpd''\<rparr>))
       \<lparr>lo_default = None, lo_slogDefault = None, lo_written = [], lo_notes = [], lo_calls = [], lo_exit = None\<rparr>
    in \<exists>e. lo_written (log_call AtWarn ''full'' [] (WithComponent ''queue'' l) (st :: nat log_state)) = lo_written st @ [e] \<and>
       en_output e = Stderr \<and> en_msg e = ''full'')"
proof -
  let ?c = "log_DefaultConfig\<lparr>lc_Output := ''/var/log/smtpd''\<rparr>"
  let ?op = "\<lambda>_ :: string. Some (TextError ''denied'')"
  let ?st = "\<lparr>lo_default = None, lo_slogDefault = None, lo_written = [], lo_notes = [], lo_calls = [], lo_exit = None\<rparr> :: nat log_state"
  obtain l st where N: "New_Logger (\<lambda>_. None) ?op (Some ?c) ?st = (l, st)"
    by (cases "New_Logger (\<lambda>_. None) ?op (Some ?c) ?st")
  have lv: "\<not> sev_level AtWarn < parseLevel (lc_Level ?c)"
    by (simp add: sev_level_def LevelWarn_def parseLevel_def log_DefaultConfig_def InfoLevel_def DebugLevel_def LevelInfo_def)
  have out: "fst (open_output (\<lambda>_. None) ?op ?c) = Stderr" by (simp add: open_output_def)
  show ?thesis
    using logger_writes [OF N derived.component [OF derived.base, where n = "''queue''"], of AtWarn "''full''" "[]" st] lv out N
    by auto
qed

end
