(* ===== verification/LoadTest.thy ===== *)
theory LoadTest
  imports SessionSafety
begin

text \<open>
  The load test tool, \<open>cmd/loadtest/main.go\<close>: how it connects, what it sends, and what it counts.
  A connection of package net/textproto is the lines still to come (a read fails when there is none),
  the outcomes of the writes (all succeed after the end of the list) and the lines written. A connection
  that is given up is closed, which the tool does not notice.
\<close>

section \<open>Configuration and statistics\<close>

record lt_Config =
  lt_ServerAddr :: string
  lt_Connections :: int
  lt_MessagePerConn :: int
  lt_MessageSize :: int
  lt_Parallel :: int
  lt_Auth :: bool
  lt_Username :: string
  lt_Password :: string
  lt_UseTLS :: bool
  lt_InsecureSkipTLS :: bool

record Stats =
  ConnectionsAttempted :: int
  ConnectionsSucceeded :: int
  ConnectionsFailed :: int
  MessagesAttempted :: int
  MessagesSucceeded :: int
  MessagesFailed :: int

definition no_stats :: Stats where
  "no_stats = \<lparr>ConnectionsAttempted = 0, ConnectionsSucceeded = 0, ConnectionsFailed = 0,
     MessagesAttempted = 0, MessagesSucceeded = 0, MessagesFailed = 0\<rparr>"

section \<open>Connections\<close>

record lt_conn =
  tc_in :: "string list"
  tc_writes :: "bool list"
  tc_out :: "string list"

definition lt_new :: "string list \<Rightarrow> bool list \<Rightarrow> lt_conn" where
  "lt_new ins ws = \<lparr>tc_in = ins, tc_writes = ws, tc_out = []\<rparr>"

definition lt_ReadLine :: "lt_conn \<Rightarrow> (go_error + string) \<times> lt_conn" where
  "lt_ReadLine c = (case tc_in c of [] \<Rightarrow> (Inl (TextError ''EOF''), c) | l # ls \<Rightarrow> (Inr l, c\<lparr>tc_in := ls\<rparr>))"

definition lt_PrintfLine :: "string \<Rightarrow> lt_conn \<Rightarrow> go_error option \<times> lt_conn" where
  "lt_PrintfLine l c =
     (case tc_writes c of
        [] \<Rightarrow> (None, c\<lparr>tc_out := tc_out c @ [l]\<rparr>)
      | ok # oks \<Rightarrow> if ok then (None, c\<lparr>tc_out := tc_out c @ [l], tc_writes := oks\<rparr>)
                    else (Some (TextError ''write failed''), c\<lparr>tc_writes := oks\<rparr>))"

text \<open>
  The functions are sequences of writes and reads, each of which returns an error with its own
  text. Replies are read and dropped.
\<close>

datatype lt_step = Say string string | Hear string

fun lt_run :: "lt_step list \<Rightarrow> lt_conn \<Rightarrow> go_error option \<times> lt_conn" where
  "lt_run [] c = (None, c)"
| "lt_run (Say l what # ss) c =
     (case lt_PrintfLine l c of
        (Some err, c1) \<Rightarrow> (Some (Wrapped (''failed to send '' @ what @ '': '') err []), c1)
      | (None, c1) \<Rightarrow> lt_run ss c1)"
| "lt_run (Hear what # ss) c =
     (case lt_ReadLine c of
        (Inl err, c1) \<Rightarrow> (Some (Wrapped (''failed to read '' @ what @ '': '') err []), c1)
      | (Inr _, c1) \<Rightarrow> lt_run ss c1)"

text \<open>The reply to EHLO: lines until one whose fourth byte is not a hyphen.\<close>

fun lt_ehlo_lines :: "string list \<Rightarrow> (go_error option) \<times> string list" where
  "lt_ehlo_lines [] = (Some (TextError ''EOF''), [])"
| "lt_ehlo_lines (l # ls) = (if length l < 4 \<or> l ! 3 \<noteq> CHR ''-'' then (None, ls) else lt_ehlo_lines ls)"

definition lt_ehlo :: "string \<Rightarrow> lt_conn \<Rightarrow> go_error option \<times> lt_conn" where
  "lt_ehlo suffix c =
     (case lt_run [Say ''EHLO loadtest'' (''EHLO'' @ suffix)] c of
        (Some err, c1) \<Rightarrow> (Some err, c1)
      | (None, c1) \<Rightarrow>
          (case lt_ehlo_lines (tc_in c1) of
             (Some err, ls) \<Rightarrow> (Some (Wrapped (''failed to read EHLO response'' @ suffix @ '': '') err []), c1\<lparr>tc_in := ls\<rparr>)
           | (None, ls) \<Rightarrow> (None, c1\<lparr>tc_in := ls\<rparr>)))"

text \<open>
  What the network does: the connection that is dialled, and the handshake after STARTTLS, which
  gives a connection of its own.
\<close>

record lt_net =
  ln_Dial :: "bool \<Rightarrow> bool \<Rightarrow> string \<Rightarrow> go_error + lt_conn"
  ln_Handshake :: "bool \<Rightarrow> lt_conn \<Rightarrow> go_error + lt_conn"

definition lt_result :: "go_error option \<times> lt_conn \<Rightarrow> go_error + lt_conn" where
  "lt_result = (\<lambda>(err, c). case err of Some e \<Rightarrow> Inl e | None \<Rightarrow> Inr c)"

definition lt_starttls :: "lt_net \<Rightarrow> lt_Config \<Rightarrow> lt_conn \<Rightarrow> go_error + lt_conn" where
  "lt_starttls n cfg c =
     (case lt_run [Say ''STARTTLS'' ''STARTTLS'', Hear ''STARTTLS response''] c of
        (Some err, _) \<Rightarrow> Inl err
      | (None, c1) \<Rightarrow>
          (case ln_Handshake n (lt_InsecureSkipTLS cfg) c1 of
             Inl err \<Rightarrow> Inl (Wrapped ''TLS handshake failed: '' err [])
           | Inr c2 \<Rightarrow> lt_result (lt_ehlo '' after STARTTLS'' c2)))"

definition lt_authenticate :: "lt_Config \<Rightarrow> lt_conn \<Rightarrow> go_error + lt_conn" where
  "lt_authenticate cfg c =
     (let auth = CHR 0x00 # lt_Username cfg @ CHR 0x00 # lt_Password cfg
      in lt_result (lt_run [Say (''AUTH PLAIN '' @ EncodeToString auth) ''AUTH'', Hear ''AUTH response''] c))"

definition connectToServer :: "lt_net \<Rightarrow> lt_Config \<Rightarrow> go_error + lt_conn" where
  "connectToServer n cfg =
     (case ln_Dial n (lt_UseTLS cfg) (lt_InsecureSkipTLS cfg) (lt_ServerAddr cfg) of
        Inl err \<Rightarrow> Inl (Wrapped ''failed to connect: '' err [])
      | Inr c \<Rightarrow>
          (case lt_run [Hear ''greeting''] c of
             (Some err, _) \<Rightarrow> Inl err
           | (None, c1) \<Rightarrow>
               (case lt_ehlo [] c1 of
                  (Some err, _) \<Rightarrow> Inl err
                | (None, c2) \<Rightarrow>
                    (case (if \<not> lt_UseTLS cfg \<and> lt_Auth cfg then lt_starttls n cfg c2 else Inr c2) of
                       Inl err \<Rightarrow> Inl err
                     | Inr c3 \<Rightarrow> if lt_Auth cfg then lt_authenticate cfg c3 else Inr c3))))"

section \<open>Messages\<close>

definition padding :: string where
  "padding = ''ABCDEFGHIJKLMNOPQRSTUVWXYZ0123456789abcdefghijklmnopqrstuvwxyz''"

definition body_head :: "int \<Rightarrow> int \<Rightarrow> string" where
  "body_head connID msgID = ''This is a load test message '' @ Itoa connID @ ''.'' @ Itoa msgID @ ''.'' @ CRLF @ CRLF"

definition body_padding :: "int \<Rightarrow> string" where
  "body_padding paddingLen =
     (if paddingLen > 0
      then concat (replicate (nat (paddingLen div int (length padding))) padding) @
           take (nat (paddingLen mod int (length padding))) padding
      else [])"

definition generateMessageBody :: "int \<Rightarrow> int \<Rightarrow> int \<Rightarrow> string" where
  "generateMessageBody sz connID msgID =
     (let body = body_head connID msgID in body @ body_padding (sz - int (length body)))"

text \<open>The clock gives the Unix time and the formatted date.\<close>

definition data_lines :: "lt_Config \<Rightarrow> int \<Rightarrow> string \<Rightarrow> int \<Rightarrow> int \<Rightarrow> string list" where
  "data_lines cfg unix date connID msgID =
     [''From: Sender <sender@loadtest.example.com>'',
      ''To: Recipient <recipient@loadtest.example.com>'',
      ''Subject: Load Test Message '' @ Itoa connID @ ''.'' @ Itoa msgID,
      ''Message-ID: <'' @ Itoa unix @ ''.'' @ Itoa connID @ ''.'' @ Itoa msgID @ ''@loadtest>'',
      ''Date: '' @ date,
      [],
      generateMessageBody (lt_MessageSize cfg) connID msgID]"

definition message_steps :: "lt_Config \<Rightarrow> int \<Rightarrow> string \<Rightarrow> int \<Rightarrow> int \<Rightarrow> lt_step list" where
  "message_steps cfg unix date connID msgID =
     [Say ''MAIL FROM:<sender@loadtest.example.com>'' ''MAIL FROM'', Hear ''MAIL FROM response'',
      Say ''RCPT TO:<recipient@loadtest.example.com>'' ''RCPT TO'', Hear ''RCPT TO response'',
      Say ''DATA'' ''DATA'', Hear ''DATA response''] @
     map (\<lambda>l. Say l ''message headers'') (butlast (data_lines cfg unix date connID msgID)) @
     [Say (last (data_lines cfg unix date connID msgID)) ''message body'',
      Say ''.'' ''end of data'', Hear ''end of data response'']"

definition sendMessage :: "lt_Config \<Rightarrow> int \<Rightarrow> string \<Rightarrow> int \<Rightarrow> int \<Rightarrow> lt_conn \<Rightarrow> go_error option \<times> lt_conn" where
  "sendMessage cfg unix date connID msgID c = lt_run (message_steps cfg unix date connID msgID) c"

section \<open>The test\<close>

text \<open>
  The messages of a connection: for each number, whether the time is up when its turn comes. The first failure
  ends the loop.
\<close>

fun lt_messages :: "lt_Config \<Rightarrow> (int \<Rightarrow> int \<times> string) \<Rightarrow> int \<Rightarrow> (int \<times> bool) list \<Rightarrow> lt_conn \<Rightarrow> Stats \<Rightarrow> Stats" where
  "lt_messages cfg clock connID [] c st = st"
| "lt_messages cfg clock connID ((j, timeUp) # js) c st =
     (if timeUp then st
      else
        (let st1 = st\<lparr>MessagesAttempted := MessagesAttempted st + 1\<rparr> in
         (case sendMessage cfg (fst (clock j)) (snd (clock j)) connID j c of
            (Some _, _) \<Rightarrow> st1\<lparr>MessagesFailed := MessagesFailed st1 + 1\<rparr>
          | (None, c1) \<Rightarrow> lt_messages cfg clock connID js c1 (st1\<lparr>MessagesSucceeded := MessagesSucceeded st1 + 1\<rparr>))))"

text \<open>Everything about a connection that the tool does not decide.\<close>

record lt_fate =
  lf_started :: bool
  lf_net :: lt_net
  lf_clock :: "int \<Rightarrow> int \<times> string"
  lf_timeUp :: "int \<Rightarrow> bool"

definition lt_connection :: "lt_Config \<Rightarrow> lt_fate \<Rightarrow> int \<Rightarrow> Stats \<Rightarrow> Stats" where
  "lt_connection cfg f connID st =
     (let st1 = st\<lparr>ConnectionsAttempted := ConnectionsAttempted st + 1\<rparr> in
      (case connectToServer (lf_net f) cfg of
         Inl _ \<Rightarrow> st1\<lparr>ConnectionsFailed := ConnectionsFailed st1 + 1\<rparr>
       | Inr c \<Rightarrow>
           lt_messages cfg (lf_clock f) connID (map (\<lambda>j. (j, lf_timeUp f j)) (map int [0..<nat (lt_MessagePerConn cfg)])) c
             (st1\<lparr>ConnectionsSucceeded := ConnectionsSucceeded st1 + 1\<rparr>)))"

text \<open>
  The counters are changed by atomic additions only, so the connections can be taken one after the other. A connection is
  started or, when the time is up, possibly skipped; the loop goes on in both cases. A
  negative parallelism panics (None), and with none no connection is ever started.
\<close>

definition runLoadTest :: "lt_Config \<Rightarrow> (int \<Rightarrow> lt_fate) \<Rightarrow> Stats option" where
  "runLoadTest cfg fate =
     (if lt_Parallel cfg < 0 then None
      else Some (fold (\<lambda>i st. if 0 < lt_Parallel cfg \<and> lf_started (fate i) then lt_connection cfg (fate i) i st else st)
             (map int [0..<nat (lt_Connections cfg)]) no_stats))"

section \<open>Properties\<close>

definition stats_ok :: "Stats \<Rightarrow> bool" where
  "stats_ok st \<longleftrightarrow> ConnectionsAttempted st = ConnectionsSucceeded st + ConnectionsFailed st \<and>
     MessagesAttempted st = MessagesSucceeded st + MessagesFailed st \<and>
     0 \<le> ConnectionsFailed st \<and> 0 \<le> ConnectionsSucceeded st \<and> 0 \<le> MessagesSucceeded st \<and> 0 \<le> MessagesFailed st"

lemma lt_messages_stats:
  "stats_ok st \<Longrightarrow> stats_ok (lt_messages cfg clock i js c st) \<and>
     MessagesAttempted (lt_messages cfg clock i js c st) \<le> MessagesAttempted st + int (length js) \<and>
     ConnectionsAttempted (lt_messages cfg clock i js c st) = ConnectionsAttempted st \<and>
     ConnectionsSucceeded (lt_messages cfg clock i js c st) = ConnectionsSucceeded st"
proof (induction js arbitrary: c st)
  case (Cons p js)
  obtain j up where p: "p = (j, up)" by (cases p)
  show ?case
  proof (cases "sendMessage cfg (fst (clock j)) (snd (clock j)) i j c")
    case (Pair r c1)
    let ?st = "st\<lparr>MessagesAttempted := MessagesAttempted st + 1, MessagesSucceeded := MessagesSucceeded st + 1\<rparr>"
    have "stats_ok ?st" using Cons.prems by (simp add: stats_ok_def)
    from Cons.IH [OF this, of c1] show ?thesis
      using Cons.prems Pair p by (auto simp: stats_ok_def Let_def split: option.splits)
  qed
qed simp

lemma lt_connection_stats:
  assumes "stats_ok st" "MessagesAttempted st \<le> ConnectionsSucceeded st * int (nat (lt_MessagePerConn cfg))"
  shows "stats_ok (lt_connection cfg f i st) \<and>
     MessagesAttempted (lt_connection cfg f i st) \<le> ConnectionsSucceeded (lt_connection cfg f i st) * int (nat (lt_MessagePerConn cfg)) \<and>
     ConnectionsAttempted (lt_connection cfg f i st) = ConnectionsAttempted st + 1"
proof (cases "connectToServer (lf_net f) cfg")
  case (Inl err)
  then show ?thesis using assms by (simp add: lt_connection_def stats_ok_def Let_def)
next
  case (Inr c)
  let ?st = "st\<lparr>ConnectionsAttempted := ConnectionsAttempted st + 1, ConnectionsSucceeded := ConnectionsSucceeded st + 1\<rparr>"
  have ok: "stats_ok ?st" using assms(1) by (simp add: stats_ok_def)
  show ?thesis
    using lt_messages_stats [OF ok, of cfg "lf_clock f" i
        "map (\<lambda>j. (j, lf_timeUp f j)) (map int [0..<nat (lt_MessagePerConn cfg)])" c] Inr assms(2)
    by (auto simp: lt_connection_def Let_def distrib_right)
qed

lemma lt_fold_stats:
  "stats_ok st \<Longrightarrow> MessagesAttempted st \<le> ConnectionsSucceeded st * int (nat (lt_MessagePerConn cfg)) \<Longrightarrow>
   st' = fold (\<lambda>i st. if P i then lt_connection cfg (fate i) i st else st) is st \<Longrightarrow>
   stats_ok st' \<and> MessagesAttempted st' \<le> ConnectionsSucceeded st' * int (nat (lt_MessagePerConn cfg)) \<and>
   ConnectionsAttempted st' = ConnectionsAttempted st + int (length (filter P is))"
proof (induction "is" arbitrary: st)
  case (Cons i "is")
  show ?case
  proof (cases "P i")
    case True
    then show ?thesis using lt_connection_stats [OF Cons.prems(1,2), of "fate i" i] Cons.IH [of "lt_connection cfg (fate i) i st"] Cons.prems(3)
      by simp
  next
    case False
    then show ?thesis using Cons by simp
  qed
qed simp

text \<open>
  The statistics of the load test add up. Whatever the network does and whenever the time is
  up, every attempted connection and every attempted message is counted exactly once as succeeded or
  failed, no more connections are attempted than configured, and no more messages than the number configured for
  each connection that succeeded.
\<close>

theorem loadtest_stats:
  assumes "runLoadTest cfg fate = Some st"
  shows "ConnectionsAttempted st = ConnectionsSucceeded st + ConnectionsFailed st \<and>
    MessagesAttempted st = MessagesSucceeded st + MessagesFailed st \<and>
    ConnectionsAttempted st \<le> max 0 (lt_Connections cfg) \<and>
    MessagesAttempted st \<le> ConnectionsSucceeded st * max 0 (lt_MessagePerConn cfg)"
proof -
  let ?P = "\<lambda>i. 0 < lt_Parallel cfg \<and> lf_started (fate i)"
  let ?is = "map int [0..<nat (lt_Connections cfg)]"
  have st: "st = fold (\<lambda>i st. if ?P i then lt_connection cfg (fate i) i st else st) ?is no_stats"
    using assms by (auto simp: runLoadTest_def split: if_splits)
  have "stats_ok no_stats" "MessagesAttempted no_stats \<le> ConnectionsSucceeded no_stats * int (nat (lt_MessagePerConn cfg))"
    by (simp_all add: stats_ok_def no_stats_def)
  from lt_fold_stats [OF this st] have "stats_ok st"
    "MessagesAttempted st \<le> ConnectionsSucceeded st * int (nat (lt_MessagePerConn cfg))"
    "ConnectionsAttempted st = int (length (filter ?P ?is))" by (simp_all add: no_stats_def)
  moreover have "length (filter ?P ?is) \<le> nat (lt_Connections cfg)"
    using length_filter_le [of ?P ?is] by simp
  ultimately show ?thesis by (simp add: stats_ok_def max_def split: if_splits) linarith+
qed

theorem loadtest_stats_witness:
  "\<exists>st. runLoadTest \<lparr>lt_ServerAddr = ''localhost:2525'', lt_Connections = 2, lt_MessagePerConn = 3, lt_MessageSize = 10, lt_Parallel = 1,
       lt_Auth = False, lt_Username = [], lt_Password = [], lt_UseTLS = False, lt_InsecureSkipTLS = False\<rparr>
     (\<lambda>i. \<lparr>lf_started = True, lf_net = \<lparr>ln_Dial = (\<lambda>_ _ _. Inl (TextError ''refused'')), ln_Handshake = (\<lambda>_ c. Inr c)\<rparr>,
           lf_clock = (\<lambda>_. (0, [])), lf_timeUp = (\<lambda>_. False)\<rparr>) = Some st \<and>
     ConnectionsFailed st = 2 \<and> ConnectionsAttempted st = ConnectionsSucceeded st + ConnectionsFailed st"
  (is "\<exists>st. runLoadTest ?cfg ?fate = Some st \<and> _")
proof -
  obtain st where st: "runLoadTest ?cfg ?fate = Some st" by (auto simp: runLoadTest_def)
  then have "ConnectionsFailed st = 2"
    by (auto simp: runLoadTest_def lt_connection_def connectToServer_def no_stats_def Let_def upt_rec numeral_2_eq_2)
  then show ?thesis using st loadtest_stats [OF st] by blast
qed

section \<open>What the server receives\<close>

lemma length_body_padding: "int (length (body_padding n)) = max 0 n"
proof -
  have L: "length padding = 62" by (simp add: padding_def)
  have "min 62 (nat (n mod 62)) = nat (n mod 62)" using pos_mod_bound [of 62 n] by simp
  moreover have "62 * nat (n div 62) + nat (n mod 62) = nat n" if "0 < n"
    using that by (simp flip: nat_mult_distrib add: nat_add_distrib [symmetric] mult.commute nat_div_distrib nat_mod_distrib)
  ultimately show ?thesis
    by (auto simp: body_padding_def L length_concat sum_list_replicate mult.commute)
qed

lemma set_body_padding: "set (body_padding n) \<subseteq> set padding"
  using set_take_subset [of _ padding] by (auto simp: body_padding_def)

lemma Itoa_line: "LF \<notin> set (Itoa i)"
  using show_nat_ascii [of LF] by (auto simp: Itoa_def is_digit_def)

fun hears :: "lt_step list \<Rightarrow> nat" where
  "hears [] = 0"
| "hears (Say l what # ss) = hears ss"
| "hears (Hear what # ss) = Suc (hears ss)"

fun said :: "lt_step list \<Rightarrow> string list" where
  "said [] = []"
| "said (Say l what # ss) = l # said ss"
| "said (Hear what # ss) = said ss"

lemma lt_run_ok:
  "tc_writes c = [] \<Longrightarrow> hears ss \<le> length (tc_in c) \<Longrightarrow>
     \<exists>c'. lt_run ss c = (None, c') \<and> tc_out c' = tc_out c @ said ss"
proof (induction ss arbitrary: c)
  case (Cons x ss)
  show ?case
  proof (cases x)
    case (Say l what)
    then show ?thesis using Cons.prems Cons.IH [of "c\<lparr>tc_out := tc_out c @ [l]\<rparr>"] by (simp add: lt_PrintfLine_def)
  next
    case (Hear what)
    then show ?thesis using Cons.prems Cons.IH [of "c\<lparr>tc_in := tl (tc_in c)\<rparr>"]
      by (cases "tc_in c") (auto simp: lt_ReadLine_def)
  qed
qed simp

lemma sendMessage_ok:
  assumes "tc_writes c = []" "4 \<le> length (tc_in c)" "sendMessage cfg unix date i j c = (r, c')"
  shows "r = None \<and> drop (length (tc_out c) + 3) (tc_out c') = data_lines cfg unix date i j @ [''.'']"
proof -
  have "hears (message_steps cfg unix date i j) = 4" by (simp add: message_steps_def data_lines_def)
  then obtain c'' where "lt_run (message_steps cfg unix date i j) c = (None, c'')"
    "tc_out c'' = tc_out c @ said (message_steps cfg unix date i j)"
    using lt_run_ok [OF assms(1), of "message_steps cfg unix date i j"] assms(2) by auto
  then show ?thesis using assms(3) by (simp add: sendMessage_def message_steps_def data_lines_def)
qed

lemma undotted_line:
  "LF \<notin> set x \<Longrightarrow> \<not> HasPrefix x ''.'' \<Longrightarrow> is_line (x @ CRLF) \<and> stuff (x @ CRLF) = x @ CRLF"
  by (cases x) (auto simp: is_line_def stuff_def HasPrefix_def butlast_append)

definition sent_text :: "string list \<Rightarrow> string" where
  "sent_text ls = concat (map (\<lambda>l. l @ CRLF) ls)"

lemma plain_text:
  assumes "list_all (\<lambda>x. LF \<notin> set x \<and> \<not> HasPrefix x ''.'') xs"
  shows "list_all is_line (map (\<lambda>l. l @ CRLF) xs) \<and> on_wire (map (\<lambda>l. l @ CRLF) xs) = sent_text (xs @ [''.''])"
  using assms
proof (induction xs)
  case (Cons x xs)
  then show ?case using undotted_line [of x] by (simp add: on_wire_def sent_text_def)
qed (simp add: on_wire_def sent_text_def terminator_def)

text \<open>The lines of a message, with those of its body apart.\<close>

definition text_lines :: "lt_Config \<Rightarrow> int \<Rightarrow> string \<Rightarrow> int \<Rightarrow> int \<Rightarrow> string list" where
  "text_lines cfg unix date i j =
     butlast (data_lines cfg unix date i j) @
     [''This is a load test message '' @ Itoa i @ ''.'' @ Itoa j @ ''.'', [],
      body_padding (lt_MessageSize cfg - int (length (body_head i j)))]"

lemma text_lines_sent: "sent_text (text_lines cfg unix date i j) = sent_text (data_lines cfg unix date i j)"
  by (simp add: sent_text_def text_lines_def data_lines_def generateMessageBody_def body_head_def Let_def)

lemma text_lines_plain:
  assumes "LF \<notin> set date"
  shows "list_all (\<lambda>x. LF \<notin> set x \<and> \<not> HasPrefix x ''.'') (text_lines cfg unix date i j)"
proof -
  let ?p = "body_padding (lt_MessageSize cfg - int (length (body_head i j)))"
  have "LF \<notin> set ?p" "CHR ''.'' \<notin> set ?p"
    using set_body_padding [of "lt_MessageSize cfg - int (length (body_head i j))"] by (auto simp: padding_def)
  then have "LF \<notin> set ?p \<and> \<not> HasPrefix ?p ''.''" by (cases ?p) (auto simp: HasPrefix_def)
  then show ?thesis using assms Itoa_line by (simp add: text_lines_def data_lines_def HasPrefix_def)
qed

text \<open>
  C33: A load test message arrives as generated, and refusals count as successes. On a connection that takes all
  lines, \<open>sendMessage\<close> reports success as soon as four lines come back, whatever they say. The server's session reads what was sent
  after DATA, up to the final dot, as exactly the header and body that were generated, and the body has the configured size unless
  its first lines are longer.
\<close>

theorem loadtest_message_received:
  assumes "tc_writes c = []" "4 \<le> length (tc_in c)" "sendMessage cfg unix date i j c = (r, c')" "LF \<notin> set date"
    "pending sc = sent_text (drop (length (tc_out c) + 3) (tc_out c')) @ rest"
    "int (length (sent_text (data_lines cfg unix date i j))) \<le> mx"
  shows "r = None \<and> fst (data_loop mx [] sc) = DataOk (sent_text (data_lines cfg unix date i j)) \<and>
    pending (snd (data_loop mx [] sc)) = rest \<and>
    int (length (generateMessageBody (lt_MessageSize cfg) i j)) = max (int (length (body_head i j))) (lt_MessageSize cfg)"
proof -
  note send = sendMessage_ok [OF assms(1-3)]
  let ?ls = "map (\<lambda>l. l @ CRLF) (text_lines cfg unix date i j)"
  note plain = plain_text [OF text_lines_plain [OF assms(4), of cfg unix i j]]
  have cat: "concat ?ls = sent_text (data_lines cfg unix date i j)"
    using text_lines_sent [of cfg unix date i j] by (simp add: sent_text_def)
  have "sent_text (data_lines cfg unix date i j @ [''.'']) = on_wire ?ls"
    using plain text_lines_sent [of cfg unix date i j] by (simp add: sent_text_def)
  then have "pending sc = on_wire ?ls @ rest" using assms(5) send by simp
  from data_loop_on_wire [OF conjunct1 [OF plain] this, of mx "[]"]
  have "fst (data_loop mx [] sc) = DataOk (sent_text (data_lines cfg unix date i j))" "pending (snd (data_loop mx [] sc)) = rest"
    using assms(6) by (simp_all add: cat)
  moreover have "int (length (generateMessageBody (lt_MessageSize cfg) i j)) = max (int (length (body_head i j))) (lt_MessageSize cfg)"
    by (simp add: generateMessageBody_def Let_def length_body_padding)
  ultimately show ?thesis using send by simp
qed

definition sample_test :: lt_Config where
  "sample_test = \<lparr>lt_ServerAddr = ''localhost:2525'', lt_Connections = 1, lt_MessagePerConn = 1, lt_MessageSize = 100, lt_Parallel = 1,
     lt_Auth = False, lt_Username = [], lt_Password = [], lt_UseTLS = False, lt_InsecureSkipTLS = False\<rparr>"

theorem loadtest_message_received_witness:
  "fst (sendMessage sample_test 7 ''today'' 0 1 (lt_new (replicate 4 ''550 no'') [])) = None \<and>
   fst (data_loop 100000 [] (new_conn [sent_text (data_lines sample_test 7 ''today'' 0 1 @ [''.'']) @ ''QUIT''])) =
     DataOk (sent_text (data_lines sample_test 7 ''today'' 0 1))"
proof -
  let ?c = "lt_new (replicate 4 ''550 no'') []"
  let ?d = "data_lines sample_test 7 ''today'' 0 1"
  obtain r c' where s: "sendMessage sample_test 7 ''today'' 0 1 ?c = (r, c')"
    by (cases "sendMessage sample_test 7 ''today'' 0 1 ?c")
  have c: "tc_writes ?c = []" "4 \<le> length (tc_in ?c)" by (simp_all add: lt_new_def)
  have p: "pending (new_conn [sent_text (?d @ [''.'']) @ ''QUIT'']) = sent_text (drop (length (tc_out ?c) + 3) (tc_out c')) @ ''QUIT''"
    using sendMessage_ok [OF c s] by (simp add: new_conn_def)
  have "int (length (sent_text ?d)) \<le> 100000" by code_simp
  from loadtest_message_received [OF c s _ p this] show ?thesis using s by simp
qed

end
