(* ===== verification/Spec2Isabelle.thy ===== *)
theory Spec2Isabelle
  imports QueueConc QueueSpec Pipeline ServerStop MailFlow InboundProps InboundStop AuthSession AuthLookup DmarcReport
    Health SmtpdMain Logging LoadTest
begin

text \<open>
  A verification development of the mail server smtpd, an SMTP server with a queue and outbound
  delivery, written in Go.

  \<^bold>\<open>The program.\<close> \<open>cmd/smtpd\<close> reads flags and a configuration (\<open>internal/config\<close>) and runs two
  servers (\<open>internal/server/server.go\<close>), one for mail transfer and one for submission. A server
  accepts connections within a semaphore and hands them to workers; a worker runs a session
  (\<open>session.go\<close>) that speaks SMTP, authenticates users (\<open>internal/auth\<close>), upgrades to TLS, calls
  the hooks of plugins (\<open>pkg/plugin\<close>) and gives complete messages to the queue
  (\<open>internal/queue\<close>). The processor (\<open>internal/processor\<close>) takes messages from the queue and
  delivers them (\<open>pkg/outbound\<close>) to the MX hosts of their recipients with pooled SMTP clients;
  messages to be tried later wait in a heap that a scheduler promotes from. \<open>pkg/inbound\<close> is a
  second, independent receiver with its own session and admission control. Plugins limit rates
  and check SPF, DKIM and DMARC over a DNS cache; DMARC events are collected into reports.

  \<^bold>\<open>Theories and sources.\<close>
  \<^item> \<open>Prelude\<close>: the functions of the Go packages strings, strconv and time that the program
    uses, with generic lemmas. \<open>GoErrors\<close>: errors as values with \<open>errors.Is\<close> and \<open>errors.As\<close>
    (\<open>pkg/smtp/error.go\<close>, \<open>internal/errors\<close>). \<open>NetIO\<close>: a connection as a buffered reader over chunks
    that arrive, a writer, and a list of outcomes that says which socket operations fail.
    \<open>Base64\<close>, \<open>TLSConf\<close>, \<open>Config\<close>: the packages of these names.
  \<^item> \<open>RetryHeap\<close>, \<open>MailQueue\<close>: the queue. The retry heap is the array heap of package
    container/heap with its swaps and indexes; the ready channel is a bounded list. A \<open>select\<close>
    with several ready cases has a list of outcomes, and the empty list means that it blocks.
    \<open>QueueConc\<close>: the goroutines that share the queue's mutex. \<open>QueueSpec\<close>: what the queue
    promises, and that it does. \<open>Processor\<close>: the worker loop and the retry policy. \<open>Pipeline\<close>:
    sessions, workers and scheduler on one queue.
  \<^item> \<open>PluginAPI\<close>, \<open>RateLimit\<close> (\<open>pkg/plugin\<close>, \<open>ratelimit\<close>, \<open>internal/security\<close>): hooks are functions on a world that
    the caller threads through them. \<open>MailAuth\<close>, \<open>DNSCache\<close>, \<open>AuthLookup\<close>, \<open>AuthSession\<close>,
    \<open>DmarcReport\<close>: the mail authentication plugins, the cache, both together, the plugins within
    a session, and the reports.
  \<^item> \<open>Auth\<close>: the user store and the token authenticator. \<open>Session\<close>, \<open>SessionProps\<close>,
    \<open>SessionSafety\<close>: the handlers and the command loop of a session, that the loop ends, and what
    holds of it. \<open>ServerLoop\<close>, \<open>ServerStop\<close>: the server and its shutdown. \<open>Health\<close>: the health endpoint. \<open>SmtpdMain\<close>: the program.
  \<^item> \<open>Metrics\<close>, \<open>Logging\<close>: the collectors and the functions that record into them, as the calls they
    make on the Prometheus library; the loggers. \<open>MailFlow\<close>: a message from the session to the queue and
    the metrics. \<open>LoadTest\<close>: the load test tool against the session.
  \<^item> \<open>Inbound\<close>, \<open>InboundProps\<close>, \<open>InboundServe\<close>, \<open>InboundStop\<close>: the second receiver, its session,
    its admission of connections and its shutdown.
  \<^item> \<open>SmtpClient\<close>, \<open>ClientPool\<close>, \<open>Deliverer\<close>: outbound delivery.
  \<^item> This theory: the properties of the parts together.

  \<^bold>\<open>What is shown.\<close> Sessions: relay control, authentication, STARTTLS, the transfer of message
  data with dot stuffing, the end of the loop, the reuse of pooled sessions; the same of the
  second receiver, with its limits. The queue: heap order, conservation of messages under every
  interleaving (and what closing it drops), promotion in time order, refinement of a list and a bag, and the interleavings
  in which it deadlocks. The processor: what a pass does with a message, and the retry delays.
  Delivery: which recipients go where and in which order, the order of the hosts, exclusive use of
  pooled connections, and the situations in which delivery fails or blocks (a client has its mutex).
  Plugins: the limits of the rate limiters in real time, when SPF rejects, by a definition of what a
  record says of a client that is independent of the code, on which published records SPF and DMARC
  decide, the counts of reports. The
  program: with which configurations it starts. The composition: a message answered with code 250
  is in the queue with its sender, recipients and data; a message handed to delivery is never retried; a sender
  that is not valid UTF-8 makes a worker panic. Shutdown: the server drains, and the second receiver
  ends with every connection closed. The metrics: every call
  fits its collector. The load test: its messages arrive as generated.
  Several theorems state defects of the code; they say so.

  \<^bold>\<open>Interfaces.\<close> \<open>timed_store\<close> (the heap for the queue), \<open>queuer\<close> (the queue for the processor),
  \<open>auth_store\<close> (the user store), \<open>plugin_invariant\<close> (plugins for the loop over the hooks) and
  \<open>txt_source\<close> (the DNS cache for the checkers) are locales, each interpreted on the definitions
  that model the provider.

  \<^bold>\<open>Loops and fuel.\<close> Every loop is a total function. Reading loops end because the bytes still
  to come get fewer, except for the one upgrade to TLS, which can happen once; the heap loops
  end by their index, promotion by the length of the heap. \<open>session_ends\<close> gives the number of
  passes that is enough. No other definition has fuel.

  \<^bold>\<open>Integers and time.\<close> Sizes and counters are unbounded where no overflow is possible; the retry
  delay, where it is, is computed with 64-bit words. Times are nanoseconds since Go's zero time. The
  one floating point product, of the token bucket, is an argument with a bound on its rounding.

  \<^bold>\<open>Granularity.\<close> A part of an operation that a mutex makes atomic is one step. A promotion of the
  retry scheduler is one step too, although callers that do not need the mutex may send and receive
  between two of its sends; \<open>Close\<close> of the queue is two steps, around its wait for the scheduler. The
  steps of \<open>QueueConc\<close>, which show the deadlock, are those of callers whose context does not end. A
  lookup in the DNS cache has the lookups of others between its two locks. Waits for a group of
  goroutines (\<open>processor_Stop\<close>) are given by the state when they have ended.

  \<^bold>\<open>Strings.\<close> Case mapping is that of Go for ASCII and for the runes that map to ASCII letters, and
  leaves other bytes unchanged; \<open>Prelude\<close> says what follows from it.

  \<^bold>\<open>Parameters.\<close> Libraries and the system outside are arguments: bcrypt, the JWT parser, the TLS
  handshake and key loading, the YAML, XML, PEM, CIDR and mail header parsers, the DKIM library, the
  DNS, the clock, identifiers, files, and the answers of remote servers. Plugins and backends
  are arguments of the sessions, so the theorems on sessions hold for all of them.

  \<^bold>\<open>Not modelled.\<close> The encoding of log entries and where the components log; the values of the
  Prometheus collectors, which the library keeps (the sessions, the queue and the server count
  commands, messages and connections in their own states); the time of deadlines, which appear as
  operations that fail; the metrics HTTP server; the flags and the output of \<open>cmd/loadtest\<close>;
  \<open>cmd/benchmark\<close> and \<open>internal/benchmark\<close>, which only measure times. Deliveries to several domains run one
  after the other, in any order, not interleaved.
\<close>

section \<open>From the queue to the remote servers\<close>

text \<open>
  C36: A failed delivery is not retried. Whatever happens to a message at the remote servers
  (no MX host answers, a host asks to try again later, every host refuses), as long as
  \<open>Deliver\<close> returns the worker counts the message as delivered and does not put it back: the
  queue is as it was after the message was taken from it.
\<close>

theorem failed_delivery_not_retried:
  assumes "Deliver n lookupMX d ord (Some m) p w = (DeliverReturns res, calls, st, p', w')"
    "ie_deliver e m = res" "NextAttemptAt m \<le> ie_now e"
  shows "process_msg e m q = [(if ie_doneEnd e then Return else Loop, q, [(''delivered'', From m)])]"
proof -
  have "res = None" using assms(1) by (auto simp: Deliver_def Let_def split: if_splits prod.splits)
  then show ?thesis using assms(2,3) by (simp add: process_msg_def after_delivery_def next_of_def)
qed

definition lookup_fails :: "string \<Rightarrow> unit \<Rightarrow> (go_error + string list) \<times> unit" where
  "lookup_fails domain w = (Inl (DNSError ''server misbehaving'' False False True), w)"

theorem failed_delivery_not_retried_witness:
  "snd (snd (last (fst (snd (Deliver (willing_net []) lookup_fails sample_deliverer id (Some sample_mail) sample_pool ()))))) \<noteq> DomReturns None \<and>
   process_msg (sample_env\<lparr>ie_now := 0, ie_deliver := \<lambda>_. None, ie_doneEnd := False\<rparr>) sample_mail (NewQueue 1) =
     [(Loop, NewQueue 1, [(''delivered'', ''a@here.org'')])]"
proof -
  let ?D = "Deliver (willing_net []) lookup_fails sample_deliverer id (Some sample_mail) sample_pool ()"
  let ?e = "sample_env\<lparr>ie_now := 0, ie_deliver := \<lambda>_. None, ie_doneEnd := False\<rparr>"
  have "fst ?D = DeliverReturns None" by code_simp
  then obtain calls st p' w' where D: "?D = (DeliverReturns None, calls, st, p', w')" by (cases ?D) auto
  have "snd (snd (last (fst (snd ?D)))) \<noteq> DomReturns None" by code_simp
  moreover have "process_msg ?e sample_mail (NewQueue 1) = [(Loop, NewQueue 1, [(''delivered'', From sample_mail)])]"
    using failed_delivery_not_retried [OF D, of ?e "NewQueue 1"] by (simp add: sample_mail_def)
  ultimately show ?thesis by (simp add: sample_mail_def)
qed

end
